(* ===== verification/Router_Prelude.thy ===== *)
theory Router_Prelude
  imports Main "HOL-Library.Word" "HOL-Library.Char_ord" "HOL-Library.List_Lexorder"
    "HOL-Library.Multiset"
    "HOL-Library.Product_Lexorder"
begin

text \<open>
  What every component of the router shares: the machine integers of the Rust code, its
  string operations on UTF-8 bytes, the ordered map of its catalogs, and the generic
  lemmas the component theories rest on.

  A Rust \<open>String\<close> is modelled as the list of its UTF-8 bytes (HOL's \<open>char\<close> is a byte).
  \<open>u64\<close> and \<open>u32\<close> values are words: \<open>+\<close> and \<open>-\<close> wrap as a release build's do (the
  manifest asks for no overflow checks), and \<open>saturating_sub\<close> is \<open>sat_sub\<close>. An
  \<open>Instant\<close> or a \<open>Duration\<close> is a natural number of nanoseconds, and
  \<open>duration_since\<close> is truncated subtraction, as \<open>Instant::duration_since\<close> saturates.
\<close>

section \<open>Named collections\<close>

named_theorems word_nat \<open>u64 operations read as natural numbers\<close>
named_theorems slot_frame \<open>what an operation on the slots leaves alone\<close>
named_theorems keeps_inv \<open>operations that keep the slot invariant\<close>

section \<open>Machine integers\<close>

type_synonym u64 = "64 word"
type_synonym u32 = "32 word"
type_synonym instant = nat
type_synonym duration = nat

text \<open>Durations in nanoseconds, as \<open>Duration\<close> counts them.\<close>

definition seconds :: "nat \<Rightarrow> duration" where
  "seconds n = n * 1000000000"

definition millis :: "nat \<Rightarrow> duration" where
  "millis n = n * 1000000"

definition as_secs :: "duration \<Rightarrow> nat" where
  "as_secs d = d div 1000000000"

text \<open>\<open>u64::from\<close> on a \<open>u32\<close>.\<close>

definition widen :: "u32 \<Rightarrow> u64" where
  "widen x = ucast x"

text \<open>\<open>u64::saturating_sub\<close>.\<close>

definition sat_sub :: "u64 \<Rightarrow> u64 \<Rightarrow> u64" where
  "sat_sub a b = (if a \<le> b then 0 else a - b)"

text \<open>\<open>Iterator::sum\<close> over \<open>u64\<close>: addition in order, wrapping.\<close>

definition sum_u64 :: "u64 list \<Rightarrow> u64" where
  "sum_u64 xs = fold (\<lambda>x acc. acc + x) xs 0"

text \<open>\<open>u32::try_from(x).unwrap_or(u32::MAX)\<close> on a \<open>u64\<close>.\<close>

definition clamp_u32 :: "u64 \<Rightarrow> u32" where
  "clamp_u32 x = (if unat x < 2 ^ 32 then ucast x else - 1)"

lemma unat_widen [word_nat]: "unat (widen x) = unat x"
proof -
  have "unat x < 2 ^ 32" using unsigned_less [of x] by simp
  then have "unat x < 2 ^ 64" by simp
  then show ?thesis
    by (simp add: widen_def unsigned_ucast_eq take_bit_nat_eq_self)
qed

lemma widen_less [simp]: "unat (widen x) < 2 ^ 32"
  using unsigned_less [of x] by (simp add: unat_widen)

lemma unat_sat_sub [word_nat]: "unat (sat_sub a b) = unat a - unat b"
  by (auto simp: sat_sub_def word_le_nat_alt unat_sub)

lemma unat_clamp_u32 [word_nat]: "unat (clamp_u32 x) = min (unat x) (2 ^ 32 - 1)"
proof (cases "unat x < 2 ^ 32")
  case True
  then show ?thesis
    by (simp add: clamp_u32_def unsigned_ucast_eq take_bit_nat_eq_self)
next
  case False
  have "unat (- 1 :: u32) = 2 ^ 32 - 1" by (simp add: unsigned_minus_1_eq_mask mask_eq_exp_minus_1)
  with False show ?thesis by (simp add: clamp_u32_def)
qed

lemma unat_max_word [word_nat]: "unat (max (a :: 'a::len word) b) = max (unat a) (unat b)"
  by (auto simp: max_def word_le_nat_alt)

lemma unat_add_exact:
  "unat a + unat b < 2 ^ 64 \<Longrightarrow> unat ((a :: u64) + b) = unat a + unat b"
  by (simp add: unat_word_ariths)

lemma fold_add_u64:
  "fold (\<lambda>x acc. acc + x) xs (a :: u64) = a + fold (\<lambda>x acc. acc + x) xs 0"
proof (induction xs arbitrary: a)
  case Nil
  then show ?case by simp
next
  case (Cons x xs)
  show ?case using Cons [of "a + x"] Cons [of x] by (simp add: add.assoc)
qed

lemma sum_u64_simps [simp]:
  "sum_u64 [] = 0"
  "sum_u64 (x # xs) = x + sum_u64 xs"
  using fold_add_u64 [of xs x] by (simp_all add: sum_u64_def)

lemma unat_sum_u64:
  "sum_list (map unat xs) < 2 ^ 64 \<Longrightarrow> unat (sum_u64 xs) = sum_list (map unat xs)"
proof (induction xs)
  case Nil
  then show ?case by simp
next
  case (Cons x xs)
  then have ih: "unat (sum_u64 xs) = sum_list (map unat xs)" by simp
  with Cons.prems show ?case by (simp add: unat_add_exact)
qed

section \<open>Decimal numbers\<close>

text \<open>A number as \<open>format!("{}")\<close> writes it.\<close>

definition digit_char :: "nat \<Rightarrow> char" where
  "digit_char d = char_of (48 + d)"

fun dec :: "nat \<Rightarrow> string" where
  "dec n = (if n < 10 then [digit_char n] else dec (n div 10) @ [digit_char (n mod 10)])"

declare dec.simps [simp del]

definition dec64 :: "u64 \<Rightarrow> string" where
  "dec64 x = dec (unat x)"

text \<open>
  \<open>str::parse\<close> for an unsigned number below \<open>bound\<close>: an optional plus sign, then at least
  one decimal digit; anything else, and a value past the type, is an error.
\<close>

definition is_digit :: "char \<Rightarrow> bool" where
  "is_digit c = (48 \<le> (of_char c :: nat) \<and> (of_char c :: nat) \<le> 57)"

definition digit_val :: "char \<Rightarrow> nat" where
  "digit_val c = of_char c - 48"

definition digits_val :: "string \<Rightarrow> nat" where
  "digits_val s = foldl (\<lambda>n c. 10 * n + digit_val c) 0 s"

definition parse_unsigned :: "nat \<Rightarrow> string \<Rightarrow> nat option" where
  "parse_unsigned bound s =
     (let ds = (case s of [] \<Rightarrow> [] | c # cs \<Rightarrow> if c = CHR ''+'' then cs else s) in
      if ds = [] \<or> \<not> list_all is_digit ds then None
      else if digits_val ds < bound then Some (digits_val ds) else None)"

lemma of_char_digit [simp]: "d < 10 \<Longrightarrow> (of_char (digit_char d) :: nat) = 48 + d"
  by (simp add: digit_char_def take_bit_nat_eq_self)

lemma is_digit_digit_char [simp]: "d < 10 \<Longrightarrow> is_digit (digit_char d)"
  by (simp add: is_digit_def)

lemma digit_val_digit_char [simp]: "d < 10 \<Longrightarrow> digit_val (digit_char d) = d"
  by (simp add: digit_val_def)

lemma dec_digits: "dec n \<noteq> [] \<and> list_all is_digit (dec n) \<and> digits_val (dec n) = n"
proof (induction n rule: dec.induct)
  case (1 n)
  show ?case
  proof (cases "n < 10")
    case True
    then show ?thesis by (simp add: dec.simps [of n] digits_val_def)
  next
    case False
    with 1 have ih: "list_all is_digit (dec (n div 10))" "digits_val (dec (n div 10)) = n div 10"
      by simp_all
    then have "digits_val (dec (n div 10) @ [digit_char (n mod 10)]) = n"
      by (simp add: digits_val_def)
    with False ih show ?thesis by (simp add: dec.simps [of n])
  qed
qed

lemma length_dec: "0 < w \<Longrightarrow> n < 10 ^ w \<Longrightarrow> length (dec n) \<le> w"
proof (induction w arbitrary: n)
  case 0
  then show ?case by simp
next
  case (Suc w)
  show ?case
  proof (cases "n < 10")
    case True
    then show ?thesis by (simp add: dec.simps [of n])
  next
    case False
    then have "0 < w" using Suc.prems by (cases w) auto
    moreover have "n div 10 < 10 ^ w" using Suc.prems by (simp add: less_mult_imp_div_less mult.commute)
    ultimately show ?thesis using Suc.IH [of "n div 10"] False by (simp add: dec.simps [of n])
  qed
qed

lemma hd_dec_digit: "is_digit (hd (dec n))"
  using dec_digits [of n] by (cases "dec n") simp_all

lemma parse_dec:
  assumes "n < bound"
  shows "parse_unsigned bound (dec n) = Some n"
proof -
  obtain c cs where d: "dec n = c # cs" using dec_digits [of n] by (cases "dec n") auto
  have "is_digit c" using hd_dec_digit [of n] d by simp
  then have "c \<noteq> CHR ''+''" by (auto simp: is_digit_def)
  with d dec_digits [of n] assms show ?thesis
    by (simp add: parse_unsigned_def)
qed

lemma parse_unsigned_bound: "parse_unsigned bound s = Some n \<Longrightarrow> n < bound"
  by (auto simp: parse_unsigned_def Let_def split: if_splits)

lemma map_filter_append:
  "List.map_filter f (xs @ ys) = List.map_filter f xs @ List.map_filter f ys"
  by (simp add: List.map_filter_def)

section \<open>Text\<close>

text \<open>A single quote, which a string literal cannot end with, and text between two.\<close>

definition crlf :: string where
  "crlf = [CHR 0x0D, CHR 0x0A]"

definition quote1 :: string where
  "quote1 = [CHR 0x27]"

definition quoted :: "string \<Rightarrow> string" where
  "quoted s = quote1 @ s @ quote1"

text \<open>\<open>[String]::join\<close>.\<close>

fun join :: "string \<Rightarrow> string list \<Rightarrow> string" where
  "join sep [] = []"
| "join sep [x] = x"
| "join sep (x # y # xs) = x @ sep @ join sep (y # xs)"

text \<open>
  The characters \<open>char::is_whitespace\<close> accepts, each as its UTF-8 bytes. \<open>str::trim\<close>
  drops them from both ends; on valid UTF-8 matching bytes is matching characters.
\<close>

definition white_chars :: "string list" where
  "white_chars =
     [[CHR 0x20], [CHR 0x09], [CHR 0x0A], [CHR 0x0B], [CHR 0x0C], [CHR 0x0D],
      [CHR 0xC2, CHR 0x85], [CHR 0xC2, CHR 0xA0], [CHR 0xE1, CHR 0x9A, CHR 0x80],
      [CHR 0xE2, CHR 0x80, CHR 0x80], [CHR 0xE2, CHR 0x80, CHR 0x81],
      [CHR 0xE2, CHR 0x80, CHR 0x82], [CHR 0xE2, CHR 0x80, CHR 0x83],
      [CHR 0xE2, CHR 0x80, CHR 0x84], [CHR 0xE2, CHR 0x80, CHR 0x85],
      [CHR 0xE2, CHR 0x80, CHR 0x86], [CHR 0xE2, CHR 0x80, CHR 0x87],
      [CHR 0xE2, CHR 0x80, CHR 0x88], [CHR 0xE2, CHR 0x80, CHR 0x89],
      [CHR 0xE2, CHR 0x80, CHR 0x8A], [CHR 0xE2, CHR 0x80, CHR 0xA8],
      [CHR 0xE2, CHR 0x80, CHR 0xA9], [CHR 0xE2, CHR 0x80, CHR 0xAF],
      [CHR 0xE2, CHR 0x81, CHR 0x9F], [CHR 0xE3, CHR 0x80, CHR 0x80]]"

definition white_rev :: "string list" where
  "white_rev = map rev white_chars"

text \<open>The first listed word that starts the text, as the length to drop; 0 when none does.\<close>

fun lead :: "string list \<Rightarrow> string \<Rightarrow> nat" where
  "lead [] s = 0"
| "lead (w # ws) s = (if take (length w) s = w then length w else lead ws s)"

function drop_lead :: "string list \<Rightarrow> string \<Rightarrow> string" where
  "drop_lead ws s =
     (if lead ws s = 0 \<or> s = [] then s else drop_lead ws (drop (lead ws s) s))"
  by pat_completeness auto
termination
  by (relation "measure (\<lambda>(ws, s). length s)") auto

declare drop_lead.simps [simp del]

definition trim_start :: "string \<Rightarrow> string" where
  "trim_start s = drop_lead white_chars s"

definition trim_end :: "string \<Rightarrow> string" where
  "trim_end s = rev (drop_lead white_rev (rev s))"

definition trim :: "string \<Rightarrow> string" where
  "trim s = trim_end (trim_start s)"

lemma drop_lead_idem: "drop_lead ws (drop_lead ws s) = drop_lead ws s"
proof (induction ws s rule: drop_lead.induct)
  case (1 ws s)
  show ?case
  proof (cases "lead ws s = 0 \<or> s = []")
    case True
    then have "drop_lead ws s = s" by (subst drop_lead.simps) simp
    then show ?thesis by simp
  next
    case False
    then have "drop_lead ws s = drop_lead ws (drop (lead ws s) s)"
      by (subst drop_lead.simps) simp
    with False 1 show ?thesis by simp
  qed
qed

lemma length_drop_lead: "length (drop_lead ws s) \<le> length s"
proof (induction ws s rule: drop_lead.induct)
  case (1 ws s)
  then show ?case
    by (subst drop_lead.simps) (auto intro: order_trans [OF 1])
qed

text \<open>Text that starts and ends with a visible ASCII character is already trimmed.\<close>

definition visible :: "char \<Rightarrow> bool" where
  "visible c = (33 \<le> (of_char c :: nat) \<and> (of_char c :: nat) \<le> 126)"

lemma lead_other:
  "list_all (\<lambda>w. w = [] \<or> hd w \<noteq> c) ws \<Longrightarrow> lead ws (c # s) = 0"
proof (induction ws)
  case Nil
  then show ?case by simp
next
  case (Cons w ws)
  then show ?case by (cases w) auto
qed

lemma white_not_visible:
  "list_all (\<lambda>w. \<not> visible (hd w)) white_chars"
  "list_all (\<lambda>w. \<not> visible (hd w)) white_rev"
  by (simp_all add: white_rev_def white_chars_def visible_def)

lemma lead_visible:
  assumes "visible c"
  shows "lead white_chars (c # s) = 0" and "lead white_rev (c # s) = 0"
  using white_not_visible assms by (auto intro!: lead_other simp: list_all_iff)

lemma drop_lead_stop: "lead ws s = 0 \<Longrightarrow> drop_lead ws s = s"
  by (simp add: drop_lead.simps [of ws s])

lemma trim_visible:
  assumes "s \<noteq> []" and "visible (hd s)" and "visible (last s)"
  shows "trim s = s"
proof -
  obtain c cs where s: "s = c # cs" using assms(1) by (cases s) auto
  obtain d ds where r: "rev s = d # ds" using assms(1) by (cases "rev s") auto
  have "d = last s" using r by (metis hd_rev list.sel(1))
  then have "drop_lead white_rev (rev s) = rev s"
    using assms(3) by (simp add: r drop_lead_stop lead_visible)
  moreover have "drop_lead white_chars s = s"
    using assms(2) s by (simp add: drop_lead_stop lead_visible)
  ultimately show ?thesis by (simp add: trim_def trim_start_def trim_end_def)
qed

lemma visible_digit: "is_digit c \<Longrightarrow> visible c"
  by (simp add: is_digit_def visible_def)

lemma trim_digits: "s \<noteq> [] \<Longrightarrow> list_all is_digit s \<Longrightarrow> trim s = s"
  by (intro trim_visible) (auto simp: list_all_iff visible_digit)

lemma trim_dec [simp]: "trim (dec n) = dec n"
  using dec_digits [of n] by (simp add: trim_digits)

text \<open>ASCII case folding, which leaves every byte that is not an ASCII letter alone.\<close>

definition lower_char :: "char \<Rightarrow> char" where
  "lower_char c = (let n = of_char c :: nat in
     if 65 \<le> n \<and> n \<le> 90 then char_of (n + 32) else c)"

definition ascii_lower :: "string \<Rightarrow> string" where
  "ascii_lower s = map lower_char s"

definition eq_ignore_case :: "string \<Rightarrow> string \<Rightarrow> bool" where
  "eq_ignore_case a b = (ascii_lower a = ascii_lower b)"

definition is_lower :: "char \<Rightarrow> bool" where
  "is_lower c = (97 \<le> (of_char c :: nat) \<and> (of_char c :: nat) \<le> 122)"

definition is_upper :: "char \<Rightarrow> bool" where
  "is_upper c = (65 \<le> (of_char c :: nat) \<and> (of_char c :: nat) \<le> 90)"

definition is_alpha :: "char \<Rightarrow> bool" where
  "is_alpha c = (is_lower c \<or> is_upper c)"

definition is_alnum :: "char \<Rightarrow> bool" where
  "is_alnum c = (is_alpha c \<or> is_digit c)"

lemma eq_ignore_case_equiv:
  "eq_ignore_case a a"
  "eq_ignore_case a b \<Longrightarrow> eq_ignore_case b a"
  "eq_ignore_case a b \<Longrightarrow> eq_ignore_case b c \<Longrightarrow> eq_ignore_case a c"
  by (simp_all add: eq_ignore_case_def)

text \<open>
  \<open>starts_with\<close>, \<open>ends_with\<close>, \<open>strip_prefix\<close>, \<open>split_once\<close> on one byte, \<open>contains\<close>.
\<close>

definition starts_with :: "string \<Rightarrow> string \<Rightarrow> bool" where
  "starts_with p s = (take (length p) s = p)"

definition ends_with :: "string \<Rightarrow> string \<Rightarrow> bool" where
  "ends_with q s = (length q \<le> length s \<and> drop (length s - length q) s = q)"

definition strip_prefix :: "string \<Rightarrow> string \<Rightarrow> string option" where
  "strip_prefix p s = (if starts_with p s then Some (drop (length p) s) else None)"

fun split_once :: "char \<Rightarrow> string \<Rightarrow> (string \<times> string) option" where
  "split_once c [] = None"
| "split_once c (x # xs) =
     (if x = c then Some ([], xs)
      else case split_once c xs of None \<Rightarrow> None | Some (a, b) \<Rightarrow> Some (x # a, b))"

fun contains_text :: "string \<Rightarrow> string \<Rightarrow> bool" where
  "contains_text p [] = (p = [])"
| "contains_text p (x # xs) = (starts_with p (x # xs) \<or> contains_text p xs)"

fun split_on :: "char \<Rightarrow> string \<Rightarrow> string list" where
  "split_on c [] = [[]]"
| "split_on c (x # xs) =
     (if x = c then [] # split_on c xs
      else case split_on c xs of [] \<Rightarrow> [[x]] | w # ws \<Rightarrow> (x # w) # ws)"

text \<open>\<open>str::split_whitespace\<close>: the non-empty stretches between white characters.\<close>

fun words_from :: "nat \<Rightarrow> string \<Rightarrow> string \<Rightarrow> string list" where
  "words_from skip acc [] = (if acc = [] then [] else [rev acc])"
| "words_from (Suc n) acc (x # xs) = words_from n acc xs"
| "words_from 0 acc (x # xs) =
     (let l = lead white_chars (x # xs) in
      if l = 0 then words_from 0 (x # acc) xs
      else (if acc = [] then [] else [rev acc]) @ words_from (l - 1) [] xs)"

definition split_whitespace :: "string \<Rightarrow> string list" where
  "split_whitespace s = words_from 0 [] s"

lemma strip_prefix_append [simp]: "strip_prefix p (p @ s) = Some s"
  by (simp add: strip_prefix_def starts_with_def)

lemma strip_prefix_Some: "strip_prefix p s = Some t \<longleftrightarrow> s = p @ t"
  by (auto simp: strip_prefix_def starts_with_def split: if_splits)
    (metis append_take_drop_id)

lemma split_once_Some:
  "split_once c s = Some (a, b) \<longleftrightarrow> s = a @ c # b \<and> c \<notin> set a"
proof (induction s arbitrary: a)
  case Nil
  then show ?case by simp
next
  case (Cons x xs)
  show ?case
  proof (cases "x = c")
    case True
    then show ?thesis by (cases a) auto
  next
    case False
    show ?thesis
    proof (cases a)
      case Nil
      with False show ?thesis by (auto split: option.splits)
    next
      case (Cons y ys)
      with False Cons.IH [of ys] show ?thesis
        by (auto split: option.splits)
    qed
  qed
qed

lemma split_once_None: "split_once c s = None \<longleftrightarrow> c \<notin> set s"
  by (induction s) (auto split: option.splits)

section \<open>The ordered map of a \<open>BTreeMap\<close>\<close>

text \<open>
  An association list in key order without duplicates, as \<open>BTreeMap\<close> iterates.
  \<open>tree_insert\<close> replaces the value of a key already there.
\<close>

type_synonym 'v tree = "(string \<times> 'v) list"

fun tree_insert :: "string \<Rightarrow> 'v \<Rightarrow> 'v tree \<Rightarrow> 'v tree" where
  "tree_insert k v [] = [(k, v)]"
| "tree_insert k v ((a, b) # ps) =
     (if k < a then (k, v) # (a, b) # ps
      else if k = a then (k, v) # ps
      else (a, b) # tree_insert k v ps)"

definition tree_extend :: "'v tree \<Rightarrow> 'v tree \<Rightarrow> 'v tree" where
  "tree_extend m n = fold (\<lambda>(k, v) acc. tree_insert k v acc) n m"

definition tree_ok :: "'v tree \<Rightarrow> bool" where
  "tree_ok m = sorted_wrt (<) (map fst m)"

lemma tree_insert_keys: "fst ` set (tree_insert k v m) = insert k (fst ` set m)"
  by (induction k v m rule: tree_insert.induct) auto

lemma tree_ok_insert: "tree_ok m \<Longrightarrow> tree_ok (tree_insert k v m)"
proof (induction k v m rule: tree_insert.induct)
  case (1 k v)
  then show ?case by (simp add: tree_ok_def)
next
  case (2 k v a b ps)
  have keys: "set (map fst (tree_insert k v ps)) = insert k (set (map fst ps))"
    using tree_insert_keys [of k v ps] by simp
  from 2 show ?case
    by (auto simp: tree_ok_def keys less_trans simp flip: set_map)
qed

lemma map_of_tree_insert: "map_of (tree_insert k v m) = (map_of m)(k \<mapsto> v)"
  by (induction k v m rule: tree_insert.induct) (auto simp: fun_eq_iff)

lemma tree_ok_extend: "tree_ok m \<Longrightarrow> tree_ok (tree_extend m n)"
  unfolding tree_extend_def
  by (induction n arbitrary: m) (auto simp: tree_ok_insert)

text \<open>\<open>Option::or\<close>.\<close>

definition or_else :: "'a option \<Rightarrow> 'a option \<Rightarrow> 'a option" where
  "or_else a b = (case a of None \<Rightarrow> b | Some x \<Rightarrow> Some x)"

section \<open>Lists\<close>

lemma find_SomeD: "find P xs = Some x \<Longrightarrow> P x \<and> x \<in> set xs"
  by (auto simp: find_Some_iff)

lemma sum_list_filter_split:
  "sum_list (map f xs) =
     sum_list (map f (filter P xs)) + (sum_list (map f (filter (\<lambda>x. \<not> P x) xs)) :: nat)"
  by (induction xs) auto

lemma sum_list_sort_key:
  "sum_list (map f (sort_key k xs)) = (sum_list (map f xs) :: nat)"
proof -
  have "mset (map f (sort_key k xs)) = mset (map f xs)" by simp
  then show ?thesis by (metis sum_mset_sum_list)
qed

lemma sum_list_take_le: "sum_list (map f (take n xs)) \<le> (sum_list (map f xs) :: nat)"
  by (metis append_take_drop_id le_add1 map_append sum_list_append)

end
