(* ===== verification/Catalog_Entry.thy ===== *)
theory Catalog_Entry
  imports Router_Prelude
begin

text \<open>
  One model the router can serve and the catalog that lists them: \<open>catalog/entry.rs\<close>,
  \<open>catalog/path.rs\<close>, \<open>catalog/capability.rs\<close> and \<open>catalog/listing.rs\<close> (without
  \<open>Catalog::parse\<close>, which is in \<open>Catalog_Read\<close>). The lemmas say what a location can
  never be, which entry an identifier finds, and what the residents reserve.
\<close>

section \<open>Residency\<close>

datatype residency = Resident | OnDemand

definition residency_names :: "string list" where
  "residency_names = [''resident'', ''on-demand'']"

definition residency_parse :: "string \<Rightarrow> residency option" where
  "residency_parse v =
     (if v = ''resident'' then Some Resident
      else if v = ''on-demand'' then Some OnDemand
      else None)"

lemma residency_parse_names: "residency_parse v \<noteq> None \<longleftrightarrow> v \<in> set residency_names"
  by (auto simp: residency_parse_def residency_names_def)

section \<open>Locations inside the models root\<close>

datatype relative_path = RelativePath (as_str: string)

text \<open>\<open>anchor_of\<close>: what a location is anchored to, Windows spellings included.\<close>

definition anchor_of :: "string \<Rightarrow> string option" where
  "anchor_of v =
     (if starts_with [CHR 0x5C, CHR 0x5C] v then Some ''a network share''
      else if starts_with ''/'' v \<or> starts_with [CHR 0x5C] v then Some ''a filesystem root''
      else case v of
          letter # c # rest \<Rightarrow>
            if c = CHR '':'' \<and> is_alpha letter then Some ''a drive letter'' else None
        | _ \<Rightarrow> None)"

definition relative_path_new :: "string \<Rightarrow> string + relative_path" where
  "relative_path_new v =
     (if v = [] then Inl ''must not be empty''
      else case anchor_of v of
          Some anchor \<Rightarrow> Inl (''must be relative to the models root, but '' @ quoted v
            @ '' is anchored to '' @ anchor)
        | None \<Rightarrow> Inr (RelativePath v))"

text \<open>
  \<open>Path::join\<close> on Unix: an absolute argument replaces the base, and one separator is put
  between the two unless the base is empty or already ends with one.
\<close>

definition path_join :: "string \<Rightarrow> string \<Rightarrow> string" where
  "path_join root p =
     (if starts_with ''/'' p then p
      else if root = [] \<or> last root = CHR ''/'' then root @ p
      else root @ ''/'' @ p)"

definition resolve :: "relative_path \<Rightarrow> string \<Rightarrow> string" where
  "resolve p root = path_join root (as_str p)"

lemma relative_path_newD:
  assumes "relative_path_new v = Inr p"
  shows "as_str p = v" and "v \<noteq> []" and "anchor_of v = None"
  using assms by (auto simp: relative_path_new_def split: if_splits option.splits)

lemma anchor_of_None_not_absolute: "anchor_of v = None \<Longrightarrow> \<not> starts_with ''/'' v"
  by (auto simp: anchor_of_def split: if_splits)

lemma resolve_under_root:
  assumes "relative_path_new v = Inr p"
  shows "\<exists>sep. (sep = [] \<or> sep = ''/'') \<and> resolve p root = root @ sep @ v"
  using relative_path_newD [OF assms] anchor_of_None_not_absolute [of v]
  by (auto simp: resolve_def path_join_def)

section \<open>Entries\<close>

record entry =
  e_id :: string
  e_path :: relative_path
  e_draft_path :: "relative_path option"
  e_projector_path :: "relative_path option"
  e_context_size :: u32
  e_residency :: residency
  e_memory_estimate_mib :: u32
  e_reasoning_format :: "string option"
  e_reasoning_effort :: "string option"
  e_startup_timeout_seconds :: u32
  e_runtime :: "string option"
  e_flags :: "string tree"

text \<open>An entry with nothing optional set, for the witnesses.\<close>

definition plain_entry :: "string \<Rightarrow> u32 \<Rightarrow> residency \<Rightarrow> entry" where
  "plain_entry i mib r =
     \<lparr>e_id = i, e_path = RelativePath (i @ ''.gguf''), e_draft_path = None,
      e_projector_path = None, e_context_size = 4096, e_residency = r,
      e_memory_estimate_mib = mib, e_reasoning_format = None, e_reasoning_effort = None,
      e_startup_timeout_seconds = 300, e_runtime = None, e_flags = []\<rparr>"

text \<open>A flag whose value neither spells \<open>false\<close> nor \<open>0\<close> is on.\<close>

definition switched_on :: "string \<Rightarrow> bool" where
  "switched_on v = (ascii_lower (trim v) \<notin> {''false'', ''0''})"

definition generates :: "entry \<Rightarrow> bool" where
  "generates e =
     (\<not> list_ex switched_on
        (List.map_filter (map_of (e_flags e))
           [''embeddings'', ''embedding'', ''reranking'', ''rerank'']))"

definition accepts :: "entry \<Rightarrow> string list" where
  "accepts e = (if e_projector_path e \<noteq> None then [''text'', ''image''] else [''text''])"

section \<open>The catalog\<close>

datatype estimate_source = Declared | Derived

record catalog =
  c_version :: u32
  c_entries :: "entry list"
  c_derived :: "string set"
  c_discovered :: "string set"

definition resident_reservation_mib :: "catalog \<Rightarrow> u64" where
  "resident_reservation_mib c =
     sum_u64 (map (\<lambda>e. widen (e_memory_estimate_mib e))
       (filter (\<lambda>e. e_residency e = Resident) (c_entries c)))"

definition catalog_entry :: "catalog \<Rightarrow> string \<Rightarrow> entry option" where
  "catalog_entry c i = find (\<lambda>e. e_id e = i) (c_entries c)"

definition estimate_source_of :: "catalog \<Rightarrow> string \<Rightarrow> estimate_source option" where
  "estimate_source_of c i =
     (case catalog_entry c i of
        None \<Rightarrow> None
      | Some _ \<Rightarrow> Some (if i \<in> c_derived c then Derived else Declared))"

definition is_discovered :: "catalog \<Rightarrow> string \<Rightarrow> bool" where
  "is_discovered c i = (i \<in> c_discovered c)"

abbreviation ids_of :: "catalog \<Rightarrow> string list" where
  "ids_of c \<equiv> map e_id (c_entries c)"

lemma catalog_entry_Some:
  "catalog_entry c i = Some e \<Longrightarrow> e_id e = i \<and> e \<in> set (c_entries c)"
  by (auto simp: catalog_entry_def dest: find_SomeD)

lemma catalog_entry_None: "catalog_entry c i = None \<longleftrightarrow> i \<notin> set (ids_of c)"
  by (auto simp: catalog_entry_def find_None_iff)

lemma catalog_entry_distinct:
  assumes "distinct (ids_of c)" and "e \<in> set (c_entries c)"
  shows "catalog_entry c (e_id e) = Some e"
proof -
  have "e_id e \<in> set (ids_of c)" using assms(2) by simp
  then obtain e' where e': "catalog_entry c (e_id e) = Some e'"
    using catalog_entry_None [of c "e_id e"] by (cases "catalog_entry c (e_id e)") auto
  with catalog_entry_Some [OF e'] assms have "e' = e"
    by (auto simp: distinct_map inj_on_def)
  with e' show ?thesis by simp
qed

text \<open>
  Fewer than \<open>2 ^ 32\<close> entries of 32-bit estimates cannot overflow the 64-bit sum.
\<close>

lemma sum_list_map_less:
  assumes "\<And>x. x \<in> set xs \<Longrightarrow> f x < (b :: nat)" and "0 < b"
  shows "sum_list (map f xs) \<le> length xs * (b - 1)"
  using assms(1)
proof (induction xs)
  case Nil
  then show ?case by simp
next
  case (Cons x xs)
  have "f x \<le> b - 1" using Cons.prems [of x] assms(2) by simp
  with Cons show ?case by simp
qed

lemma reservation_exact:
  assumes "length (c_entries c) \<le> 2 ^ 32"
  shows "unat (resident_reservation_mib c) =
    sum_list (map (\<lambda>e. unat (e_memory_estimate_mib e))
      (filter (\<lambda>e. e_residency e = Resident) (c_entries c)))"
proof -
  let ?es = "filter (\<lambda>e. e_residency e = Resident) (c_entries c)"
  let ?f = "\<lambda>e. unat (e_memory_estimate_mib e)"
  have len: "length ?es \<le> 2 ^ 32"
    using assms length_filter_le [of "\<lambda>e. e_residency e = Resident" "c_entries c"] by linarith
  have "sum_list (map ?f ?es) \<le> length ?es * (2 ^ 32 - 1)"
  proof (rule sum_list_map_less)
    show "unat (e_memory_estimate_mib e) < 2 ^ 32" for e :: entry
      using unsigned_less [of "e_memory_estimate_mib e"] by simp
  qed simp
  also have "\<dots> \<le> 2 ^ 32 * (2 ^ 32 - 1)" using len by (rule mult_le_mono1)
  also have "\<dots> < (2 ^ 64 :: nat)" by simp
  finally have "sum_list (map unat (map (\<lambda>e. widen (e_memory_estimate_mib e)) ?es)) < 2 ^ 64"
    by (simp add: unat_widen o_def)
  then have "unat (resident_reservation_mib c) =
      sum_list (map unat (map (\<lambda>e. widen (e_memory_estimate_mib e)) ?es))"
    unfolding resident_reservation_mib_def by (rule unat_sum_u64)
  then show ?thesis by (simp add: unat_widen o_def)
qed

end
