(* ===== verification/Utf8.thy ===== *)
theory Utf8
  imports Router_Prelude
begin

text \<open>
  Text as bytes: which byte strings are UTF-8, and what \<open>String::from_utf8_lossy\<close> makes of the
  ones that are not.
\<close>

definition continues :: "char \<Rightarrow> bool" where
  "continues c = (128 \<le> (of_char c :: nat) \<and> (of_char c :: nat) \<le> 191)"

definition second_ok :: "nat \<Rightarrow> char \<Rightarrow> bool" where
  "second_ok n c =
     (continues c \<and> (n = 0xE0 \<longrightarrow> 0xA0 \<le> (of_char c :: nat)) \<and> (n = 0xED \<longrightarrow> (of_char c :: nat) \<le> 0x9F) \<and>
      (n = 0xF0 \<longrightarrow> 0x90 \<le> (of_char c :: nat)) \<and> (n = 0xF4 \<longrightarrow> (of_char c :: nat) \<le> 0x8F))"

fun utf8_valid :: "string \<Rightarrow> bool" where
  "utf8_valid [] = True"
| "utf8_valid (a # s) =
     (let n = of_char a :: nat in
      if n < 128 then utf8_valid s
      else if 0xC2 \<le> n \<and> n \<le> 0xDF then
        (case s of b # t \<Rightarrow> continues b \<and> utf8_valid t | _ \<Rightarrow> False)
      else if 0xE0 \<le> n \<and> n \<le> 0xEF then
        (case s of b # c # t \<Rightarrow> second_ok n b \<and> continues c \<and> utf8_valid t | _ \<Rightarrow> False)
      else if 0xF0 \<le> n \<and> n \<le> 0xF4 then
        (case s of b # c # d # t \<Rightarrow> second_ok n b \<and> continues c \<and> continues d \<and> utf8_valid t
         | _ \<Rightarrow> False)
      else False)"

text \<open>
  Lossy reading copies every valid sequence and puts one replacement character for each
  longest stretch that begins a sequence without completing it.
\<close>

definition replacement :: string where
  "replacement = [CHR 0xEF, CHR 0xBF, CHR 0xBD]"

fun utf8_lossy :: "string \<Rightarrow> string" where
  "utf8_lossy [] = []"
| "utf8_lossy (a # s) =
     (let n = of_char a :: nat in
      if n < 128 then a # utf8_lossy s
      else if 0xC2 \<le> n \<and> n \<le> 0xDF then
        (case s of
           b # t \<Rightarrow> if continues b then a # b # utf8_lossy t else replacement @ utf8_lossy s
         | [] \<Rightarrow> replacement)
      else if 0xE0 \<le> n \<and> n \<le> 0xEF then
        (case s of
           b # t \<Rightarrow>
             (if second_ok n b then
                (case t of
                   c # t' \<Rightarrow>
                     if continues c then a # b # c # utf8_lossy t' else replacement @ utf8_lossy t
                 | [] \<Rightarrow> replacement)
              else replacement @ utf8_lossy s)
         | [] \<Rightarrow> replacement)
      else if 0xF0 \<le> n \<and> n \<le> 0xF4 then
        (case s of
           b # t \<Rightarrow>
             (if second_ok n b then
                (case t of
                   c # t' \<Rightarrow>
                     (if continues c then
                        (case t' of
                           d # t'' \<Rightarrow>
                             if continues d then a # b # c # d # utf8_lossy t''
                             else replacement @ utf8_lossy t'
                         | [] \<Rightarrow> replacement)
                      else replacement @ utf8_lossy t)
                 | [] \<Rightarrow> replacement)
              else replacement @ utf8_lossy s)
         | [] \<Rightarrow> replacement)
      else replacement @ utf8_lossy s)"

declare utf8_valid.simps(2) [simp del] utf8_lossy.simps(2) [simp del]

lemma utf8_lossy_valid: "utf8_valid s \<Longrightarrow> utf8_lossy s = s"
proof (induction s rule: utf8_valid.induct)
  case 1
  then show ?case by simp
next
  case (2 a s)
  let ?n = "of_char a :: nat"
  consider "?n < 128" | "0xC2 \<le> ?n" "?n \<le> 0xDF" | "0xE0 \<le> ?n" "?n \<le> 0xEF"
    | "0xF0 \<le> ?n" "?n \<le> 0xF4"
    using 2(5) by (simp add: utf8_valid.simps(2) [of a s] Let_def split: if_splits)
  then show ?case
  proof cases
    case 1
    with 2(5) have "utf8_valid s" by (simp add: utf8_valid.simps(2) [of a s])
    with 2(1) [OF refl 1] show ?thesis using 1 by (simp add: utf8_lossy.simps(2) [of a s])
  next
    case c: 2
    with 2(5) obtain b t where s: "s = b # t" "continues b" "utf8_valid t"
      by (auto simp: utf8_valid.simps(2) [of a s] Let_def split: list.splits)
    with 2(2) [OF refl _ _ s(1)] c show ?thesis by (simp add: utf8_lossy.simps(2) [of a] Let_def)
  next
    case c: 3
    with 2(5) obtain b d t where s: "s = b # d # t" "second_ok ?n b" "continues d" "utf8_valid t"
      by (auto simp: utf8_valid.simps(2) [of a s] Let_def split: list.splits)
    with 2(3) [OF refl _ _ _ s(1) refl] c show ?thesis
      by (simp add: utf8_lossy.simps(2) [of a] Let_def)
  next
    case c: 4
    with 2(5) obtain b d e t where s: "s = b # d # e # t" "second_ok ?n b" "continues d"
        "continues e" "utf8_valid t"
      by (auto simp: utf8_valid.simps(2) [of a s] Let_def split: list.splits)
    with 2(4) [OF refl _ _ _ _ s(1) refl refl] c show ?thesis
      by (simp add: utf8_lossy.simps(2) [of a] Let_def)
  qed
qed

lemma utf8_valid_ascii: "list_all (\<lambda>c. (of_char c :: nat) < 128) s \<Longrightarrow> utf8_valid s"
  by (induction s) (simp_all add: Let_def utf8_valid.simps(2))

end
