(* ===== verification/Memory_Figures.thy ===== *)
theory Memory_Figures
  imports Catalog_Entry Utf8
begin

text \<open>
  What the machine reports: \<open>memory/figures.rs\<close>, the parsers of \<open>memory/parse.rs\<close> over the
  text its tools print, and the ceiling \<open>admission/budget.rs\<close> takes from them. Running the
  tools is the platform's business: a probe is the record of what they answered.
\<close>

section \<open>Figures\<close>

record device_memory =
  total_mib :: u64
  used_mib :: u64

definition free_mib :: "device_memory \<Rightarrow> u64" where
  "free_mib d = sat_sub (total_mib d) (used_mib d)"

record measurement =
  resident_mib :: "u64 option"
  measured_device_mib :: "u64 option"

definition UNKNOWN :: measurement where
  "UNKNOWN = \<lparr>resident_mib = None, measured_device_mib = None\<rparr>"

definition largest_mib :: "measurement \<Rightarrow> u64 option" where
  "largest_mib m =
     (case (resident_mib m, measured_device_mib m) of
        (None, None) \<Rightarrow> None
      | (Some r, None) \<Rightarrow> Some r
      | (None, Some d) \<Rightarrow> Some d
      | (Some r, Some d) \<Rightarrow> Some (max r d))"

lemma largest_mib_ge:
  "resident_mib m = Some r \<Longrightarrow> \<exists>x. largest_mib m = Some x \<and> r \<le> x"
  "measured_device_mib m = Some d \<Longrightarrow> \<exists>x. largest_mib m = Some x \<and> d \<le> x"
  by (auto simp: largest_mib_def split: option.splits)

lemma largest_mib_None: "largest_mib m = None \<longleftrightarrow> m = UNKNOWN"
  by (cases m) (auto simp: largest_mib_def UNKNOWN_def split: option.splits)

section \<open>Reading what the tools print\<close>

text \<open>\<open>str::lines\<close>: split at line feeds, one carriage return before each dropped, no empty last line.\<close>

definition strip_cr :: "string \<Rightarrow> string" where
  "strip_cr l = (if l \<noteq> [] \<and> last l = CHR 0x0D then butlast l else l)"

definition text_lines :: "string \<Rightarrow> string list" where
  "text_lines s =
     (let ls = split_on (CHR 0x0A) s in
      if last ls = [] then map strip_cr (butlast ls)
      else map strip_cr (butlast ls) @ [last ls])"

definition parse_u64 :: "string \<Rightarrow> u64 option" where
  "parse_u64 s = map_option of_nat (parse_unsigned (2 ^ 64) s)"

definition parse_u32 :: "string \<Rightarrow> u32 option" where
  "parse_u32 s = map_option of_nat (parse_unsigned (2 ^ 32) s)"

text \<open>\<open>parse::device\<close>: one line per device, summed; an unreadable line is no figure at all.\<close>

fun device_lines :: "string list \<Rightarrow> u64 \<Rightarrow> u64 \<Rightarrow> nat \<Rightarrow> (u64 \<times> u64 \<times> nat) option" where
  "device_lines [] tot used n = Some (tot, used, n)"
| "device_lines (l # ls) tot used n =
     (case split_once (CHR '','') l of
        None \<Rightarrow> None
      | Some (left, right) \<Rightarrow>
          (case parse_u64 (trim left) of
             None \<Rightarrow> None
           | Some t \<Rightarrow>
               (case parse_u64 (trim right) of
                  None \<Rightarrow> None
                | Some u \<Rightarrow> device_lines ls (tot + t) (used + u) (Suc n))))"

definition parse_device :: "string \<Rightarrow> device_memory option" where
  "parse_device s =
     (case device_lines (filter (\<lambda>l. trim l \<noteq> []) (text_lines s)) 0 0 0 of
        None \<Rightarrow> None
      | Some (t, u, n) \<Rightarrow>
          if n > 0 then Some \<lparr>total_mib = t, used_mib = u\<rparr> else None)"

text \<open>\<open>parse::compute_apps\<close>: a process on no line is unknown rather than zero.\<close>

fun compute_lines :: "string list \<Rightarrow> u32 \<Rightarrow> u64 option \<Rightarrow> u64 option" where
  "compute_lines [] pid used = used"
| "compute_lines (l # ls) pid used =
     (case split_once (CHR '','') l of
        None \<Rightarrow> compute_lines ls pid used
      | Some (left, right) \<Rightarrow>
          if parse_u32 (trim left) \<noteq> Some pid then compute_lines ls pid used
          else (case parse_u64 (trim right) of
                  None \<Rightarrow> None
                | Some mib \<Rightarrow>
                    compute_lines ls pid (Some ((case used of None \<Rightarrow> 0 | Some u \<Rightarrow> u) + mib))))"

definition compute_apps :: "string \<Rightarrow> u32 \<Rightarrow> u64 option" where
  "compute_apps s pid = compute_lines (text_lines s) pid None"

definition scaled :: "string \<Rightarrow> u64 \<Rightarrow> u64 option" where
  "scaled s per_mib = map_option (\<lambda>count. count div per_mib) (parse_u64 (trim s))"

definition meminfo_total :: "string \<Rightarrow> u64 option" where
  "meminfo_total s =
     (case List.map_filter (strip_prefix ''MemTotal:'') (text_lines s) of
        [] \<Rightarrow> None
      | l # _ \<Rightarrow>
          (case split_whitespace l of
             [] \<Rightarrow> None
           | w # _ \<Rightarrow> scaled w 1024))"

section \<open>The machine's probe\<close>

text \<open>
  \<open>Probe\<close> as what it answered: a device, the system's memory, and what a process was
  measured at. \<open>Probe::Fixed\<close> is this record; \<open>Probe::Machine\<close> fills it from what the
  platform's tools print (\<open>Memory_Tools\<close>).
\<close>

record probe =
  p_device :: "device_memory option"
  p_system_total_mib :: "u64 option"
  p_measurement :: measurement

definition probe_none :: probe where
  "probe_none = \<lparr>p_device = None, p_system_total_mib = None, p_measurement = UNKNOWN\<rparr>"

section \<open>The budget\<close>

record budget =
  limit_mib :: "u32 option"
  budget_probe :: probe
  budget_source :: string

definition MIN_DEVICE_MARGIN_MIB :: u64 where
  "MIN_DEVICE_MARGIN_MIB = 1024"

definition SYSTEM_SHARE_PERCENT :: u64 where
  "SYSTEM_SHARE_PERCENT = 80"

definition budget_with_probe :: "u32 option \<Rightarrow> probe \<Rightarrow> budget" where
  "budget_with_probe limit p =
     \<lparr>limit_mib = limit, budget_probe = p, budget_source = ''stated directly''\<rparr>"

definition budget_new :: "u32 option \<Rightarrow> budget" where
  "budget_new limit = budget_with_probe limit probe_none"

definition device_margin :: "u64 \<Rightarrow> u64" where
  "device_margin tot = max (tot div 10) MIN_DEVICE_MARGIN_MIB"

text \<open>\<open>Budget::derived\<close>: the limit in \<open>u64\<close> and where it came from, then clamped to \<open>u32\<close>.\<close>

definition derived_limit :: "probe \<Rightarrow> u64 option \<times> string" where
  "derived_limit p =
     (case p_device p of
        Some d \<Rightarrow>
          let margin = device_margin (total_mib d); limit = sat_sub (total_mib d) margin in
          (if limit > 0 then Some limit else None,
           ''derived from the device ('' @ dec64 (total_mib d) @ '' MiB total less a ''
             @ dec64 margin @ '' MiB margin)'')
      | None \<Rightarrow>
          (case p_system_total_mib p of
             Some tot \<Rightarrow>
               let limit = (tot * SYSTEM_SHARE_PERCENT) div 100 in
               (if limit > 0 then Some limit else None,
                ''derived from system memory ('' @ dec64 SYSTEM_SHARE_PERCENT
                  @ '' percent of '' @ dec64 tot @ '' MiB)'')
           | None \<Rightarrow> (None, ''nothing on this machine says what it holds'')))"

definition budget_derived :: "probe \<Rightarrow> budget" where
  "budget_derived p =
     \<lparr>limit_mib = map_option clamp_u32 (fst (derived_limit p)),
      budget_probe = p,
      budget_source = snd (derived_limit p)\<rparr>"

definition BUDGET_VARIABLE :: string where
  "BUDGET_VARIABLE = ''MAESTRO_MEMORY_BUDGET_MIB''"

text \<open>
  \<open>Budget::from_variable\<close>. The value is the bytes of the variable, \<open>None\<close> when unset; an
  error carries the message of \<open>Failure::Unavailable\<close>.
\<close>

definition budget_from_variable :: "string option \<Rightarrow> probe \<Rightarrow> string + budget" where
  "budget_from_variable value p =
     (case value of
        None \<Rightarrow> Inr (budget_derived p)
      | Some bytes \<Rightarrow>
          if bytes = [] then Inr (budget_derived p)
          else let text = utf8_lossy bytes in case parse_u32 (trim text) of
              None \<Rightarrow> Inl (BUDGET_VARIABLE @ '' carries '' @ quoted text
                @ '', which is not a number of mebibytes; unset it for a budget the machine sets, or give it a whole number'')
            | Some limit \<Rightarrow>
                Inr \<lparr>limit_mib = Some limit, budget_probe = p,
                     budget_source = ''from '' @ BUDGET_VARIABLE\<rparr>)"

lemma budget_derived_device:
  assumes "p_device p = Some d" and "limit_mib (budget_derived p) = Some l"
  shows "0 < unat l"
    and "unat l + max (unat (total_mib d) div 10) 1024 \<le> unat (total_mib d)"
proof -
  let ?limit = "sat_sub (total_mib d) (device_margin (total_mib d))"
  have pos: "0 < ?limit" and l: "l = clamp_u32 ?limit"
    using assms by (auto simp: budget_derived_def derived_limit_def Let_def split: if_splits)
  have m: "unat (device_margin (total_mib d)) = max (unat (total_mib d) div 10) 1024"
    by (simp add: device_margin_def MIN_DEVICE_MARGIN_MIB_def unat_max_word unat_div_distrib)
  have val: "unat ?limit = unat (total_mib d) - max (unat (total_mib d) div 10) 1024"
    by (simp add: unat_sat_sub m)
  have "0 < unat ?limit" using pos by (simp add: word_less_nat_alt)
  with l val show "0 < unat l" by (simp add: unat_clamp_u32)
  have "unat l \<le> unat ?limit" using l by (simp add: unat_clamp_u32)
  with val \<open>0 < unat ?limit\<close>
  show "unat l + max (unat (total_mib d) div 10) 1024 \<le> unat (total_mib d)" by linarith
qed

lemma budget_derived_system:
  assumes "p_device p = None" and "p_system_total_mib p = Some t"
    and "limit_mib (budget_derived p) = Some l" and "unat t * 80 < 2 ^ 64"
  shows "0 < unat l" and "unat l * 5 \<le> unat t * 4"
proof -
  let ?limit = "(t * SYSTEM_SHARE_PERCENT) div 100"
  have pos: "0 < ?limit" and l: "l = clamp_u32 ?limit"
    using assms by (auto simp: budget_derived_def derived_limit_def Let_def split: if_splits)
  have val: "unat ?limit = unat t * 80 div 100"
    using assms(4) by (simp add: SYSTEM_SHARE_PERCENT_def unat_div_distrib unat_word_ariths)
  have "0 < unat ?limit" using pos by (simp add: word_less_nat_alt)
  with l show "0 < unat l" by (simp add: unat_clamp_u32)
  have "unat l \<le> unat ?limit" using l by (simp add: unat_clamp_u32)
  with val have "unat l * 100 \<le> unat t * 80" by linarith
  then show "unat l * 5 \<le> unat t * 4" by linarith
qed

end
