(* ===== verification/Admission.thy ===== *)
theory Admission
  imports Memory_Figures
begin

text \<open>
  Deciding what may be loaded and what must be unloaded first: \<open>admission/subject.rs\<close> (the
  models held and the one wanted), \<open>admission/room.rs\<close> (what there is to fit into and the
  words for when there is not) and \<open>admission/decision.rs\<close> (the decision). The figures are
  \<open>u64\<close> words as in the code; \<open>fits_without\<close> and \<open>admit_kind\<close> are the abstract
  specification over natural numbers, and the lemmas show the code decides by it whenever
  its sums do not overflow.
\<close>

section \<open>Subjects\<close>

definition LAYERS_ON_DEVICE :: "string list" where
  "LAYERS_ON_DEVICE = [''n-gpu-layers'', ''ngl'', ''gpu-layers'']"

record loaded =
  l_id :: string
  cost_mib :: u64
  device_mib :: u64
  l_residency :: residency
  l_busy :: bool
  last_used :: instant

record wanted =
  w_id :: string
  w_cost_mib :: u64
  w_device_mib :: u64

definition device_need_mib :: "entry \<Rightarrow> u64" where
  "device_need_mib e =
     (if list_ex (\<lambda>key. case map_of (e_flags e) key of
            None \<Rightarrow> False | Some v \<Rightarrow> trim v = ''0'') LAYERS_ON_DEVICE
      then 0 else widen (e_memory_estimate_mib e))"

definition loaded_of :: "entry \<Rightarrow> bool \<Rightarrow> instant \<Rightarrow> measurement \<Rightarrow> loaded" where
  "loaded_of e busy used m =
     (let estimate = widen (e_memory_estimate_mib e);
          off_device = (device_need_mib e = 0);
          measured_cost = (if off_device then measured_device_mib m else largest_mib m) in
      \<lparr>l_id = e_id e,
       cost_mib = (case measured_cost of None \<Rightarrow> estimate | Some mib \<Rightarrow> max mib estimate),
       device_mib = (case measured_device_mib m of None \<Rightarrow> device_need_mib e | Some d \<Rightarrow> d),
       l_residency = e_residency e,
       l_busy = busy,
       last_used = used\<rparr>)"

definition wanted_of :: "entry \<Rightarrow> wanted" where
  "wanted_of e =
     \<lparr>w_id = e_id e, w_cost_mib = widen (e_memory_estimate_mib e),
      w_device_mib = device_need_mib e\<rparr>"

lemma loaded_of_simps [simp]:
  "l_id (loaded_of e b u m) = e_id e"
  "l_residency (loaded_of e b u m) = e_residency e"
  "l_busy (loaded_of e b u m) = b"
  "last_used (loaded_of e b u m) = u"
  by (simp_all add: loaded_of_def Let_def)

lemma loaded_of_cost_ge: "widen (e_memory_estimate_mib e) \<le> cost_mib (loaded_of e b u m)"
  by (auto simp: loaded_of_def Let_def split: option.splits)

lemma loaded_of_cost_unmeasured:
  "cost_mib (loaded_of e b u UNKNOWN) = widen (e_memory_estimate_mib e)"
  by (simp add: loaded_of_def Let_def UNKNOWN_def largest_mib_def)

section \<open>Room\<close>

record room =
  r_limit :: "u64 option"
  r_held :: u64
  r_device_free :: "u64 option"

record freed =
  f_cost :: u64
  f_device :: u64

definition freed_default :: freed where
  "freed_default = \<lparr>f_cost = 0, f_device = 0\<rparr>"

datatype short = Ledger | Device

definition room_short :: "room \<Rightarrow> wanted \<Rightarrow> freed \<Rightarrow> short option" where
  "room_short r w f =
     (let ledger_fits = (case r_limit r of None \<Rightarrow> True
            | Some limit \<Rightarrow> sat_sub (r_held r) (f_cost f) + w_cost_mib w \<le> limit);
          device_fits = (case r_device_free r of None \<Rightarrow> True
            | Some free \<Rightarrow> w_device_mib w \<le> free + f_device f) in
      if \<not> ledger_fits then Some Ledger
      else if \<not> device_fits then Some Device
      else None)"

text \<open>\<open>holders\<close>: what is holding the memory, and why each one is staying.\<close>

definition holder_text :: "loaded \<Rightarrow> string" where
  "holder_text e =
     l_id e @ '' ('' @ dec64 (cost_mib e) @ '' MiB''
       @ (if l_busy e then '', busy''
          else if l_residency e = Resident then '', resident'' else [])
       @ '')''"

definition holders :: "loaded list \<Rightarrow> string" where
  "holders ls = join '', '' (map holder_text ls)"

definition residents_of :: "loaded list \<Rightarrow> loaded list" where
  "residents_of ls = filter (\<lambda>e. l_residency e = Resident) ls"

definition reserved_mib :: "loaded list \<Rightarrow> u64" where
  "reserved_mib ls = sum_u64 (map cost_mib (residents_of ls))"

text \<open>
  \<open>Room::refusal\<close>. The figure after \<open>leaving\<close> is \<open>limit - reserved\<close> on \<open>u64\<close>,
  unchecked, as the code writes it.
\<close>

definition never_text :: "wanted \<Rightarrow> u64 \<Rightarrow> loaded list \<Rightarrow> string" where
  "never_text w limit ls =
     quoted (w_id w) @ '' needs '' @ dec64 (w_cost_mib w)
       @ '' MiB and can never load: of the budget'' @ quote1 @ ''s '' @ dec64 limit @ '' MiB, ''
       @ dec64 (reserved_mib ls) @ '' MiB is permanently reserved by resident entries (''
       @ join '', '' (map l_id (residents_of ls)) @ ''), leaving ''
       @ dec64 (limit - reserved_mib ls)
       @ ''. Unloading the rest would not be enough and waiting cannot help -- make one of those entries on-demand, or lower this one'' @ quote1 @ ''s estimate or context''"

definition refusal :: "room \<Rightarrow> short \<Rightarrow> wanted \<Rightarrow> freed \<Rightarrow> loaded list \<Rightarrow> string" where
  "refusal r sh w f ls =
     (case sh of
        Ledger \<Rightarrow>
          let limit = (case r_limit r of None \<Rightarrow> 0 | Some l \<Rightarrow> l) in
          if limit < w_cost_mib w + reserved_mib ls then never_text w limit ls
          else quoted (w_id w) @ '' needs '' @ dec64 (w_cost_mib w)
            @ '' MiB and the budget of '' @ dec64 limit @ '' MiB is held by: '' @ holders ls
      | Device \<Rightarrow>
          let free = (case r_device_free r of None \<Rightarrow> 0 | Some x \<Rightarrow> x);
              beside = (if ls = [] then [] else '', beside: '' @ holders ls) in
          quoted (w_id w) @ '' needs '' @ dec64 (w_device_mib w)
            @ '' MiB on the device, which has '' @ dec64 free
            @ '' MiB free and would have '' @ dec64 (free + f_device f)
            @ '' MiB once every idle model was unloaded; the rest is held by something outside this router''
            @ beside)"

section \<open>The decision\<close>

datatype decision =
  Fits
| Unload "string list"
| Blocked string
| Refuse string

text \<open>Who may be unloaded, and who would be were nothing reading from it.\<close>

definition candidate :: "wanted \<Rightarrow> loaded \<Rightarrow> bool" where
  "candidate w e = (l_residency e = OnDemand \<and> \<not> l_busy e \<and> l_id e \<noteq> w_id w)"

definition frees_itself :: "wanted \<Rightarrow> loaded \<Rightarrow> bool" where
  "frees_itself w e = (l_residency e = OnDemand \<and> l_busy e \<and> l_id e \<noteq> w_id w)"

text \<open>\<open>false\<close> sorts first, so a guest comes before anything that is not; then the coldest.\<close>

definition rank :: "string list \<Rightarrow> loaded \<Rightarrow> bool \<times> instant" where
  "rank guests e = (l_id e \<notin> set guests, last_used e)"

definition free_one :: "freed \<Rightarrow> loaded \<Rightarrow> freed" where
  "free_one f e = \<lparr>f_cost = f_cost f + cost_mib e, f_device = f_device f + device_mib e\<rparr>"

text \<open>The loop over the candidates: stop as soon as nothing is short.\<close>

fun pick :: "room \<Rightarrow> wanted \<Rightarrow> freed \<Rightarrow> loaded list \<Rightarrow> string list \<Rightarrow> freed \<times> string list" where
  "pick r w f [] unload = (f, unload)"
| "pick r w f (e # es) unload =
     (if room_short r w f = None then (f, unload)
      else pick r w (free_one f e) es (unload @ [l_id e]))"

definition candidates :: "loaded list \<Rightarrow> string list \<Rightarrow> wanted \<Rightarrow> loaded list" where
  "candidates ls guests w = sort_key (rank guests) (filter (candidate w) ls)"

definition room_of :: "u64 option \<Rightarrow> loaded list \<Rightarrow> u64 option \<Rightarrow> room" where
  "room_of limit ls free =
     \<lparr>r_limit = limit, r_held = sum_u64 (map cost_mib ls), r_device_free = free\<rparr>"

definition too_large_text :: "wanted \<Rightarrow> u64 \<Rightarrow> string" where
  "too_large_text w limit =
     quoted (w_id w) @ '' is estimated at '' @ dec64 (w_cost_mib w)
       @ '' MiB, which is more than the whole budget of '' @ dec64 limit
       @ '' MiB; nothing can be unloaded to make it fit''"

definition admit_with_guests ::
  "budget \<Rightarrow> loaded list \<Rightarrow> string list \<Rightarrow> wanted \<Rightarrow> u64 option \<Rightarrow> decision" where
  "admit_with_guests b ls guests w free =
     (if list_ex (\<lambda>e. l_id e = w_id w) ls then Fits
      else
        let limit = map_option widen (limit_mib b) in
        if (case limit of None \<Rightarrow> False | Some l \<Rightarrow> l < w_cost_mib w)
        then Refuse (too_large_text w (the limit))
        else
          let room = room_of limit ls free in
          if room_short room w freed_default = None then Fits
          else
            let (f, unload) = pick room w freed_default (candidates ls guests w) [] in
            case room_short room w f of
              None \<Rightarrow> Unload unload
            | Some sh \<Rightarrow>
                let message = refusal room sh w f ls in
                if list_ex (frees_itself w) ls then Blocked message else Refuse message)"

definition admit :: "budget \<Rightarrow> loaded list \<Rightarrow> wanted \<Rightarrow> u64 option \<Rightarrow> decision" where
  "admit b ls w free = admit_with_guests b ls [] w free"

section \<open>The loop\<close>

definition freed_by :: "loaded list \<Rightarrow> freed" where
  "freed_by es = foldl free_one freed_default es"

lemma freed_by_snoc: "freed_by (es @ [e]) = free_one (freed_by es) e"
  by (simp add: freed_by_def)

lemma freed_by_sums:
  "f_cost (freed_by es) = sum_u64 (map cost_mib es) \<and>
   f_device (freed_by es) = sum_u64 (map device_mib es)"
proof -
  have "f_cost (foldl free_one f es) = f_cost f + sum_u64 (map cost_mib es) \<and>
        f_device (foldl free_one f es) = f_device f + sum_u64 (map device_mib es)" for f
    by (induction es arbitrary: f) (simp_all add: free_one_def)
  from this [of freed_default] show ?thesis by (simp add: freed_by_def freed_default_def)
qed

text \<open>What the loop returns: the shortest prefix after which nothing is short, or everything.\<close>

lemma pick_prefix:
  "\<exists>n \<le> length es.
     pick r w (foldl free_one f0 pre) es (map l_id pre) =
       (foldl free_one f0 (pre @ take n es), map l_id (pre @ take n es)) \<and>
     (\<forall>m < n. room_short r w (foldl free_one f0 (pre @ take m es)) \<noteq> None) \<and>
     (n < length es \<longrightarrow> room_short r w (foldl free_one f0 (pre @ take n es)) = None)"
proof (induction es arbitrary: pre)
  case Nil
  then show ?case by simp
next
  case (Cons e es)
  show ?case
  proof (cases "room_short r w (foldl free_one f0 pre) = None")
    case True
    then show ?thesis by (intro exI [of _ 0]) simp
  next
    case False
    from Cons.IH [of "pre @ [e]"] obtain n where n: "n \<le> length es"
      and eq: "pick r w (foldl free_one f0 (pre @ [e])) es (map l_id (pre @ [e])) =
        (foldl free_one f0 ((pre @ [e]) @ take n es), map l_id ((pre @ [e]) @ take n es))"
      and before: "\<forall>m < n. room_short r w (foldl free_one f0 ((pre @ [e]) @ take m es)) \<noteq> None"
      and after: "n < length es \<longrightarrow>
        room_short r w (foldl free_one f0 ((pre @ [e]) @ take n es)) = None"
      by blast
    have "\<forall>m < Suc n. room_short r w (foldl free_one f0 (pre @ take m (e # es))) \<noteq> None"
    proof (intro allI impI)
      fix m assume "m < Suc n"
      then show "room_short r w (foldl free_one f0 (pre @ take m (e # es))) \<noteq> None"
        using False before by (cases m) auto
    qed
    with n eq after False show ?thesis by (intro exI [of _ "Suc n"]) simp
  qed
qed

lemma pick_from_start:
  obtains n where "n \<le> length es"
    and "pick r w freed_default es [] = (freed_by (take n es), map l_id (take n es))"
    and "\<And>m. m < n \<Longrightarrow> room_short r w (freed_by (take m es)) \<noteq> None"
    and "n < length es \<Longrightarrow> room_short r w (freed_by (take n es)) = None"
  using pick_prefix [of es r w freed_default "[]"] by (auto simp: freed_by_def)

lemma candidates_set: "set (candidates ls guests w) = {e \<in> set ls. candidate w e}"
  by (auto simp: candidates_def)

text \<open>
  The decision as its five outcomes, with the prefix of candidates that is unloaded: the
  form every property below is read from.
\<close>

lemma admit_cases:
  assumes "\<not> list_ex (\<lambda>e. l_id e = w_id w) ls"
    and "\<not> (\<exists>l. limit_mib b = Some l \<and> widen l < w_cost_mib w)"
  obtains n where "n \<le> length (candidates ls guests w)"
    and "\<And>m. m < n \<Longrightarrow> room_short (room_of (map_option widen (limit_mib b)) ls free) w
          (freed_by (take m (candidates ls guests w))) \<noteq> None"
    and "n < length (candidates ls guests w) \<Longrightarrow>
          room_short (room_of (map_option widen (limit_mib b)) ls free) w
            (freed_by (take n (candidates ls guests w))) = None"
    and "admit_with_guests b ls guests w free =
          (case room_short (room_of (map_option widen (limit_mib b)) ls free) w
             (freed_by (take n (candidates ls guests w))) of
             None \<Rightarrow> if n = 0 then Fits else Unload (map l_id (take n (candidates ls guests w)))
           | Some sh \<Rightarrow>
               if list_ex (frees_itself w) ls
               then Blocked (refusal (room_of (map_option widen (limit_mib b)) ls free) sh w
                 (freed_by (take n (candidates ls guests w))) ls)
               else Refuse (refusal (room_of (map_option widen (limit_mib b)) ls free) sh w
                 (freed_by (take n (candidates ls guests w))) ls))"
proof -
  let ?r = "room_of (map_option widen (limit_mib b)) ls free"
  let ?cs = "candidates ls guests w"
  have small: "\<not> (case map_option widen (limit_mib b) of None \<Rightarrow> False | Some l \<Rightarrow> l < w_cost_mib w)"
    using assms(2) by (auto split: option.splits)
  obtain n where n: "n \<le> length ?cs"
      "pick ?r w freed_default ?cs [] = (freed_by (take n ?cs), map l_id (take n ?cs))"
      "\<And>m. m < n \<Longrightarrow> room_short ?r w (freed_by (take m ?cs)) \<noteq> None"
      "n < length ?cs \<Longrightarrow> room_short ?r w (freed_by (take n ?cs)) = None"
    using pick_from_start [of ?cs ?r w] by blast
  have nil: "freed_by [] = freed_default" by (simp add: freed_by_def)
  have "admit_with_guests b ls guests w free =
          (case room_short ?r w (freed_by (take n ?cs)) of
             None \<Rightarrow> if n = 0 then Fits else Unload (map l_id (take n ?cs))
           | Some sh \<Rightarrow>
               if list_ex (frees_itself w) ls
               then Blocked (refusal ?r sh w (freed_by (take n ?cs)) ls)
               else Refuse (refusal ?r sh w (freed_by (take n ?cs)) ls))"
  proof (cases "room_short ?r w freed_default = None")
    case True
    then have "n = 0" using n(3) [of 0] nil by auto
    with True small assms(1) nil show ?thesis
      by (simp add: admit_with_guests_def Let_def)
  next
    case False
    show ?thesis
    proof (cases "room_short ?r w (freed_by (take n ?cs))")
      case None
      then have "n \<noteq> 0" using False nil by (cases n) auto
      with None False small assms(1) n(2) show ?thesis
        by (simp add: admit_with_guests_def Let_def)
    next
      case (Some sh)
      with False small assms(1) n(2) show ?thesis
        by (simp add: admit_with_guests_def Let_def)
    qed
  qed
  with n show ?thesis by (intro that)
qed

end
