(* ===== verification/Admission_Policy.thy ===== *)
theory Admission_Policy
  imports Admission
begin

text \<open>
  What the admission decision promises: an abstract specification over natural numbers and
  the theorems that \<open>admit_with_guests\<close> keeps it, and the interface \<open>admission_policy\<close> the
  slots rely on when they act on a decision.
\<close>

section \<open>The specification\<close>

text \<open>
  What fits once the models named in \<open>gone\<close> are unloaded: the rest and the wanted model
  under the ceiling, and the wanted model's share in what the device has free and gets back.
\<close>

definition staying :: "loaded list \<Rightarrow> string list \<Rightarrow> loaded list" where
  "staying ls gone = filter (\<lambda>e. l_id e \<notin> set gone) ls"

definition given_back :: "loaded list \<Rightarrow> string list \<Rightarrow> loaded list" where
  "given_back ls gone = filter (\<lambda>e. l_id e \<in> set gone) ls"

definition total_cost :: "loaded list \<Rightarrow> nat" where
  "total_cost ls = sum_list (map (\<lambda>e. unat (cost_mib e)) ls)"

definition total_device :: "loaded list \<Rightarrow> nat" where
  "total_device ls = sum_list (map (\<lambda>e. unat (device_mib e)) ls)"

definition fits_without ::
  "u32 option \<Rightarrow> u64 option \<Rightarrow> loaded list \<Rightarrow> wanted \<Rightarrow> string list \<Rightarrow> bool" where
  "fits_without limit free ls w gone =
     ((case limit of None \<Rightarrow> True
       | Some l \<Rightarrow> total_cost (staying ls gone) + unat (w_cost_mib w) \<le> unat l) \<and>
      (case free of None \<Rightarrow> True
       | Some f \<Rightarrow> unat (w_device_mib w) \<le> unat f + total_device (given_back ls gone)))"

text \<open>No sum the decision forms leaves \<open>u64\<close>.\<close>

definition no_overflow :: "loaded list \<Rightarrow> wanted \<Rightarrow> u64 option \<Rightarrow> bool" where
  "no_overflow ls w free =
     (total_cost ls + unat (w_cost_mib w) < 2 ^ 64 \<and>
      (case free of None \<Rightarrow> total_device ls < 2 ^ 64
       | Some f \<Rightarrow> unat f + total_device ls < 2 ^ 64))"

datatype kind = KFits | KUnload | KBlocked | KRefuse

fun kind_of :: "decision \<Rightarrow> kind" where
  "kind_of Fits = KFits"
| "kind_of (Unload ids) = KUnload"
| "kind_of (Blocked m) = KBlocked"
| "kind_of (Refuse m) = KRefuse"

definition admit_kind ::
  "u32 option \<Rightarrow> u64 option \<Rightarrow> loaded list \<Rightarrow> wanted \<Rightarrow> kind" where
  "admit_kind limit free ls w =
     (if \<exists>e \<in> set ls. l_id e = w_id w then KFits
      else if (case limit of None \<Rightarrow> False | Some l \<Rightarrow> unat l < unat (w_cost_mib w)) then KRefuse
      else if fits_without limit free ls w [] then KFits
      else if fits_without limit free ls w (map l_id (filter (candidate w) ls)) then KUnload
      else if \<exists>e \<in> set ls. frees_itself w e then KBlocked
      else KRefuse)"

section \<open>Totals\<close>

lemma total_split:
  "total_cost ls = total_cost (staying ls gone) + total_cost (given_back ls gone)"
  "total_device ls = total_device (staying ls gone) + total_device (given_back ls gone)"
  using sum_list_filter_split [where P = "\<lambda>e. l_id e \<notin> set gone" and xs = ls]
  by (simp_all add: total_cost_def total_device_def staying_def given_back_def)

lemma total_mset_le:
  assumes "mset xs \<subseteq># mset ys"
  shows "total_cost xs \<le> total_cost ys" and "total_device xs \<le> total_device ys"
proof -
  have "sum_list (map f xs) \<le> sum_list (map f ys)" for f :: "loaded \<Rightarrow> nat"
  proof -
    obtain M where "mset ys = mset xs + M" using assms by (metis subset_mset.add_diff_inverse)
    then have "sum_mset (image_mset f (mset ys)) = sum_mset (image_mset f (mset xs)) + sum_mset (image_mset f M)"
      by simp
    then show ?thesis by (simp flip: sum_mset_sum_list)
  qed
  then show "total_cost xs \<le> total_cost ys" "total_device xs \<le> total_device ys"
    by (simp_all add: total_cost_def total_device_def)
qed

lemma mset_take_candidates: "mset (take n (candidates ls guests w)) \<subseteq># mset ls"
proof -
  have "mset (take n (candidates ls guests w)) \<subseteq># mset (candidates ls guests w)"
    by (metis append_take_drop_id mset_append mset_subset_eq_add_left)
  also have "mset (candidates ls guests w) = filter_mset (candidate w) (mset ls)"
    by (simp add: candidates_def)
  also have "\<dots> \<subseteq># mset ls" by simp
  finally show ?thesis .
qed

text \<open>With distinct identifiers, naming a prefix of the candidates names exactly its models.\<close>

lemma given_back_prefix:
  assumes "distinct (map l_id ls)"
  shows "mset (given_back ls (map l_id (take n (candidates ls guests w)))) =
    mset (take n (candidates ls guests w))"
proof -
  let ?T = "take n (candidates ls guests w)"
  have dls: "distinct ls" using assms by (simp add: distinct_map)
  have sub: "set ?T \<subseteq> set ls"
    using set_take_subset [of n "candidates ls guests w"] candidates_set [of ls guests w] by blast
  have "distinct (candidates ls guests w)" using dls by (simp add: candidates_def)
  then have dT: "distinct ?T" by (rule distinct_take)
  have inj: "inj_on l_id (set ls)" using assms by (simp add: distinct_map)
  have "set (given_back ls (map l_id ?T)) = set ?T"
  proof
    show "set (given_back ls (map l_id ?T)) \<subseteq> set ?T"
    proof
      fix e assume "e \<in> set (given_back ls (map l_id ?T))"
      then obtain t where e: "e \<in> set ls" and t: "t \<in> set ?T" "l_id e = l_id t"
        by (auto simp: given_back_def simp del: set_take_subset)
      from t sub have "t \<in> set ls" by blast
      with inj e t have "e = t" by (simp add: inj_onD)
      with t show "e \<in> set ?T" by simp
    qed
    show "set ?T \<subseteq> set (given_back ls (map l_id ?T))"
      using sub by (auto simp: given_back_def)
  qed
  moreover have "distinct (given_back ls (map l_id ?T))"
    using dls by (simp add: given_back_def)
  ultimately show ?thesis using dT by (simp add: set_eq_iff_mset_eq_distinct)
qed

lemma total_of_mset:
  "mset xs = mset ys \<Longrightarrow> total_cost xs = total_cost ys \<and> total_device xs = total_device ys"
  using total_mset_le [of xs ys] total_mset_le [of ys xs] by simp

section \<open>The room on words is the room on numbers\<close>

lemma unat_sum_costs:
  assumes "total_cost ls < 2 ^ 64"
  shows "unat (sum_u64 (map cost_mib ls)) = total_cost ls"
  using unat_sum_u64 [of "map cost_mib ls"] assms by (simp add: total_cost_def o_def)

lemma unat_sum_devices:
  assumes "total_device ls < 2 ^ 64"
  shows "unat (sum_u64 (map device_mib ls)) = total_device ls"
  using unat_sum_u64 [of "map device_mib ls"] assms by (simp add: total_device_def o_def)

lemma room_short_exact:
  assumes "distinct (map l_id ls)" and "no_overflow ls w free"
  shows "room_short (room_of (map_option widen limit) ls free) w
           (freed_by (take n (candidates ls guests w))) = None \<longleftrightarrow>
         fits_without limit free ls w (map l_id (take n (candidates ls guests w)))"
proof -
  let ?T = "take n (candidates ls guests w)" and ?gone = "map l_id (take n (candidates ls guests w))"
  note le = total_mset_le [OF mset_take_candidates [of n ls guests w]]
  have gave: "total_cost (given_back ls ?gone) = total_cost ?T"
      "total_device (given_back ls ?gone) = total_device ?T"
    using total_of_mset [OF given_back_prefix [OF assms(1)]] by simp_all
  have bound: "total_cost ls + unat (w_cost_mib w) < 2 ^ 64" "total_device ls < 2 ^ 64"
    using assms(2) by (auto simp: no_overflow_def split: option.splits)
  have held: "unat (sum_u64 (map cost_mib ls)) = total_cost ls"
    using bound by (intro unat_sum_costs) linarith
  have cost: "unat (sum_u64 (map cost_mib ?T)) = total_cost ?T"
    using bound le by (intro unat_sum_costs) linarith
  have dev: "unat (sum_u64 (map device_mib ?T)) = total_device ?T"
    using bound le by (intro unat_sum_devices) linarith
  have rest: "total_cost ls - total_cost ?T = total_cost (staying ls ?gone)"
    using total_split(1) [of ls ?gone] gave by simp
  let ?left = "sat_sub (sum_u64 (map cost_mib ls)) (sum_u64 (map cost_mib ?T))"
  have left: "unat ?left = total_cost (staying ls ?gone)"
    using rest by (simp add: unat_sat_sub held cost)
  have sum: "unat (?left + w_cost_mib w) = total_cost (staying ls ?gone) + unat (w_cost_mib w)"
    using unat_add_exact [of ?left "w_cost_mib w"] left bound total_split(1) [of ls ?gone] by simp
  have ledger: "?left + w_cost_mib w \<le> widen l \<longleftrightarrow>
      total_cost (staying ls ?gone) + unat (w_cost_mib w) \<le> unat l" for l
    by (simp add: word_le_nat_alt sum unat_widen)
  have device: "w_device_mib w \<le> f + sum_u64 (map device_mib ?T) \<longleftrightarrow>
      unat (w_device_mib w) \<le> unat f + total_device (given_back ls ?gone)" if "free = Some f" for f
  proof -
    have "unat f + total_device ls < 2 ^ 64" using assms(2) that by (simp add: no_overflow_def)
    then have "unat (f + sum_u64 (map device_mib ?T)) = unat f + total_device ?T"
      using unat_add_exact [of f "sum_u64 (map device_mib ?T)"] dev le by simp
    then show ?thesis by (simp add: word_le_nat_alt gave)
  qed
  show ?thesis
    using ledger device
    by (auto simp: room_short_def room_of_def Let_def fits_without_def freed_by_sums
        split: option.splits)
qed

lemma fits_without_mono:
  assumes "fits_without limit free ls w gone" and "set gone \<subseteq> set gone'"
  shows "fits_without limit free ls w gone'"
proof -
  have "staying ls gone' = filter (\<lambda>e. l_id e \<notin> set gone') (staying ls gone)"
    using assms(2) by (auto simp: staying_def intro: filter_cong)
  then have "total_cost (staying ls gone') \<le> total_cost (staying ls gone)"
    using total_mset_le(1) [of "staying ls gone'" "staying ls gone"] by simp
  moreover have "given_back ls gone = filter (\<lambda>e. l_id e \<in> set gone) (given_back ls gone')"
    using assms(2) by (auto simp: given_back_def intro: filter_cong)
  then have "total_device (given_back ls gone) \<le> total_device (given_back ls gone')"
    using total_mset_le(2) [of "given_back ls gone" "given_back ls gone'"] by simp
  ultimately show ?thesis
    using assms(1) by (auto simp: fits_without_def split: option.splits)
qed

section \<open>The interface the slots rely on\<close>

text \<open>
  What acting on a decision needs to know of the policy that made it: an unload names only
  idle on-demand models other than the wanted one, it names at least one, and a model that
  is loaded is never weighed at all.
\<close>

locale admission_policy =
  fixes decide :: "loaded list \<Rightarrow> string list \<Rightarrow> wanted \<Rightarrow> u64 option \<Rightarrow> decision"
  assumes unload_candidates: "decide ls guests w free = Unload ids \<Longrightarrow> i \<in> set ids \<Longrightarrow>
      \<exists>e \<in> set ls. l_id e = i \<and> candidate w e"
    and unload_some: "decide ls guests w free = Unload ids \<Longrightarrow> ids \<noteq> []"
    and loaded_fits: "e \<in> set ls \<Longrightarrow> l_id e = w_id w \<Longrightarrow> decide ls guests w free = Fits"
    and blocked_busy: "decide ls guests w free = Blocked m \<Longrightarrow> \<exists>e \<in> set ls. frees_itself w e"
begin

lemma unload_subset:
  assumes "decide ls guests w free = Unload ids"
  shows "set ids \<subseteq> l_id ` {e \<in> set ls. candidate w e}"
  using unload_candidates [OF assms] by (auto simp: image_iff)

lemma unload_spares_wanted:
  assumes "decide ls guests w free = Unload ids"
  shows "w_id w \<notin> set ids"
  using unload_candidates [OF assms] by (auto simp: candidate_def)

lemma unload_spares:
  assumes "decide ls guests w free = Unload ids" and "distinct (map l_id ls)"
    and "e \<in> set ls" and "l_busy e \<or> l_residency e = Resident"
  shows "l_id e \<notin> set ids"
proof
  assume "l_id e \<in> set ids"
  from unload_candidates [OF assms(1) this]
  obtain e' where e': "e' \<in> set ls" "l_id e' = l_id e" "candidate w e'" by blast
  with assms(2,3) have "e' = e" by (auto simp: distinct_map inj_on_def)
  with e'(3) assms(4) show False by (auto simp: candidate_def)
qed

lemma nothing_loaded_no_unload: "decide [] guests w free \<noteq> Unload ids"
proof
  assume u: "decide [] guests w free = Unload ids"
  then obtain i where "i \<in> set ids" using unload_some [OF u] by (cases ids) auto
  with unload_candidates [OF u] show False by auto
qed

end

lemma admit_loaded: "list_ex (\<lambda>e. l_id e = w_id w) ls \<Longrightarrow> admit_with_guests b ls guests w free = Fits"
  by (simp add: admit_with_guests_def)

lemma admit_too_large:
  assumes "\<not> list_ex (\<lambda>e. l_id e = w_id w) ls"
    and "limit_mib b = Some l" and "widen l < w_cost_mib w"
  shows "admit_with_guests b ls guests w free = Refuse (too_large_text w (widen l))"
  using assms by (simp add: admit_with_guests_def)

text \<open>Every outcome, split once: an unload is a non-empty prefix of the ranked candidates.\<close>

lemma admit_unloadD:
  assumes "admit_with_guests b ls guests w free = Unload ids"
  obtains n where "0 < n" and "n \<le> length (candidates ls guests w)"
    and "ids = map l_id (take n (candidates ls guests w))"
    and "\<And>m. m < n \<Longrightarrow> room_short (room_of (map_option widen (limit_mib b)) ls free) w
          (freed_by (take m (candidates ls guests w))) \<noteq> None"
    and "room_short (room_of (map_option widen (limit_mib b)) ls free) w
          (freed_by (take n (candidates ls guests w))) = None"
proof -
  have nl: "\<not> list_ex (\<lambda>e. l_id e = w_id w) ls" using assms admit_loaded by fastforce
  have ns: "\<not> (\<exists>l. limit_mib b = Some l \<and> widen l < w_cost_mib w)"
    using assms admit_too_large [OF nl] by fastforce
  show ?thesis
  proof (rule admit_cases [OF nl ns, of guests free])
    fix n
    assume n: "n \<le> length (candidates ls guests w)"
      and before: "\<And>m. m < n \<Longrightarrow> room_short (room_of (map_option widen (limit_mib b)) ls free) w
          (freed_by (take m (candidates ls guests w))) \<noteq> None"
      and eq: "admit_with_guests b ls guests w free =
          (case room_short (room_of (map_option widen (limit_mib b)) ls free) w
             (freed_by (take n (candidates ls guests w))) of
             None \<Rightarrow> if n = 0 then Fits else Unload (map l_id (take n (candidates ls guests w)))
           | Some sh \<Rightarrow>
               if list_ex (frees_itself w) ls
               then Blocked (refusal (room_of (map_option widen (limit_mib b)) ls free) sh w
                 (freed_by (take n (candidates ls guests w))) ls)
               else Refuse (refusal (room_of (map_option widen (limit_mib b)) ls free) sh w
                 (freed_by (take n (candidates ls guests w))) ls))"
    show ?thesis
      using eq assms n before by (intro that [of n]) (auto split: option.splits if_splits)
  qed
qed

text \<open>A decision that starts nothing found every candidate's room still short.\<close>

lemma admit_shortD:
  assumes "kind_of (admit_with_guests b ls guests w free) \<in> {KBlocked, KRefuse}"
    and "\<not> (\<exists>l. limit_mib b = Some l \<and> widen l < w_cost_mib w)"
  shows "\<not> list_ex (\<lambda>e. l_id e = w_id w) ls"
    and "room_short (room_of (map_option widen (limit_mib b)) ls free) w
          (freed_by (candidates ls guests w)) \<noteq> None"
    and "kind_of (admit_with_guests b ls guests w free) =
          (if list_ex (frees_itself w) ls then KBlocked else KRefuse)"
proof -
  show nl: "\<not> list_ex (\<lambda>e. l_id e = w_id w) ls"
    using assms(1) admit_loaded [of w ls b guests free] by auto
  have "room_short (room_of (map_option widen (limit_mib b)) ls free) w
          (freed_by (candidates ls guests w)) \<noteq> None \<and>
        kind_of (admit_with_guests b ls guests w free) =
          (if list_ex (frees_itself w) ls then KBlocked else KRefuse)"
    by (rule admit_cases [OF nl assms(2), of guests free])
      (use assms(1) in \<open>auto split: option.splits if_splits simp: le_less\<close>)
  then show "room_short (room_of (map_option widen (limit_mib b)) ls free) w
          (freed_by (candidates ls guests w)) \<noteq> None"
    "kind_of (admit_with_guests b ls guests w free) =
          (if list_ex (frees_itself w) ls then KBlocked else KRefuse)"
    by simp_all
qed

interpretation policy: admission_policy "admit_with_guests b" for b
proof unfold_locales
  fix ls guests w free ids i
  assume u: "admit_with_guests b ls guests w free = Unload ids"
  then show "ids \<noteq> []" by (rule admit_unloadD) auto
  assume "i \<in> set ids"
  with u show "\<exists>e \<in> set ls. l_id e = i \<and> candidate w e"
    by (elim admit_unloadD) (auto dest!: in_set_takeD simp: candidates_set)
next
  fix e :: loaded and ls guests free and w :: wanted
  assume "e \<in> set ls" "l_id e = w_id w"
  then show "admit_with_guests b ls guests w free = Fits"
    by (intro admit_loaded) (auto simp: list_ex_iff)
next
  fix ls guests w free m
  assume bl: "admit_with_guests b ls guests w free = Blocked m"
  then have k: "kind_of (admit_with_guests b ls guests w free) = KBlocked" by simp
  have "\<not> list_ex (\<lambda>e. l_id e = w_id w) ls" using bl admit_loaded by fastforce
  then have "\<not> (\<exists>l. limit_mib b = Some l \<and> widen l < w_cost_mib w)"
    using bl admit_too_large by fastforce
  from admit_shortD(3) [OF _ this, of ls guests free] k
  show "\<exists>e \<in> set ls. frees_itself w e" by (auto simp: list_ex_iff split: if_splits)
qed

section \<open>The decision is the specification\<close>

lemma admit_kind_exact:
  assumes "distinct (map l_id ls)" and "no_overflow ls w free"
  shows "kind_of (admit_with_guests b ls guests w free) =
    admit_kind (limit_mib b) free ls w"
proof (cases "list_ex (\<lambda>e. l_id e = w_id w) ls")
  case True
  then show ?thesis by (auto simp: admit_loaded admit_kind_def list_ex_iff)
next
  case nl: False
  show ?thesis
  proof (cases "\<exists>l. limit_mib b = Some l \<and> widen l < w_cost_mib w")
    case True
    with nl show ?thesis
      by (auto simp: admit_too_large admit_kind_def list_ex_iff word_less_nat_alt unat_widen)
  next
    case ns: False
    let ?cs = "candidates ls guests w"
    note exact = room_short_exact [OF assms, of "limit_mib b" _ guests]
    have all: "fits_without (limit_mib b) free ls w (map l_id (take (length ?cs) ?cs)) \<longleftrightarrow>
        fits_without (limit_mib b) free ls w (map l_id (filter (candidate w) ls))"
      using fits_without_mono [of "limit_mib b" free ls w "map l_id ?cs" "map l_id (filter (candidate w) ls)"]
        fits_without_mono [of "limit_mib b" free ls w "map l_id (filter (candidate w) ls)" "map l_id ?cs"]
      by (auto simp: candidates_set)
    have spec: "admit_kind (limit_mib b) free ls w =
        (if fits_without (limit_mib b) free ls w [] then KFits
         else if fits_without (limit_mib b) free ls w (map l_id (filter (candidate w) ls)) then KUnload
         else if list_ex (frees_itself w) ls then KBlocked else KRefuse)"
      using nl ns
      by (auto simp: admit_kind_def list_ex_iff word_less_nat_alt unat_widen split: option.splits)
    show ?thesis
    proof (rule admit_cases [OF nl ns, of guests free])
      fix n
      let ?sh = "room_short (room_of (map_option widen (limit_mib b)) ls free) w (freed_by (take n ?cs))"
      assume n: "n \<le> length ?cs"
        and before: "\<And>m. m < n \<Longrightarrow> room_short (room_of (map_option widen (limit_mib b)) ls free) w
          (freed_by (take m ?cs)) \<noteq> None"
        and after: "n < length ?cs \<Longrightarrow> ?sh = None"
        and eq: "admit_with_guests b ls guests w free =
          (case ?sh of None \<Rightarrow> if n = 0 then Fits else Unload (map l_id (take n ?cs))
           | Some sh \<Rightarrow>
               if list_ex (frees_itself w) ls
               then Blocked (refusal (room_of (map_option widen (limit_mib b)) ls free) sh w
                 (freed_by (take n ?cs)) ls)
               else Refuse (refusal (room_of (map_option widen (limit_mib b)) ls free) sh w
                 (freed_by (take n ?cs)) ls))"
      show ?thesis
      proof (cases "?sh = None")
        case True
        then have fits: "fits_without (limit_mib b) free ls w (map l_id (take n ?cs))"
          using exact [of n] by simp
        then have "fits_without (limit_mib b) free ls w (map l_id (take (length ?cs) ?cs))"
          using fits_without_mono set_take_subset [of n ?cs] by (metis image_mono set_map take_all_iff order_refl)
        with all have "fits_without (limit_mib b) free ls w (map l_id (filter (candidate w) ls))" by simp
        moreover have "0 < n \<Longrightarrow> \<not> fits_without (limit_mib b) free ls w []"
          using before [of 0] exact [of 0] by auto
        ultimately show ?thesis using True eq fits by (cases n) (simp_all add: spec)
      next
        case False
        then have "n = length ?cs" using n after by (cases "n = length ?cs") auto
        then have "\<not> fits_without (limit_mib b) free ls w (map l_id (filter (candidate w) ls))"
          using False exact [of n] all by auto
        moreover from this have "\<not> fits_without (limit_mib b) free ls w []"
          using fits_without_mono [of "limit_mib b" free ls w "[]"] by auto
        ultimately show ?thesis using False eq by (auto simp: spec)
      qed
    qed
  qed
qed

section \<open>Shortages the residents make permanent\<close>

text \<open>Residents are kept whatever on-demand models go, so what they hold stays held.\<close>

lemma kept_residents:
  assumes "distinct (map l_id ls)" and "set gone \<subseteq> l_id ` {e \<in> set ls. l_residency e = OnDemand}"
  shows "total_cost (residents_of ls) \<le> total_cost (staying ls gone)"
proof -
  have "residents_of ls = filter (\<lambda>e. l_residency e = Resident) (staying ls gone)"
    using assms by (fastforce simp: residents_of_def staying_def distinct_map inj_on_def intro: filter_cong)
  then show ?thesis using total_mset_le(1) [of "residents_of ls" "staying ls gone"] by simp
qed

lemma never_fits_beside_residents:
  assumes "distinct (map l_id ls)" and "unat l < unat (w_cost_mib w) + total_cost (residents_of ls)"
    and "set gone \<subseteq> l_id ` {e \<in> set ls. l_residency e = OnDemand}"
  shows "\<not> fits_without (Some l) free ls w gone"
  using kept_residents [OF assms(1,3)] assms(2) by (simp add: fits_without_def)

lemma reserved_exact:
  assumes "total_cost ls < 2 ^ 64"
  shows "unat (reserved_mib ls) = total_cost (residents_of ls)"
proof -
  have "total_cost (residents_of ls) \<le> total_cost ls"
    using total_mset_le(1) [of "residents_of ls" ls] by (simp add: residents_of_def)
  with assms show ?thesis
    unfolding reserved_mib_def by (intro unat_sum_costs) linarith
qed

text \<open>The message of such a shortage is the one that says waiting cannot help.\<close>

lemma admit_never_message:
  assumes "distinct (map l_id ls)" and "no_overflow ls w free"
    and "limit_mib b = Some l" and "\<not> list_ex (\<lambda>e. l_id e = w_id w) ls"
    and "unat (w_cost_mib w) \<le> unat l"
    and "unat l < unat (w_cost_mib w) + total_cost (residents_of ls)"
  shows "admit_with_guests b ls guests w free =
    (if list_ex (frees_itself w) ls then Blocked (never_text w (widen l) ls)
     else Refuse (never_text w (widen l) ls))"
proof -
  let ?cs = "candidates ls guests w" and ?r = "room_of (map_option widen (limit_mib b)) ls free"
  have ns: "\<not> (\<exists>l. limit_mib b = Some l \<and> widen l < w_cost_mib w)"
    using assms(3,5) by (simp add: word_less_nat_alt unat_widen)
  have short: "room_short ?r w (freed_by (take n ?cs)) = Some Ledger" for n
  proof -
    let ?gone = "map l_id (take n ?cs)"
    have "set ?gone \<subseteq> l_id ` {e \<in> set ls. l_residency e = OnDemand}"
      by (auto dest!: in_set_takeD simp: candidates_set candidate_def)
    then have "\<not> fits_without (Some l) None ls w ?gone"
      using never_fits_beside_residents [OF assms(1,6)] by blast
    moreover have "no_overflow ls w None"
      using assms(2) by (auto simp: no_overflow_def split: option.splits)
    ultimately have "room_short (room_of (map_option widen (Some l)) ls None) w (freed_by (take n ?cs)) \<noteq> None"
      using room_short_exact [OF assms(1), of w None "Some l" n guests] by blast
    then show ?thesis
      using assms(3) by (auto simp: room_short_def room_of_def Let_def split: if_splits)
  qed
  have b: "total_cost ls + unat (w_cost_mib w) < 2 ^ 64"
    using assms(2) by (auto simp: no_overflow_def)
  have "total_cost (residents_of ls) \<le> total_cost ls"
    using total_mset_le(1) [of "residents_of ls" ls] by (simp add: residents_of_def)
  then have "unat (w_cost_mib w + reserved_mib ls) = unat (w_cost_mib w) + total_cost (residents_of ls)"
    using unat_add_exact [of "w_cost_mib w" "reserved_mib ls"] b reserved_exact [of ls] by simp
  then have over: "widen l < w_cost_mib w + reserved_mib ls"
    using assms(6) by (simp add: word_less_nat_alt unat_widen)
  have limit: "r_limit ?r = Some (widen l)" by (simp add: room_of_def assms(3))
  show ?thesis
    by (rule admit_cases [OF assms(4) ns, of guests free])
      (simp add: short refusal_def Let_def over limit)
qed

section \<open>Properties\<close>

text \<open>A machine of 4096 MiB with two guests and a chat model, from the repository's own guest cases.\<close>

definition guest_budget :: budget where
  "guest_budget = budget_new (Some 4096)"

definition idle_model :: "string \<Rightarrow> u64 \<Rightarrow> instant \<Rightarrow> loaded" where
  "idle_model i mib used =
     \<lparr>l_id = i, cost_mib = mib, device_mib = mib, l_residency = OnDemand, l_busy = False,
      last_used = used\<rparr>"

definition guest_house :: "loaded list" where
  "guest_house =
     [idle_model ''warm'' 500 29, idle_model ''chat'' 2000 0, idle_model ''cold'' 500 20]"

definition want :: "string \<Rightarrow> u64 \<Rightarrow> wanted" where
  "want i mib = \<lparr>w_id = i, w_cost_mib = mib, w_device_mib = mib\<rparr>"

lemma guest_house_decisions:
  "admit_with_guests guest_budget guest_house [''warm'', ''cold''] (want ''other'' 1500) None =
     Unload [''cold'']"
  "admit_with_guests guest_budget guest_house [''warm'', ''cold''] (want ''other'' 1900) None =
     Unload [''cold'', ''warm'']"
  by code_simp+

lemma guest_house_ok:
  "distinct (map l_id guest_house)"
  "no_overflow guest_house (want ''other'' 1500) None"
  "no_overflow guest_house (want ''other'' 1900) None"
  by (simp_all add: guest_house_def idle_model_def no_overflow_def want_def total_cost_def
      total_device_def)

text \<open>C9: An unload never names a resident model, one that is being read from, or the model
  that is asked for, and never names nothing.\<close>

theorem admit_protects:
  assumes "admit_with_guests b ls guests w free = Unload ids"
    and "distinct (map l_id ls)"
  shows "ids \<noteq> [] \<and> distinct ids \<and> w_id w \<notin> set ids \<and>
    (\<forall>e \<in> set ls. l_id e \<in> set ids \<longrightarrow> l_residency e = OnDemand \<and> \<not> l_busy e) \<and>
    set ids \<subseteq> l_id ` set ls"
proof -
  from assms(1) obtain n where ids: "ids = map l_id (take n (candidates ls guests w))"
    by (rule admit_unloadD)
  have "distinct (map l_id (filter (candidate w) ls))" using assms(2) by (simp add: distinct_map_filter)
  then have "distinct (map l_id (candidates ls guests w))"
    by (simp add: candidates_def distinct_map)
  then have d: "distinct ids" by (simp add: ids distinct_take flip: take_map)
  have "l_residency e = OnDemand \<and> \<not> l_busy e" if "e \<in> set ls" "l_id e \<in> set ids" for e
    using policy.unload_spares [OF assms that(1)] that(2) by (cases "l_residency e") auto
  then show ?thesis
    using policy.unload_some [OF assms(1)] policy.unload_spares_wanted [OF assms(1)]
      policy.unload_subset [OF assms(1)] d by auto
qed

theorem admit_protects_witness:
  "''chat'' \<notin> set [''cold'', ''warm''] \<and> distinct [''cold'', ''warm'']"
  using admit_protects [OF guest_house_decisions(2) guest_house_ok(1)] by simp

text \<open>C10: Unloading what the decision names makes the room: with those models gone, the
  rest and the wanted one are within the budget, and the wanted one's share is within what
  the device then has free.\<close>

theorem admit_makes_room:
  assumes "admit_with_guests b ls guests w free = Unload ids"
    and "distinct (map l_id ls)" and "no_overflow ls w free"
  shows "fits_without (limit_mib b) free ls w ids"
  using assms(1)
  by (rule admit_unloadD) (simp add: room_short_exact [OF assms(2,3)])

theorem admit_makes_room_witness:
  "fits_without (Some 4096) None guest_house (want ''other'' 1500) [''cold'']"
  using admit_makes_room [OF guest_house_decisions(1) guest_house_ok(1,2)]
  by (simp add: guest_budget_def budget_new_def budget_with_probe_def)

text \<open>C11: Only as many are unloaded as are needed: no shorter prefix of what is named
  makes the room.\<close>

theorem admit_minimal:
  assumes "admit_with_guests b ls guests w free = Unload ids"
    and "distinct (map l_id ls)" and "no_overflow ls w free" and "m < length ids"
  shows "\<not> fits_without (limit_mib b) free ls w (take m ids)"
  using assms(1)
proof (rule admit_unloadD)
  fix n
  assume n: "n \<le> length (candidates ls guests w)"
      "ids = map l_id (take n (candidates ls guests w))"
    and before: "\<And>m. m < n \<Longrightarrow> room_short (room_of (map_option widen (limit_mib b)) ls free) w
          (freed_by (take m (candidates ls guests w))) \<noteq> None"
  from assms(4) n have "m < n" by simp
  with n have "take m ids = map l_id (take m (candidates ls guests w))"
    by (simp add: take_map min_def)
  with before [OF \<open>m < n\<close>] room_short_exact [OF assms(2,3)] show ?thesis by simp
qed

theorem admit_minimal_witness:
  "\<not> fits_without (Some 4096) None guest_house (want ''other'' 1900) [''cold'']"
  using admit_minimal [OF guest_house_decisions(2) guest_house_ok(1,3), of 1]
  by (simp add: guest_budget_def budget_new_def budget_with_probe_def)

text \<open>C12: Guests go first, and then the coldest: among the models that could be unloaded,
  one that is named ranks no later than one that is kept, guests before the rest and the
  longest unused first; and the names come in that order.\<close>

theorem admit_order:
  assumes "admit_with_guests b ls guests w free = Unload ids"
    and "distinct (map l_id ls)"
  shows "(\<forall>e \<in> set ls. \<forall>k \<in> set ls. l_id e \<in> set ids \<and> candidate w k \<and> l_id k \<notin> set ids \<longrightarrow>
      (l_id k \<in> set guests \<longrightarrow> l_id e \<in> set guests) \<and>
      ((l_id e \<in> set guests \<longleftrightarrow> l_id k \<in> set guests) \<longrightarrow> last_used e \<le> last_used k)) \<and>
    (\<exists>es. ids = map l_id es \<and> set es \<subseteq> set ls \<and> sorted (map (rank guests) es))"
proof -
  from assms(1) obtain n where ids: "ids = map l_id (take n (candidates ls guests w))"
    by (rule admit_unloadD)
  let ?cs = "candidates ls guests w"
  have sorted: "sorted (map (rank guests) ?cs)" by (simp add: candidates_def)
  have inj: "inj_on l_id (set ls)" using assms(2) by (simp add: distinct_map)
  have le: "rank guests e \<le> rank guests k"
    if "e \<in> set ls" "k \<in> set ls" "l_id e \<in> set ids" "candidate w k" "l_id k \<notin> set ids" for e k
  proof -
    from that(3) obtain e' where e': "e' \<in> set (take n ?cs)" "l_id e' = l_id e"
      by (auto simp: ids)
    then have "e' \<in> set ls" by (auto dest: in_set_takeD simp: candidates_set)
    with inj e' that(1) have "e \<in> set (take n ?cs)" by (metis inj_onD)
    moreover have "k \<in> set ?cs" using that by (simp add: candidates_set)
    then have "k \<in> set (take n ?cs) \<or> k \<in> set (drop n ?cs)"
      by (metis Un_iff append_take_drop_id set_append)
    then have "k \<in> set (drop n ?cs)" using that(5) by (auto simp: ids)
    moreover have "sorted (map (rank guests) (take n ?cs) @ map (rank guests) (drop n ?cs))"
      using sorted by (simp flip: map_append)
    ultimately show ?thesis by (auto simp: sorted_append)
  qed
  have "sorted (map (rank guests) (take n ?cs))" using sorted by (simp add: sorted_wrt_take flip: take_map)
  moreover have "set (take n ?cs) \<subseteq> set ls"
    by (auto dest: in_set_takeD simp: candidates_set)
  ultimately show ?thesis using ids le by (fastforce simp: rank_def less_eq_prod_def)
qed

theorem admit_order_witness:
  "last_used (idle_model ''cold'' 500 20) \<le> last_used (idle_model ''warm'' 500 29) \<and>
   (\<exists>es. [''cold''] = map l_id es \<and> set es \<subseteq> set guest_house \<and>
     sorted (map (rank [''warm'', ''cold'']) es))"
proof -
  have "idle_model ''cold'' 500 20 \<in> set guest_house" "idle_model ''warm'' 500 29 \<in> set guest_house"
    by (simp_all add: guest_house_def)
  moreover have "candidate (want ''other'' 1500) (idle_model ''warm'' 500 29)"
    by (simp add: candidate_def idle_model_def want_def)
  ultimately show ?thesis
    using admit_order [OF guest_house_decisions(1) guest_house_ok(1)]
    by (simp add: idle_model_def)
qed

text \<open>C21: Giving up is never premature: when the decision is to wait or to refuse, no choice
  of idle on-demand models, in any number, would have made the room.\<close>

theorem admit_gives_up_only_when_nothing_helps:
  assumes "kind_of (admit_with_guests b ls guests w free) \<in> {KBlocked, KRefuse}"
    and "distinct (map l_id ls)" and "no_overflow ls w free"
    and "set gone \<subseteq> l_id ` {e \<in> set ls. candidate w e}"
  shows "\<not> fits_without (limit_mib b) free ls w gone"
proof (cases "\<exists>l. limit_mib b = Some l \<and> widen l < w_cost_mib w")
  case True
  then show ?thesis by (auto simp: fits_without_def word_less_nat_alt unat_widen)
next
  case False
  let ?all = "map l_id (take (length (candidates ls guests w)) (candidates ls guests w))"
  have "\<not> fits_without (limit_mib b) free ls w ?all"
    using admit_shortD(2) [OF assms(1) False]
      room_short_exact [OF assms(2,3), of "limit_mib b" "length (candidates ls guests w)" guests]
    by auto
  moreover have "set gone \<subseteq> set ?all" using assms(4) by (simp add: candidates_set)
  ultimately show ?thesis using fits_without_mono by blast
qed

definition pinned_model :: "string \<Rightarrow> u64 \<Rightarrow> bool \<Rightarrow> residency \<Rightarrow> loaded" where
  "pinned_model i mib busy res =
     \<lparr>l_id = i, cost_mib = mib, device_mib = mib, l_residency = res, l_busy = busy,
      last_used = 0\<rparr>"

theorem admit_gives_up_only_when_nothing_helps_witness:
  "\<not> fits_without (Some 10000) None
      [pinned_model ''pinned'' 8000 False Resident, idle_model ''idle'' 1000 5]
      (want ''wanted'' 5000) [''idle'']"
proof -
  let ?ls = "[pinned_model ''pinned'' 8000 False Resident, idle_model ''idle'' 1000 5]"
  let ?w = "want ''wanted'' 5000"
  have ok: "distinct (map l_id ?ls)" "no_overflow ?ls ?w None"
    by (simp_all add: pinned_model_def idle_model_def want_def no_overflow_def total_cost_def
        total_device_def)
  have "kind_of (admit_with_guests (budget_new (Some 10000)) ?ls [] ?w None) = KRefuse"
    unfolding admit_kind_exact [OF ok]
    by (simp add: admit_kind_def fits_without_def budget_new_def budget_with_probe_def want_def
        pinned_model_def idle_model_def candidate_def frees_itself_def staying_def total_cost_def)
  then have kind: "kind_of (admit_with_guests (budget_new (Some 10000)) ?ls [] ?w None) \<in> {KBlocked, KRefuse}"
    by simp
  have "set [''idle''] \<subseteq> l_id ` {e \<in> set ?ls. candidate ?w e}"
    by (force simp: candidate_def idle_model_def want_def)
  from admit_gives_up_only_when_nothing_helps [OF kind ok this] show ?thesis
    by (simp add: budget_new_def budget_with_probe_def)
qed

text \<open>
  What the documentation of \<open>Blocked\<close> and \<open>Refuse\<close> promises of a shortage. Waiting is for room
  that on-demand models hold and are being read from: it would be there once each of them were
  idle and unloaded. A shortage that outlasts them all, for a model larger than the whole budget
  or one the residents leave no room for, is refused at once.
\<close>

definition all_on_demand :: "wanted \<Rightarrow> loaded list \<Rightarrow> string list" where
  "all_on_demand w ls =
     map l_id (filter (\<lambda>e. l_residency e = OnDemand \<and> l_id e \<noteq> w_id w) ls)"

definition documented_kind ::
  "u32 option \<Rightarrow> u64 option \<Rightarrow> loaded list \<Rightarrow> wanted \<Rightarrow> kind" where
  "documented_kind limit free ls w =
     (if \<exists>e \<in> set ls. l_id e = w_id w then KFits
      else if (case limit of None \<Rightarrow> False | Some l \<Rightarrow> unat l < unat (w_cost_mib w)) then KRefuse
      else if fits_without limit free ls w [] then KFits
      else if fits_without limit free ls w (map l_id (filter (candidate w) ls)) then KUnload
      else if fits_without limit free ls w (all_on_demand w ls) then KBlocked
      else KRefuse)"

text \<open>The shortages in which the code's test for waiting, whether anyone on demand is busy, says
  more than that: someone is busy, and the room would be short with every one of them gone.\<close>

definition waits_in_vain ::
  "u32 option \<Rightarrow> u64 option \<Rightarrow> loaded list \<Rightarrow> wanted \<Rightarrow> bool" where
  "waits_in_vain limit free ls w =
     ((\<forall>e \<in> set ls. l_id e \<noteq> w_id w) \<and>
      (case limit of None \<Rightarrow> True | Some l \<Rightarrow> unat (w_cost_mib w) \<le> unat l) \<and>
      (\<exists>e \<in> set ls. frees_itself w e) \<and>
      \<not> fits_without limit free ls w (all_on_demand w ls))"

text \<open>Where nobody is busy the idle candidates are all the on-demand models there are, so the
  room they leave short is short for good.\<close>

lemma nobody_busy_candidates:
  assumes "\<not> (\<exists>e \<in> set ls. frees_itself w e)"
  shows "all_on_demand w ls = map l_id (filter (candidate w) ls)"
  unfolding all_on_demand_def candidate_def using assms
  by (intro arg_cong [where f = "map l_id"] filter_cong) (auto simp: frees_itself_def)

lemma candidates_are_on_demand:
  "set (map l_id (filter (candidate w) ls)) \<subseteq> set (all_on_demand w ls)"
  by (auto simp: all_on_demand_def candidate_def)

lemma vain_wait_kinds:
  assumes "waits_in_vain limit free ls w"
  shows "admit_kind limit free ls w = KBlocked" and "documented_kind limit free ls w = KRefuse"
proof -
  have short: "\<not> fits_without limit free ls w (all_on_demand w ls)"
    using assms by (simp add: waits_in_vain_def)
  have idle: "\<not> fits_without limit free ls w (map l_id (filter (candidate w) ls))"
    using short fits_without_mono candidates_are_on_demand by blast
  have none: "\<not> fits_without limit free ls w []"
    using short fits_without_mono [of limit free ls w "[]" "all_on_demand w ls"] by auto
  show "admit_kind limit free ls w = KBlocked" "documented_kind limit free ls w = KRefuse"
    using assms short idle none
    by (auto simp: waits_in_vain_def admit_kind_def documented_kind_def split: option.splits)
qed

lemma kinds_agree_elsewhere:
  assumes "\<not> waits_in_vain limit free ls w"
  shows "admit_kind limit free ls w = documented_kind limit free ls w"
proof (cases "\<exists>e \<in> set ls. frees_itself w e")
  case True
  then show ?thesis
    using assms
    by (auto simp: waits_in_vain_def admit_kind_def documented_kind_def split: option.splits)
next
  case False
  then show ?thesis
    by (simp add: admit_kind_def documented_kind_def nobody_busy_candidates)
qed

text \<open>C8: With distinct identifiers, and whenever no sum leaves \<open>u64\<close>, the decision on machine
  words is the documented one over natural numbers, outcome by outcome (already loaded, larger
  than the budget, fits outright, fits once every idle on-demand model is gone, held up by
  on-demand models that are busy, or out of room for good), in every case but one. That one is a
  shortage that would outlast every on-demand model, met while some on-demand model is busy: the
  documentation says to refuse it at once, and the code answers \<open>Blocked\<close> and has it waited
  for.\<close>

theorem admit_refines_spec:
  assumes "distinct (map l_id ls)" and "no_overflow ls w free"
  shows "kind_of (admit_with_guests b ls guests w free) =
      (if waits_in_vain (limit_mib b) free ls w then KBlocked
       else documented_kind (limit_mib b) free ls w) \<and>
    (waits_in_vain (limit_mib b) free ls w \<longrightarrow>
      documented_kind (limit_mib b) free ls w = KRefuse)"
  using admit_kind_exact [OF assms, of b guests] vain_wait_kinds kinds_agree_elsewhere by auto

definition pinned_house :: "loaded list" where
  "pinned_house =
     [pinned_model ''steward'' 2000 False Resident, pinned_model ''reading'' 6000 True OnDemand]"

lemma pinned_house_ok:
  "distinct (map l_id pinned_house)"
  "no_overflow pinned_house (want ''flagship'' 9500) None"
  by (simp_all add: pinned_house_def pinned_model_def want_def no_overflow_def total_cost_def
      total_device_def)

theorem admit_refines_spec_witness:
  "documented_kind (Some 4096) None guest_house (want ''other'' 1500) = KUnload \<and>
   kind_of (admit_with_guests (budget_new (Some 10000)) pinned_house [] (want ''flagship'' 9500) None)
     = KBlocked \<and>
   documented_kind (Some 10000) None pinned_house (want ''flagship'' 9500) = KRefuse"
proof -
  have "\<not> waits_in_vain (Some 4096) None guest_house (want ''other'' 1500)"
    by (simp add: waits_in_vain_def frees_itself_def guest_house_def idle_model_def)
  moreover have "waits_in_vain (Some 10000) None pinned_house (want ''flagship'' 9500)"
    by (simp add: waits_in_vain_def all_on_demand_def frees_itself_def fits_without_def
        staying_def total_cost_def pinned_house_def pinned_model_def want_def)
  ultimately show ?thesis
    using admit_refines_spec [OF guest_house_ok(1,2), of guest_budget "[''warm'', ''cold'']"]
      admit_refines_spec [OF pinned_house_ok, of "budget_new (Some 10000)" "[]"]
    unfolding guest_house_decisions(1)
    by (simp add: guest_budget_def budget_new_def budget_with_probe_def)
qed

text \<open>A shortage the residents make permanent is answered with \<open>Blocked\<close>, and so waited
  for, whenever some on-demand model happens to be busy, with the very message that says
  waiting cannot help; although not even unloading every on-demand model would make the
  room.\<close>

lemma admit_blocks_on_permanent_shortage:
  assumes "distinct (map l_id ls)" and "no_overflow ls w free"
    and "limit_mib b = Some l" and "\<not> list_ex (\<lambda>e. l_id e = w_id w) ls"
    and "unat (w_cost_mib w) \<le> unat l"
    and "unat l < unat (w_cost_mib w) + total_cost (residents_of ls)"
    and "list_ex (frees_itself w) ls"
  shows "admit_with_guests b ls guests w free = Blocked (never_text w (widen l) ls) \<and>
    \<not> fits_without (limit_mib b) free ls w
        (map l_id (filter (\<lambda>e. l_residency e = OnDemand) ls))"
  using admit_never_message [OF assms(1-6)] assms(3,7)
    never_fits_beside_residents [OF assms(1,6)]
  by auto

lemma admit_blocks_on_permanent_shortage_witness:
  "kind_of (admit_with_guests (budget_new (Some 10000)) pinned_house [] (want ''flagship'' 9500) None)
     = KBlocked"
proof -
  have "admit_with_guests (budget_new (Some 10000)) pinned_house [] (want ''flagship'' 9500) None =
      Blocked (never_text (want ''flagship'' 9500) (widen 10000) pinned_house) \<and>
      \<not> fits_without (limit_mib (budget_new (Some 10000))) None pinned_house (want ''flagship'' 9500)
        (map l_id (filter (\<lambda>e. l_residency e = OnDemand) pinned_house))"
    by (rule admit_blocks_on_permanent_shortage)
      (simp_all add: pinned_house_def pinned_model_def want_def budget_new_def
        budget_with_probe_def no_overflow_def total_cost_def total_device_def residents_of_def
        frees_itself_def)
  then show ?thesis by simp
qed

text \<open>When the residents hold more than the whole budget, as one measured above its
  estimate may, the figure that message gives as left over is not the negative difference:
  the unchecked \<open>u64\<close> subtraction wraps to a figure larger than the budget.\<close>

lemma refusal_leaving_wraps:
  assumes "distinct (map l_id ls)" and "no_overflow ls w free"
    and "limit_mib b = Some l" and "\<not> list_ex (\<lambda>e. l_id e = w_id w) ls"
    and "unat (w_cost_mib w) \<le> unat l" and "unat l < total_cost (residents_of ls)"
  shows "admit_with_guests b ls guests w free \<in>
      {Blocked (never_text w (widen l) ls), Refuse (never_text w (widen l) ls)} \<and>
    unat (widen l - reserved_mib ls) = 2 ^ 64 - (total_cost (residents_of ls) - unat l) \<and>
    unat l < unat (widen l - reserved_mib ls)"
proof -
  have bound: "total_cost ls < 2 ^ 64" using assms(2) by (auto simp: no_overflow_def)
  have r: "unat (reserved_mib ls) = total_cost (residents_of ls)" by (rule reserved_exact [OF bound])
  have wrap: "unat (widen l - reserved_mib ls) = 2 ^ 64 - (total_cost (residents_of ls) - unat l)"
    using assms(6) r by (simp add: unat_sub_if' word_less_nat_alt unat_widen)
  have rle: "total_cost (residents_of ls) < 2 ^ 64"
    using total_mset_le(1) [of "residents_of ls" ls] bound by (simp add: residents_of_def)
  with wrap have "unat l < unat (widen l - reserved_mib ls)"
    using unsigned_less [of l] assms(6) by simp
  moreover have "unat l < unat (w_cost_mib w) + total_cost (residents_of ls)"
    using assms(6) by simp
  ultimately show ?thesis
    using admit_never_message [OF assms(1-5)] wrap by auto
qed

lemma refusal_leaving_wraps_witness:
  "unat (widen 10000 - reserved_mib [pinned_model ''big'' 12000 False Resident]) = 2 ^ 64 - 2000"
proof -
  have "total_cost (residents_of [pinned_model ''big'' 12000 False Resident]) = 12000"
    by (simp add: pinned_model_def residents_of_def total_cost_def)
  then show ?thesis
    using refusal_leaving_wraps
      [of "[pinned_model ''big'' 12000 False Resident]" "want ''next'' 500" None
        "budget_new (Some 10000)" 10000 "[]"]
    by (simp add: pinned_model_def want_def budget_new_def budget_with_probe_def no_overflow_def
        total_cost_def total_device_def)
qed

end
