(* ===== verification/Windows.thy ===== *)
theory Windows
  imports Admission Utf8
begin

text \<open>
  The durations the operator sets: the idle window of \<open>idle.rs\<close> and what it expires, the
  admission wait of \<open>queue.rs\<close>, and the reaper's schedule of \<open>proxy/reaper.rs\<close>. The value
  of an environment variable is its bytes, \<open>None\<close> when it is unset.
\<close>

lemma as_secs_seconds [simp]: "as_secs (seconds n) = n"
  by (simp add: as_secs_def seconds_def)

section \<open>The idle window\<close>

datatype idle_window = IdleWindow (window_duration: "duration option")

definition idle_window_new :: "duration \<Rightarrow> idle_window" where
  "idle_window_new d = (if d = 0 then IdleWindow None else IdleWindow (Some d))"

definition window_seconds :: "idle_window \<Rightarrow> nat option" where
  "window_seconds w = map_option as_secs (window_duration w)"

definition expired :: "idle_window \<Rightarrow> loaded list \<Rightarrow> instant \<Rightarrow> string list" where
  "expired w ls now =
     (case window_duration w of
        None \<Rightarrow> []
      | Some window \<Rightarrow>
          map l_id (sort_key last_used
            (filter (\<lambda>e. l_residency e = OnDemand \<and> \<not> l_busy e \<and> window \<le> now - last_used e) ls)))"

definition IDLE_VARIABLE :: string where
  "IDLE_VARIABLE = ''MAESTRO_IDLE_UNLOAD_SECONDS''"

definition idle_from_variable :: "string option \<Rightarrow> string + idle_window" where
  "idle_from_variable value =
     (case value of
        None \<Rightarrow> Inr (IdleWindow None)
      | Some bytes \<Rightarrow>
          if bytes = [] then Inr (IdleWindow None)
          else let text = utf8_lossy bytes in case parse_unsigned (2 ^ 64) (trim text) of
              None \<Rightarrow> Inl (IDLE_VARIABLE @ '' carries '' @ quoted text
                @ '', which is not a whole number of seconds; unset it for no idle window, or give it a whole number'')
            | Some n \<Rightarrow> Inr (idle_window_new (seconds n)))"

section \<open>The admission wait\<close>

datatype wait = Wait (wait_duration: duration)

definition WAIT_VARIABLE :: string where
  "WAIT_VARIABLE = ''MAESTRO_ADMISSION_WAIT_SECONDS''"

definition DEFAULT_WAIT :: duration where
  "DEFAULT_WAIT = seconds 60"

definition waits :: "wait \<Rightarrow> bool" where
  "waits w = (wait_duration w \<noteq> 0)"

definition wait_from_variable :: "string option \<Rightarrow> string + wait" where
  "wait_from_variable value =
     (case value of
        None \<Rightarrow> Inr (Wait DEFAULT_WAIT)
      | Some bytes \<Rightarrow>
          if bytes = [] then Inr (Wait DEFAULT_WAIT)
          else let text = utf8_lossy bytes in case parse_unsigned (2 ^ 64) (trim text) of
              None \<Rightarrow> Inl (WAIT_VARIABLE @ '' carries '' @ quoted text
                @ '', which is not a whole number of seconds; unset it for the default of ''
                @ dec (as_secs DEFAULT_WAIT) @ '', or set 0 to refuse rather than wait'')
            | Some n \<Rightarrow> Inr (Wait (seconds n)))"

section \<open>The reaper's schedule\<close>

definition MIN_INTERVAL :: duration where
  "MIN_INTERVAL = millis 100"

definition next_sweep :: "instant option \<Rightarrow> duration \<Rightarrow> instant \<Rightarrow> instant" where
  "next_sweep previous window now =
     (case previous of None \<Rightarrow> now | Some p \<Rightarrow> p) + max (window div 2) MIN_INTERVAL"

text \<open>
  The deadlines of successive ticks: each one interval after the last, whatever a sweep
  took, so a slow sweep does not push the later ones back.
\<close>

fun sweep_deadline :: "instant \<Rightarrow> duration \<Rightarrow> nat \<Rightarrow> instant" where
  "sweep_deadline start window 0 = next_sweep None window start"
| "sweep_deadline start window (Suc n) = next_sweep (Some (sweep_deadline start window n)) window start"

lemma sweep_deadline_closed:
  "sweep_deadline start window n = start + Suc n * max (window div 2) MIN_INTERVAL"
  by (induction n) (simp_all add: next_sweep_def)

lemma expired_set:
  "set (expired w ls now) =
     {l_id e |e. e \<in> set ls \<and> l_residency e = OnDemand \<and> \<not> l_busy e \<and>
        (\<exists>d. window_duration w = Some d \<and> d \<le> now - last_used e)}"
  by (cases "window_duration w") (auto simp: expired_def)

section \<open>Properties\<close>

text \<open>What the idle window expires is exactly the idle on-demand models unused for at
  least the window, the coldest first; a zero window, and an unset one, expire nothing.\<close>

lemma expired_exact:
  "(\<exists>es. expired w ls now = map l_id es \<and> sorted (map last_used es) \<and>
      mset es = filter_mset (\<lambda>e. l_residency e = OnDemand \<and> \<not> l_busy e \<and>
        (case window_duration w of None \<Rightarrow> False | Some d \<Rightarrow> last_used e + d \<le> now \<or> d = 0))
        (mset ls)) \<and>
   expired (idle_window_new 0) ls now = []"
proof -
  let ?P = "\<lambda>e. l_residency e = OnDemand \<and> \<not> l_busy e \<and>
      (case window_duration w of None \<Rightarrow> False | Some d \<Rightarrow> last_used e + d \<le> now \<or> d = 0)"
  let ?es = "sort_key last_used (filter ?P ls)"
  have age: "(d \<le> now - u) = (u + d \<le> now \<or> d = 0)" for d u :: nat by auto
  have "expired w ls now = map l_id ?es"
    by (cases "window_duration w") (simp_all add: expired_def age)
  moreover have "sorted (map last_used ?es)" by simp
  moreover have "mset ?es = filter_mset ?P (mset ls)" by simp
  ultimately show ?thesis by (auto simp: expired_def idle_window_new_def)
qed

text \<open>The three numeric settings read the decimal text of a number as that number, an
  unset or empty variable as its default, and refuse text that is no number of the type:
  a window of zero is no window, and a wait of zero is a wait of zero rather than the
  default.\<close>

lemma settings_read_numbers:
  "n < 2 ^ 64 \<Longrightarrow>
     idle_from_variable (Some (dec n)) = Inr (idle_window_new (seconds n)) \<and>
     wait_from_variable (Some (dec n)) = Inr (Wait (seconds n)) \<and>
     idle_from_variable None = Inr (IdleWindow None) \<and>
     idle_from_variable (Some []) = Inr (IdleWindow None) \<and>
     wait_from_variable None = Inr (Wait (seconds 60)) \<and>
     wait_from_variable (Some []) = Inr (Wait (seconds 60)) \<and>
     (\<exists>m. idle_from_variable (Some ''soon'') = Inl m) \<and>
     (\<exists>m. wait_from_variable (Some ''soon'') = Inl m)"
proof -
  assume n: "n < 2 ^ 64"
  have ne: "dec n \<noteq> []" using dec_digits [of n] by simp
  have "list_all is_digit (dec n)" using dec_digits [of n] by simp
  then have "list_all (\<lambda>c. (of_char c :: nat) < 128) (dec n)"
    by (rule list.pred_mono_strong) (simp add: is_digit_def)
  then have lossy: "utf8_lossy (dec n) = dec n" "utf8_lossy ''soon'' = ''soon''"
    by (simp_all add: utf8_lossy_valid utf8_valid_ascii)
  have "trim ''soon'' = ''soon''" by (rule trim_visible) (simp_all add: visible_def)
  then have soon: "parse_unsigned (2 ^ 64) (trim ''soon'') = None"
    by (simp add: parse_unsigned_def is_digit_def)
  show ?thesis
    using n ne parse_dec [OF n] soon lossy
    by (simp add: idle_from_variable_def wait_from_variable_def DEFAULT_WAIT_def)
qed

lemma settings_read_numbers_witness:
  "idle_from_variable (Some (dec 0)) = Inr (IdleWindow None) \<and>
   wait_from_variable (Some (dec 0)) = Inr (Wait 0)"
  using settings_read_numbers [of 0] by (simp add: idle_window_new_def seconds_def)

end
