(* ===== verification/Waiting_Line.thy ===== *)
theory Waiting_Line
  imports Router_Prelude
begin

text \<open>
  The line of requests waiting for room, \<open>proxy/slots/queue.rs\<close>, and the bell they sleep on,
  \<open>Freed\<close> of \<open>proxy/slots/lease.rs\<close>. The interface \<open>waiting_line\<close> is what the wait relies
  on: places are handed out in order, kept in order, and only the first may take room.
  Tickets, rings and reloads are counted in natural numbers: the \<open>u64\<close> counters of the
  code are not exhausted by any run.
\<close>

section \<open>The line\<close>

record queue =
  waiting :: "nat list"
  issued :: nat
  reloads :: nat

definition queue_default :: queue where
  "queue_default = \<lparr>waiting = [], issued = 0, reloads = 0\<rparr>"

definition may_take :: "queue \<Rightarrow> nat option \<Rightarrow> bool" where
  "may_take q ticket = (case waiting q of [] \<Rightarrow> True | first # _ \<Rightarrow> Some first = ticket)"

definition line_join :: "queue \<Rightarrow> nat option \<Rightarrow> queue \<times> nat option" where
  "line_join q ticket =
     (case ticket of
        None \<Rightarrow>
          (let n = issued q + 1 in (q\<lparr>issued := n, waiting := waiting q @ [n]\<rparr>, Some n))
      | Some t \<Rightarrow> (q, Some t))"

definition line_leave :: "queue \<Rightarrow> nat option \<Rightarrow> bool \<times> queue" where
  "line_leave q ticket =
     (let rest = filter (\<lambda>w. Some w \<noteq> ticket) (waiting q) in
      (length rest \<noteq> length (waiting q), q\<lparr>waiting := rest\<rparr>))"

definition line_len :: "queue \<Rightarrow> nat" where
  "line_len q = length (waiting q)"

text \<open>Places are in the order they were issued, and none is ahead of the counter.\<close>

definition line_ok :: "queue \<Rightarrow> bool" where
  "line_ok q = (sorted_wrt (<) (waiting q) \<and> (\<forall>t \<in> set (waiting q). t \<le> issued q))"

section \<open>The interface\<close>

definition ahead :: "nat list \<Rightarrow> nat \<Rightarrow> nat \<Rightarrow> bool" where
  "ahead xs a b = (\<exists>us vs ws. xs = us @ a # vs @ b # ws)"

lemma ahead_filter:
  "ahead xs a b \<Longrightarrow> P a \<Longrightarrow> P b \<Longrightarrow> ahead (filter P xs) a b"
  by (auto simp: ahead_def) blast

lemma ahead_append: "ahead xs a b \<Longrightarrow> ahead (xs @ ys) a b"
  by (auto simp: ahead_def) (metis append.assoc append_Cons)

lemma ahead_in: "ahead xs a b \<Longrightarrow> a \<in> set xs \<and> b \<in> set xs"
  by (auto simp: ahead_def)

lemma ahead_not_first: "distinct xs \<Longrightarrow> ahead xs a b \<Longrightarrow> hd xs \<noteq> b"
proof -
  assume d: "distinct xs" and "ahead xs a b"
  then obtain us vs ws where x: "xs = us @ a # vs @ b # ws" by (auto simp: ahead_def)
  with d show ?thesis by (cases us) auto
qed

datatype line_op = Join | Leave nat

locale waiting_line =
  fixes places :: "'q \<Rightarrow> nat list"
    and ok :: "'q \<Rightarrow> bool"
    and may :: "'q \<Rightarrow> nat option \<Rightarrow> bool"
    and enter :: "'q \<Rightarrow> nat option \<Rightarrow> 'q \<times> nat option"
    and quit :: "'q \<Rightarrow> nat option \<Rightarrow> bool \<times> 'q"
  assumes ok_distinct: "ok q \<Longrightarrow> distinct (places q)"
    and may_first: "may q t \<longleftrightarrow> places q = [] \<or> t = Some (hd (places q))"
    and enter_new: "ok q \<Longrightarrow> \<exists>n. enter q None = (fst (enter q None), Some n) \<and>
        places (fst (enter q None)) = places q @ [n] \<and> n \<notin> set (places q)"
    and enter_again: "enter q (Some n) = (q, Some n)"
    and ok_enter: "ok q \<Longrightarrow> ok (fst (enter q t))"
    and quit_places: "places (snd (quit q t)) = filter (\<lambda>w. Some w \<noteq> t) (places q)"
    and quit_says: "ok q \<Longrightarrow> fst (quit q t) \<longleftrightarrow> (\<exists>n \<in> set (places q). t = Some n)"
    and ok_quit: "ok q \<Longrightarrow> ok (snd (quit q t))"
begin

primrec act :: "'q \<Rightarrow> line_op \<Rightarrow> 'q" where
  "act q Join = fst (enter q None)"
| "act q (Leave t) = snd (quit q (Some t))"

lemma ok_act: "ok q \<Longrightarrow> ok (act q x)"
  by (cases x) (simp_all add: ok_enter ok_quit)

lemma ok_run: "ok q \<Longrightarrow> ok (foldl act q xs)"
  by (induction xs arbitrary: q) (simp_all add: ok_act)

lemma one_at_a_time:
  "places q \<noteq> [] \<Longrightarrow> may q (Some a) \<Longrightarrow> may q (Some b) \<Longrightarrow> a = b"
  by (simp add: may_first)

lemma newcomer_waits: "places q \<noteq> [] \<Longrightarrow> \<not> may q None"
  by (simp add: may_first)

lemma behind_waits: "ok q \<Longrightarrow> ahead (places q) a b \<Longrightarrow> \<not> may q (Some b)"
  using ahead_not_first [of "places q" a b] ahead_in [of "places q" a b] ok_distinct [of q]
  by (auto simp: may_first)

lemma act_ahead:
  assumes "ok q" and "ahead (places q) a b" and "x \<noteq> Leave a" and "x \<noteq> Leave b"
  shows "ahead (places (act q x)) a b"
proof (cases x)
  case Join
  obtain n where "places (fst (enter q None)) = places q @ [n]"
    using enter_new [OF assms(1)] by blast
  with Join assms(2) show ?thesis by (simp add: ahead_append)
next
  case (Leave t)
  with assms show ?thesis by (simp add: quit_places ahead_filter)
qed

lemma no_overtaking:
  assumes "ok q" and "ahead (places q) a b" and "Leave a \<notin> set xs" and "Leave b \<notin> set xs"
  shows "\<not> may (foldl act q xs) (Some b) \<and> a \<in> set (places (foldl act q xs))"
proof -
  have "ok (foldl act q xs) \<and> ahead (places (foldl act q xs)) a b"
    using assms
  proof (induction xs arbitrary: q)
    case Nil
    then show ?case by simp
  next
    case (Cons x xs)
    then have "ahead (places (act q x)) a b" by (intro act_ahead) auto
    with Cons show ?case by (simp add: ok_act)
  qed
  then show ?thesis using behind_waits ahead_in by blast
qed

lemma leaving_hands_on:
  assumes "ok q" and "places q = a # b # rest"
  shows "may (snd (quit q (Some a))) (Some b)"
  using ok_distinct [OF assms(1)] assms(2) by (simp add: may_first quit_places)

end

section \<open>The queue is such a line\<close>

lemma line_ok_default [simp]: "line_ok queue_default"
  by (simp add: line_ok_def queue_default_def)

lemma line_ok_join: "line_ok q \<Longrightarrow> line_ok (fst (line_join q t))"
  by (fastforce simp: line_ok_def line_join_def Let_def sorted_wrt_append split: option.splits)

lemma line_ok_leave: "line_ok q \<Longrightarrow> line_ok (snd (line_leave q t))"
  by (simp add: line_ok_def line_leave_def Let_def sorted_wrt_filter)

lemma line_join_waiting:
  "waiting (fst (line_join q None)) = waiting q @ [issued q + 1]"
  "snd (line_join q None) = Some (issued q + 1)"
  by (simp_all add: line_join_def Let_def)

lemma line_leave_waiting: "waiting (snd (line_leave q t)) = filter (\<lambda>w. Some w \<noteq> t) (waiting q)"
  by (simp add: line_leave_def Let_def)

lemma line_leave_says: "fst (line_leave q t) \<longleftrightarrow> (\<exists>n \<in> set (waiting q). t = Some n)"
proof -
  have "length (filter P xs) = length xs \<longleftrightarrow> (\<forall>n \<in> set xs. P n)" for P and xs :: "nat list"
  proof (induction xs)
    case (Cons x xs)
    then show ?case using length_filter_le [of P xs] by (cases "P x") (simp_all del: length_filter_le)
  qed simp
  then show ?thesis by (auto simp: line_leave_def Let_def)
qed

interpretation fifo: waiting_line waiting line_ok may_take line_join line_leave
proof unfold_locales
  fix q t
  show "line_ok q \<Longrightarrow> distinct (waiting q)"
    by (simp add: line_ok_def strict_sorted_iff)
  show "may_take q t \<longleftrightarrow> waiting q = [] \<or> t = Some (hd (waiting q))"
    by (auto simp: may_take_def split: list.splits)
  show "line_ok q \<Longrightarrow> \<exists>n. line_join q None = (fst (line_join q None), Some n) \<and>
      waiting (fst (line_join q None)) = waiting q @ [n] \<and> n \<notin> set (waiting q)"
    by (rule exI [of _ "issued q + 1"]) (auto simp: line_join_def Let_def line_ok_def)
  show "line_join q (Some t') = (q, Some t')" for t'
    by (simp add: line_join_def)
  show "line_ok q \<Longrightarrow> line_ok (fst (line_join q t))" by (rule line_ok_join)
  show "waiting (snd (line_leave q t)) = filter (\<lambda>w. Some w \<noteq> t) (waiting q)"
    by (rule line_leave_waiting)
  show "line_ok q \<Longrightarrow> fst (line_leave q t) \<longleftrightarrow> (\<exists>n \<in> set (waiting q). t = Some n)"
    by (simp add: line_leave_says)
  show "line_ok q \<Longrightarrow> line_ok (snd (line_leave q t))" by (rule line_ok_leave)
qed

text \<open>What happens to the line, one operation at a time.\<close>

fun line_act :: "queue \<Rightarrow> line_op \<Rightarrow> queue" where
  "line_act q Join = fst (line_join q None)"
| "line_act q (Leave t) = snd (line_leave q (Some t))"

lemma line_act_eq: "line_act = fifo.act"
proof (intro ext)
  show "line_act q x = fifo.act q x" for q x by (cases x) simp_all
qed

section \<open>The bell\<close>

text \<open>
  \<open>Freed\<close> as the number of rings. \<open>wait_ends\<close> says when a wait that heard \<open>heard\<close> is over:
  it was rung since, or the deadline came.
\<close>

definition wait_ends :: "nat \<Rightarrow> nat \<Rightarrow> instant \<Rightarrow> instant \<Rightarrow> bool" where
  "wait_ends rung heard deadline now = (rung \<noteq> heard \<or> deadline - now = 0)"

section \<open>Properties\<close>

text \<open>C20: The line is first come, first served: while an earlier request is still in line,
  no later one may take room, whoever joins or leaves meanwhile; a request not in line may
  not while anyone is; and when the first leaves, the next may.\<close>

theorem line_first_come_first_served:
  assumes "line_ok q" and "waiting q = us @ a # vs @ b # ws"
    and "Leave a \<notin> set xs" and "Leave b \<notin> set xs"
  shows "\<not> may_take (foldl line_act q xs) (Some b) \<and>
    \<not> may_take (foldl line_act q xs) None \<and>
    (us = [] \<and> vs = [] \<longrightarrow> may_take (snd (line_leave q (Some a))) (Some b))"
proof -
  have "ahead (waiting q) a b" using assms(2) by (auto simp: ahead_def)
  from fifo.no_overtaking [OF assms(1) this assms(3,4)]
  have "\<not> may_take (foldl line_act q xs) (Some b)" "waiting (foldl line_act q xs) \<noteq> []"
    by (auto simp: line_act_eq)
  moreover from this(2) have "\<not> may_take (foldl line_act q xs) None"
    by (rule fifo.newcomer_waits)
  ultimately show ?thesis using fifo.leaving_hands_on [OF assms(1)] assms(2) by auto
qed

theorem line_first_come_first_served_witness:
  "\<not> may_take (foldl line_act (foldl line_act queue_default [Join, Join]) [Join, Leave 3]) (Some 2)"
proof -
  let ?q = "foldl line_act queue_default [Join, Join]"
  have w: "waiting ?q = [] @ 1 # [] @ 2 # []"
    by (simp add: queue_default_def line_join_def Let_def)
  have ok: "line_ok ?q"
    by (simp add: line_ok_def queue_default_def line_join_def Let_def)
  from line_first_come_first_served [OF ok w, of "[Join, Leave 3]"] show ?thesis by simp
qed

end
