(* ===== verification/Launch.thy ===== *)
theory Launch
  imports Catalog_Entry Utf8
begin

text \<open>
  Starting one entry's server: \<open>launch/failure.rs\<close>, \<open>launch/root.rs\<close>,
  \<open>launch/search.rs\<close>, \<open>launch/binary.rs\<close>, \<open>launch/invocation.rs\<close>, \<open>launch/probe.rs\<close>,
  \<open>launch/output.rs\<close> and \<open>launch/server.rs\<close>. What the system answers -- which files exist,
  the port it hands out, whether a spawn succeeds, what each poll of the child finds -- is an
  argument. The running processes are a set the operations add to and remove from, so the
  lemmas can say that a start that fails leaves none behind.
\<close>

section \<open>Failures\<close>

datatype failure =
    NotReady string
  | Unavailable string
  | Refused string
  | Contended string

fun failure_text :: "failure \<Rightarrow> string" where
  "failure_text (NotReady m) = m"
| "failure_text (Unavailable m) = m"
| "failure_text (Refused m) = m"
| "failure_text (Contended m) = m"

section \<open>Where things are\<close>

definition models_root_from :: "string option \<Rightarrow> string option \<Rightarrow> failure + string" where
  "models_root_from configured home =
     (case configured of
        Some v \<Rightarrow>
          (if v \<noteq> [] then Inr v
           else (case home of
                   Some h \<Rightarrow> Inr (path_join h ''models'')
                 | None \<Rightarrow> Inl (Unavailable (''no models root: set MAESTRO_MODELS_ROOT, or run ''
                     @ ''somewhere with a home directory this router can read''))))
      | None \<Rightarrow>
          (case home of
             Some h \<Rightarrow> Inr (path_join h ''models'')
           | None \<Rightarrow> Inl (Unavailable (''no models root: set MAESTRO_MODELS_ROOT, or run ''
               @ ''somewhere with a home directory this router can read''))))"

text \<open>The search path is the directories of \<open>PATH\<close>, \<open>None\<close> when it is not set; as on Unix, the
  executable suffix is empty and the home directory is \<open>HOME\<close>.\<close>

definition on_search_path ::
    "(string \<Rightarrow> bool) \<Rightarrow> string list option \<Rightarrow> string \<Rightarrow> string option" where
  "on_search_path is_file path name =
     (case path of
        None \<Rightarrow> None
      | Some dirs \<Rightarrow> find is_file (map (\<lambda>d. path_join d name) dirs))"

definition runtime_named :: "string \<Rightarrow> string" where
  "runtime_named runtime = ''llama-server-'' @ runtime"

definition located ::
    "(string \<Rightarrow> bool) \<Rightarrow> string list option \<Rightarrow> string option \<Rightarrow> failure + string" where
  "located is_file path configured =
     (case configured of
        Some p \<Rightarrow>
          (if is_file p then Inr p
           else Inl (Unavailable (''the configured server binary is not there: '' @ quoted p)))
      | None \<Rightarrow>
          (case on_search_path is_file path ''llama-server'' of
             Some p \<Rightarrow> Inr p
           | None \<Rightarrow> Inl (Unavailable (''no server binary was configured, and no ''
               @ quoted ''llama-server'' @ '' was found on the search path''))))"

definition for_entry ::
    "(string \<Rightarrow> bool) \<Rightarrow> string list option \<Rightarrow> string \<Rightarrow> entry \<Rightarrow> failure + string" where
  "for_entry is_file path started_with e =
     (case e_runtime e of
        None \<Rightarrow> Inr started_with
      | Some runtime \<Rightarrow>
          (case on_search_path is_file path (runtime_named runtime) of
             Some p \<Rightarrow> Inr p
           | None \<Rightarrow> Inl (Unavailable (''entry '' @ quoted (e_id e) @ '' needs the ''
               @ quoted runtime @ '' runtime, and nothing named ''
               @ quoted (runtime_named runtime) @ '' is on the search path''))))"

definition model_file :: "(string \<Rightarrow> bool) \<Rightarrow> entry \<Rightarrow> string \<Rightarrow> failure + string" where
  "model_file is_file e root =
     (let model = resolve (e_path e) root in
      if is_file model then Inr model
      else Inl (Unavailable (''entry '' @ quoted (e_id e) @ '': no model file at ''
             @ quoted model)))"

section \<open>The command line\<close>

type_synonym u16 = "16 word"

definition long_form :: "string \<Rightarrow> string" where
  "long_form key =
     ''--'' @ (if key = ''c'' then ''ctx-size''
      else if key = ''ctk'' then ''cache-type-k''
      else if key = ''ctv'' then ''cache-type-v''
      else if key = ''fa'' then ''flash-attn''
      else if key = ''np'' then ''parallel''
      else key)"

definition option_args :: "string \<Rightarrow> string \<Rightarrow> string list" where
  "option_args key v =
     (let folded = ascii_lower (trim v) in
      if folded = ''true'' then [long_form key]
      else if folded = ''false'' then [''--no-'' @ key]
      else [long_form key, v])"

definition push_opt :: "string \<Rightarrow> string option \<Rightarrow> string list" where
  "push_opt flag v = (case v of None \<Rightarrow> [] | Some x \<Rightarrow> [flag, x])"

definition invocation_of :: "entry \<Rightarrow> string \<Rightarrow> u16 \<Rightarrow> string list" where
  "invocation_of e root port =
     [''--model'', resolve (e_path e) root]
     @ push_opt ''--model-draft'' (map_option (\<lambda>p. resolve p root) (e_draft_path e))
     @ push_opt ''--mmproj'' (map_option (\<lambda>p. resolve p root) (e_projector_path e))
     @ [''--ctx-size'', dec (unat (e_context_size e))]
     @ push_opt ''--reasoning-format'' (e_reasoning_format e)
     @ push_opt ''--reasoning-effort'' (e_reasoning_effort e)
     @ concat (map (\<lambda>(key, v). option_args key v) (e_flags e))
     @ [''--alias'', e_id e, ''--host'', ''127.0.0.1'', ''--port'', dec (unat port)]"

section \<open>What the child says\<close>

text \<open>
  A stream is read in pieces: up to and including a line feed, and never more than 4096 bytes.
  Each is passed on without its line ending, read as UTF-8 with what is not replaced, and the
  last five are kept.
\<close>

definition KEPT :: nat where "KEPT = 5"
definition LONGEST_LINE :: nat where "LONGEST_LINE = 4096"

fun until_newline :: "string \<Rightarrow> string" where
  "until_newline [] = []"
| "until_newline (c # cs) = (if c = CHR 0x0A then [c] else c # until_newline cs)"

definition next_piece :: "string \<Rightarrow> string" where
  "next_piece s = until_newline (take LONGEST_LINE s)"

lemma until_newline_prefix: "until_newline s = take (length (until_newline s)) s"
  by (induction s) auto

lemma length_until_newline: "length (until_newline s) \<le> length s"
  by (induction s) auto

lemma next_piece_prefix: "next_piece s = take (length (next_piece s)) s"
proof -
  let ?k = "length (next_piece s)"
  have "?k \<le> LONGEST_LINE"
    using length_until_newline [of "take LONGEST_LINE s"] by (simp add: next_piece_def)
  then have "take ?k (take LONGEST_LINE s) = take ?k s" by (simp add: min_absorb1)
  with until_newline_prefix [of "take LONGEST_LINE s"] show ?thesis
    by (simp add: next_piece_def)
qed

lemma next_piece_pos: "s \<noteq> [] \<Longrightarrow> next_piece s \<noteq> []"
  by (cases s) (simp_all add: next_piece_def LONGEST_LINE_def)

function pieces :: "string \<Rightarrow> string list" where
  "pieces s = (if s = [] then [] else next_piece s # pieces (drop (length (next_piece s)) s))"
  by pat_completeness auto
termination
  by (relation "measure length") (auto simp: next_piece_pos)

declare pieces.simps [simp del]

definition drop_line_end :: "string \<Rightarrow> string" where
  "drop_line_end s = rev (dropWhile (\<lambda>c. c = CHR 0x0D \<or> c = CHR 0x0A) (rev s))"

definition kept_push :: "string list \<Rightarrow> string \<Rightarrow> string list" where
  "kept_push ls l = (if length ls = KEPT then tl ls else ls) @ [l]"

text \<open>
  A line goes to the sink first and is kept after, under a lock of its own: two steps, between
  which the thread of the other stream may pass on or keep a line of its own.
\<close>

definition to_sink :: "string \<Rightarrow> string list \<times> string list \<Rightarrow> string list \<times> string list" where
  "to_sink piece st = (fst st @ [drop_line_end (utf8_lossy piece)], snd st)"

definition to_kept :: "string \<Rightarrow> string list \<times> string list \<Rightarrow> string list \<times> string list" where
  "to_kept piece st = (fst st, kept_push (snd st) (drop_line_end (utf8_lossy piece)))"

definition passed_on ::
    "string list \<times> string list \<Rightarrow> string \<Rightarrow> string list \<times> string list" where
  "passed_on st piece = to_kept piece (to_sink piece st)"

definition drain :: "string \<Rightarrow> string list \<times> string list" where
  "drain stream = foldl passed_on ([], []) (pieces stream)"

text \<open>
  A child has two streams, each drained on a thread of its own into the same place: what the
  threads do is one piece given to the sink, one kept, or the end of a stream, at a time.
  \<open>open_streams\<close> counts the streams not yet at their end; \<open>said_last\<close> waits for both, or for the
  settling time to be over, and has no answer before.
\<close>

datatype stream_event = Passes string | Keeps string | StreamEnds

record kept =
  kept_lines :: "string list \<times> string list"
  open_streams :: nat

definition spawned_kept :: kept where
  "spawned_kept = \<lparr>kept_lines = ([], []), open_streams = 2\<rparr>"

fun stream_step :: "kept \<Rightarrow> stream_event \<Rightarrow> kept" where
  "stream_step k (Passes piece) = k\<lparr>kept_lines := to_sink piece (kept_lines k)\<rparr>"
| "stream_step k (Keeps piece) = k\<lparr>kept_lines := to_kept piece (kept_lines k)\<rparr>"
| "stream_step k StreamEnds = k\<lparr>open_streams := open_streams k - 1\<rparr>"

definition stream_steps :: "string \<Rightarrow> stream_event list" where
  "stream_steps stream = concat (map (\<lambda>p. [Passes p, Keeps p]) (pieces stream)) @ [StreamEnds]"

definition said_last :: "bool \<Rightarrow> kept \<Rightarrow> string list option" where
  "said_last settled k =
     (if 0 < open_streams k \<and> \<not> settled then None else Some (snd (kept_lines k)))"

definition last_words :: "string list \<Rightarrow> string" where
  "last_words ls =
     (if ls = [] then []
      else ''; it said last:'' @ [CHR 0x0A] @ ''  '' @ join ([CHR 0x0A] @ ''  '') ls)"

section \<open>Readiness\<close>

text \<open>The status code of a reply line, from its second word.\<close>

definition health_status :: "string \<Rightarrow> nat option" where
  "health_status line =
     (case split_whitespace line of
        _ # code # _ \<Rightarrow> parse_unsigned (2 ^ 16) code
      | _ \<Rightarrow> None)"

text \<open>
  One probe: whether the connection was made and the request written, both within the bound,
  what came back, and whether the reply ended by itself rather than by an error or the bound.
  The line read is all there is up to a line feed or that end, and must be UTF-8.
\<close>

record probing =
  pb_sent :: bool
  pb_reply :: string
  pb_ended :: bool

definition HEALTH_REQUEST :: string where
  "HEALTH_REQUEST =
     ''GET /health HTTP/1.1'' @ crlf @ ''Host: localhost'' @ crlf @ ''Connection: close'' @ crlf @ crlf"

definition health :: "probing \<Rightarrow> nat option" where
  "health p =
     (let line = until_newline (pb_reply p) in
      if pb_sent p \<and> (CHR 0x0A \<in> set line \<or> pb_ended p) \<and> utf8_valid line
      then health_status line else None)"

datatype liveness = Running | Exited string

text \<open>What \<open>try_wait\<close> says of a process: an error, still there, or its exit status.\<close>

definition check_child :: "string + string option \<Rightarrow> liveness" where
  "check_child waited =
     (case waited of Inr (Some status) \<Rightarrow> Exited status | Inr None \<Rightarrow> Running | Inl _ \<Rightarrow> Running)"

text \<open>What one turn of the loop finds: the process, the probe, the clock, the last lines.\<close>

record poll =
  p_alive :: liveness
  p_health :: "nat option"
  p_elapsed :: duration
  p_said :: "string list"

definition polled :: "string + string option \<Rightarrow> probing \<Rightarrow> duration \<Rightarrow> string list \<Rightarrow> poll" where
  "polled waited probe elapsed said =
     \<lparr>p_alive = check_child waited, p_health = health probe, p_elapsed = elapsed, p_said = said\<rparr>"

definition startup_budget :: "entry \<Rightarrow> duration" where
  "startup_budget e = unat (e_startup_timeout_seconds e) * 1000000000"

text \<open>\<open>None\<close> when the polls given run out before the loop ends.\<close>

fun attempt_loop :: "entry \<Rightarrow> bool \<Rightarrow> poll list \<Rightarrow> (failure \<times> bool + unit) option" where
  "attempt_loop e ever [] = None"
| "attempt_loop e ever (p # ps) =
     (case p_alive p of
        Exited status \<Rightarrow>
          Some (Inl (Unavailable (''entry '' @ quoted (e_id e)
            @ '': the server exited while loading ('' @ status @ '')''
            @ last_words (p_said p)), \<not> ever))
      | Running \<Rightarrow>
          (if p_health p = Some 200 then Some (Inr ())
           else if startup_budget e \<le> p_elapsed p then
             Some (Inl (NotReady (''entry '' @ quoted (e_id e)
               @ '': not ready within its startup budget of ''
               @ dec (unat (e_startup_timeout_seconds e)) @ '' seconds''
               @ last_words (p_said p)), False))
           else attempt_loop e (ever \<or> p_health p \<noteq> None) ps))"

text \<open>What the system answers one attempt: a port, a spawn, and then the polls.\<close>

record system =
  y_port :: "string + u16"
  y_spawn :: "string + nat"
  y_polls :: "poll list"

record child =
  ch_id :: string
  ch_port :: u16
  ch_pid :: nat

type_synonym files = "(string \<Rightarrow> bool) \<times> string list option"

definition spawn ::
    "files \<Rightarrow> string \<Rightarrow> entry \<Rightarrow> string \<Rightarrow> system \<Rightarrow> nat set \<Rightarrow> (failure + child) \<times> nat set" where
  "spawn fs binary e root y procs =
     (case model_file (fst fs) e root of
        Inl f \<Rightarrow> (Inl f, procs)
      | Inr _ \<Rightarrow>
          (case y_port y of
             Inl err \<Rightarrow> (Inl (Unavailable (''entry '' @ quoted (e_id e)
                 @ '': no loopback port was free: '' @ err)), procs)
           | Inr port \<Rightarrow>
               (case for_entry (fst fs) (snd fs) binary e of
                  Inl f \<Rightarrow> (Inl f, procs)
                | Inr program \<Rightarrow>
                    (case y_spawn y of
                       Inl err \<Rightarrow> (Inl (Unavailable (''entry '' @ quoted (e_id e)
                           @ '': the server binary '' @ quoted binary
                           @ '' would not start: '' @ err)), procs)
                     | Inr pid \<Rightarrow>
                         (Inr \<lparr>ch_id = e_id e, ch_port = port, ch_pid = pid\<rparr>,
                          insert pid procs)))))"

text \<open>
  A child stopped is killed and reaped, and so is one dropped, on an error path or when the last
  handle to it goes.
\<close>

definition stop_child :: "child \<Rightarrow> nat set \<Rightarrow> nat set" where
  "stop_child ch procs = procs - {ch_pid ch}"

definition attempt ::
    "files \<Rightarrow> string \<Rightarrow> entry \<Rightarrow> string \<Rightarrow> system \<Rightarrow> nat set \<Rightarrow>
     ((failure \<times> bool + child) \<times> nat set) option" where
  "attempt fs binary e root y procs =
     (case spawn fs binary e root y procs of
        (Inl f, procs') \<Rightarrow> Some (Inl (f, False), procs')
      | (Inr ch, procs') \<Rightarrow>
          (case attempt_loop e False (y_polls y) of
             None \<Rightarrow> None
           | Some (Inl err) \<Rightarrow> Some (Inl err, stop_child ch procs')
           | Some (Inr _) \<Rightarrow> Some (Inr ch, procs')))"

definition start ::
    "files \<Rightarrow> string \<Rightarrow> entry \<Rightarrow> string \<Rightarrow> system \<Rightarrow> system \<Rightarrow> nat set \<Rightarrow>
     ((failure + child) \<times> nat set) option" where
  "start fs binary e root y y' procs =
     (case attempt fs binary e root y procs of
        None \<Rightarrow> None
      | Some (Inl (f, lost_the_race), procs') \<Rightarrow>
          (if lost_the_race then
             (case attempt fs binary e root y' procs' of
                None \<Rightarrow> None
              | Some (Inl (f', _), procs'') \<Rightarrow> Some (Inl f', procs'')
              | Some (Inr ch, procs'') \<Rightarrow> Some (Inr ch, procs''))
           else Some (Inl f, procs'))
      | Some (Inr ch, procs') \<Rightarrow> Some (Inr ch, procs'))"

end
