(* ===== verification/Turn_Loop.thy ===== *)
theory Turn_Loop
  imports Router_Prelude
begin

text \<open>
  The contract the program's waiting loops share -- readiness, a tool's run, the wait for room,
  the reads after a refusal: a state that is over or not, and turns, each of which goes on with
  another state or decides. A loop runs over the turns it is given; without an answer it is still
  waiting when they run out.
\<close>

locale turn_loop =
  fixes run :: "'t list \<Rightarrow> 's \<Rightarrow> 'r option"
    and over :: "'s \<Rightarrow> 'r option"
    and take_turn :: "'t \<Rightarrow> 's \<Rightarrow> 's + 'r"
  assumes run_Nil: "run [] s = over s"
    and run_Cons: "run (t # ts) s =
      (case over s of
         Some r \<Rightarrow> Some r
       | None \<Rightarrow> (case take_turn t s of Inl s' \<Rightarrow> run ts s' | Inr r \<Rightarrow> Some r))"
begin

text \<open>
  How a loop that has an answer came to it: an invariant that relates the turns taken to the
  state they left holds where the answer was found, in a state that was over or by the turn
  that decided.
\<close>

lemma answered:
  assumes "run ts s = Some r" and "P us s"
    and "\<And>us t s s'. P us s \<Longrightarrow> t \<in> set ts \<Longrightarrow> over s = None \<Longrightarrow> take_turn t s = Inl s' \<Longrightarrow> P (us @ [t]) s'"
  shows "\<exists>vs ws s'. ts = vs @ ws \<and> P (us @ vs) s' \<and>
    (over s' = Some r \<or> over s' = None \<and> (\<exists>t ws'. ws = t # ws' \<and> take_turn t s' = Inr r))"
  using assms
proof (induction ts arbitrary: us s)
  case Nil
  then show ?case by (intro exI [of _ "[]"] exI [of _ s]) (simp add: run_Nil)
next
  case (Cons t ts)
  show ?case
  proof (cases "\<exists>s1. over s = None \<and> take_turn t s = Inl s1")
    case True
    then obtain s1 where s1: "over s = None" "take_turn t s = Inl s1" by blast
    have "P (us @ [t]) s1" using Cons.prems(3) [OF Cons.prems(2) _ s1] by simp
    moreover have "run ts s1 = Some r" using Cons.prems(1) s1 by (simp add: run_Cons)
    moreover have "P (us @ [u]) s'"
      if "P us s" "u \<in> set ts" "over s = None" "take_turn u s = Inl s'" for us u s s'
      using Cons.prems(3) [OF that(1) _ that(3,4)] that(2) by simp
    ultimately obtain vs ws s' where "ts = vs @ ws" "P ((us @ [t]) @ vs) s'"
        "over s' = Some r \<or> over s' = None \<and> (\<exists>t ws'. ws = t # ws' \<and> take_turn t s' = Inr r)"
      using Cons.IH [of s1 "us @ [t]"] by blast
    then show ?thesis by (intro exI [of _ "t # vs"] exI [of _ ws] exI [of _ s']) simp
  next
    case False
    with Cons.prems(1,2) show ?thesis
      by (intro exI [of _ "[]"] exI [of _ "t # ts"] exI [of _ s])
        (auto simp: run_Cons split: option.splits sum.splits)
  qed
qed

lemma decided_by:
  assumes "run ts s = Some r" and "\<And>s. over s = None" and "P [] s"
    and "\<And>us t s s'. P us s \<Longrightarrow> t \<in> set ts \<Longrightarrow> take_turn t s = Inl s' \<Longrightarrow> P (us @ [t]) s'"
  obtains vs t ws s' where "ts = vs @ t # ws" and "P vs s'" and "take_turn t s' = Inr r"
  using answered [of ts s r P "[]"] assms by (auto simp: assms(2))

text \<open>A turn that decides in every state is enough.\<close>

lemma decided:
  assumes "t \<in> set ts" and "\<And>s. over s = None \<Longrightarrow> \<exists>r. take_turn t s = Inr r"
  shows "\<exists>r. run ts s = Some r"
  using assms(1)
proof (induction ts arbitrary: s)
  case Nil
  then show ?case by simp
next
  case (Cons u ts)
  show ?case
  proof (cases "t = u")
    case True
    with assms(2) [of s] show ?thesis by (auto simp: run_Cons split: option.split)
  next
    case False
    with Cons have "\<exists>r. run ts s' = Some r" for s' by simp
    then show ?thesis by (auto simp: run_Cons split: option.split sum.split)
  qed
qed

text \<open>So are as many turns as a measure of the state that every turn lowers.\<close>

lemma exhausted:
  assumes "\<And>t s s'. over s = None \<Longrightarrow> take_turn t s = Inl s' \<Longrightarrow> left s' < (left s :: nat)"
    and "\<And>s. left s = 0 \<Longrightarrow> over s \<noteq> None" and "left s \<le> length ts"
  shows "\<exists>r. run ts s = Some r"
  using assms(3)
proof (induction ts arbitrary: s)
  case Nil
  with assms(2) [of s] show ?case by (simp add: run_Nil)
next
  case (Cons t ts)
  have "\<exists>r. run ts s' = Some r" if "over s = None" "take_turn t s = Inl s'" for s'
    using assms(1) [OF that] Cons by simp
  then show ?case by (auto simp: run_Cons split: option.split sum.split)
qed

text \<open>A loop that is never over in itself has no answer exactly when every turn went on.\<close>

lemma unanswered:
  assumes "\<And>s. over s = None" and "\<And>t s s'. take_turn t s = Inl s' \<Longrightarrow> goes_on t"
    and "\<And>t s. goes_on t \<Longrightarrow> \<exists>s'. take_turn t s = Inl s'"
  shows "run ts s = None \<longleftrightarrow> list_all goes_on ts"
proof (induction ts arbitrary: s)
  case Nil
  then show ?case by (simp add: run_Nil assms(1))
next
  case (Cons t ts)
  show ?case
  proof (cases "take_turn t s")
    case (Inl s')
    with Cons assms(2) [OF Inl] show ?thesis by (simp add: run_Cons assms(1))
  next
    case (Inr r)
    with assms(3) [of t s] show ?thesis by (auto simp: run_Cons assms(1))
  qed
qed

end

end
