(* ===== verification/Launch_Facts.thy ===== *)
theory Launch_Facts
  imports Launch Turn_Loop
begin

text \<open>
  What starting a server guarantees: the readiness loop ends by its budget and reports what
  it saw, a lost port race is retried once and only then, a failed start leaves no process,
  and a child's output is passed on whole with its last five lines kept.
\<close>

section \<open>The readiness loop\<close>

definition still_loading :: "entry \<Rightarrow> poll \<Rightarrow> bool" where
  "still_loading e p =
     (p_alive p = Running \<and> p_health p \<noteq> Some 200 \<and> p_elapsed p < startup_budget e)"

lemma attempt_loop_skip:
  "list_all (still_loading e) ps \<Longrightarrow>
    attempt_loop e ever (ps @ qs) =
      attempt_loop e (ever \<or> list_ex (\<lambda>p. p_health p \<noteq> None) ps) qs"
  by (induction ps arbitrary: ever) (auto simp: still_loading_def)

definition ready_turn :: "entry \<Rightarrow> poll \<Rightarrow> bool \<Rightarrow> bool + (failure \<times> bool + unit)" where
  "ready_turn e p ever =
     (if still_loading e p then Inl (ever \<or> p_health p \<noteq> None) else Inr (the (attempt_loop e ever [p])))"

interpretation readying: turn_loop "\<lambda>ps ever. attempt_loop e ever ps" "\<lambda>ever. None" "ready_turn e" for e
  by unfold_locales (auto simp: ready_turn_def still_loading_def split: liveness.splits)

lemma attempt_loop_waits: "attempt_loop e ever ps = None \<longleftrightarrow> list_all (still_loading e) ps"
  by (rule readying.unanswered) (auto simp: ready_turn_def split: if_splits)

lemma attempt_loop_split:
  assumes "attempt_loop e ever ps = Some r"
  obtains us p vs where "ps = us @ p # vs" and "list_all (still_loading e) us"
    and "\<not> still_loading e p"
    and "attempt_loop e (ever \<or> list_ex (\<lambda>p. p_health p \<noteq> None) us) (p # vs) = Some r"
proof -
  let ?P = "\<lambda>us now. list_all (still_loading e) us \<and>
    now = (ever \<or> list_ex (\<lambda>p. p_health p \<noteq> None) us)"
  obtain us p vs now where "ps = us @ p # vs" "?P us now" "ready_turn e p now = Inr r"
    by (rule readying.decided_by [OF assms refl, of ?P]) (auto simp: ready_turn_def split: if_splits)
  moreover from this(3) have "attempt_loop e now (p # vs) = Some r"
    using readying.run_Cons [where e = e and t = p and ts = vs and s = now] by (simp del: attempt_loop.simps)
  ultimately show ?thesis by (intro that) (auto simp: ready_turn_def split: if_splits)
qed

lemma attempt_loop_cases:
  assumes "\<not> still_loading e p"
  shows "(attempt_loop e ever (p # ps) = Some (Inr ()) \<and>
        p_alive p = Running \<and> p_health p = Some 200) \<or>
     (\<exists>m. attempt_loop e ever (p # ps) = Some (Inl (Unavailable m, \<not> ever)) \<and>
        p_alive p \<noteq> Running) \<or>
     (\<exists>m. attempt_loop e ever (p # ps) = Some (Inl (NotReady m, False)) \<and>
        p_alive p = Running \<and> startup_budget e \<le> p_elapsed p)"
  using assms by (auto simp: still_loading_def split: liveness.splits)

lemma attempt_loop_Inr:
  assumes "attempt_loop e ever ps = Some (Inr u)"
  shows "\<exists>us p vs. ps = us @ p # vs \<and> list_all (still_loading e) us \<and>
    p_alive p = Running \<and> p_health p = Some 200"
proof -
  obtain us p vs where "ps = us @ p # vs" "list_all (still_loading e) us"
      "\<not> still_loading e p"
      "attempt_loop e (ever \<or> list_ex (\<lambda>p. p_health p \<noteq> None) us) (p # vs) = Some (Inr u)"
    using attempt_loop_split [OF assms] .
  moreover from attempt_loop_cases [OF this(3)] this(4)
  have "p_alive p = Running" "p_health p = Some 200" by (metis Inl_Inr_False option.inject)+
  ultimately show ?thesis by blast
qed

lemma attempt_loop_lost:
  assumes "attempt_loop e False ps = Some (Inl (f, lost))"
  shows "lost \<longleftrightarrow> (\<exists>us p vs. ps = us @ p # vs \<and> list_all (still_loading e) us \<and>
    p_alive p \<noteq> Running \<and> list_all (\<lambda>q. p_health q = None) us)" (is "lost \<longleftrightarrow> ?race")
proof -
  obtain us p vs where ps: "ps = us @ p # vs" "list_all (still_loading e) us"
      "\<not> still_loading e p"
      "attempt_loop e (list_ex (\<lambda>p. p_health p \<noteq> None) us) (p # vs) = Some (Inl (f, lost))"
    using attempt_loop_split [OF assms] by auto
  have first: "us' = us \<and> p' = p"
    if "us @ p # vs = us' @ p' # vs'" "list_all (still_loading e) us'"
      "\<not> still_loading e p'" for us' p' vs'
    using that ps(2,3)
  proof (induction us arbitrary: us')
    case Nil
    then show ?case by (cases us') auto
  next
    case (Cons u us)
    then show ?case by (cases us') auto
  qed
  have "lost \<longleftrightarrow> p_alive p \<noteq> Running \<and> \<not> list_ex (\<lambda>p. p_health p \<noteq> None) us"
    using attempt_loop_cases [OF ps(3), of "list_ex (\<lambda>p. p_health p \<noteq> None) us" vs] ps(4)
    by auto
  moreover have "?race \<longleftrightarrow> p_alive p \<noteq> Running \<and> \<not> list_ex (\<lambda>p. p_health p \<noteq> None) us"
    using ps(1,2) first
    by (auto simp: list_all_iff list_ex_iff still_loading_def)
  ultimately show ?thesis by simp
qed

lemma attempt_loop_in_time:
  "\<exists>p \<in> set ps. startup_budget e \<le> p_elapsed p \<Longrightarrow> \<exists>r. attempt_loop e ever ps = Some r"
  using attempt_loop_waits [of e ever ps]
  by (cases "attempt_loop e ever ps") (auto simp: list_all_iff still_loading_def)

section \<open>Processes\<close>

lemma spawn_procs:
  assumes "spawn fs binary e root y procs = (r, procs')"
  shows "(\<exists>f. r = Inl f \<and> procs' = procs) \<or>
     (\<exists>ch pid. r = Inr ch \<and> y_spawn y = Inr pid \<and> ch_pid ch = pid \<and> procs' = insert pid procs)"
  using assms by (auto simp: spawn_def split: sum.splits)

lemma attempt_procs:
  assumes "attempt fs binary e root y procs = Some (r, procs')"
    and "\<And>pid. y_spawn y = Inr pid \<Longrightarrow> pid \<notin> procs"
  shows "procs' = (case r of Inl _ \<Rightarrow> procs | Inr ch \<Rightarrow> insert (ch_pid ch) procs)"
proof (cases "spawn fs binary e root y procs")
  case (Pair s qs)
  with assms spawn_procs [OF Pair] show ?thesis
    by (auto simp: attempt_def stop_child_def split: sum.splits option.splits)
qed

lemma attempt_once_only:
  assumes "attempt fs binary e root y procs = Some (Inl (f, True), procs')"
  shows "\<exists>pid. y_spawn y = Inr pid"
  using assms
  by (auto simp: attempt_def spawn_def split: sum.splits option.splits)

section \<open>Output\<close>

lemma pieces_Nil [simp]: "pieces [] = []"
  by (subst pieces.simps) simp

lemma pieces_step: "s \<noteq> [] \<Longrightarrow> pieces s = next_piece s # pieces (drop (length (next_piece s)) s)"
  by (subst pieces.simps) simp

lemma concat_pieces: "concat (pieces s) = s"
proof (induction s rule: pieces.induct)
  case (1 s)
  show ?case
  proof (cases "s = []")
    case False
    with 1 have "concat (pieces s) = next_piece s @ drop (length (next_piece s)) s"
      by (simp add: pieces_step [of s])
    then show ?thesis by (metis append_take_drop_id next_piece_prefix)
  qed simp
qed

lemma pieces_all:
  assumes "\<And>s. s \<noteq> [] \<Longrightarrow> P (next_piece s)"
  shows "p \<in> set (pieces s) \<Longrightarrow> P p"
proof (induction s rule: pieces.induct)
  case (1 s)
  show ?case
  proof (cases "s = []")
    case False
    with 1 assms [of s] show ?thesis by (auto simp: pieces_step [of s])
  qed (use 1 in simp)
qed

lemma pieces_bounded: "p \<in> set (pieces s) \<Longrightarrow> p \<noteq> [] \<and> length p \<le> LONGEST_LINE"
proof (rule pieces_all [where P = "\<lambda>p. p \<noteq> [] \<and> length p \<le> LONGEST_LINE"])
  fix s :: string
  assume "s \<noteq> []"
  then show "next_piece s \<noteq> [] \<and> length (next_piece s) \<le> LONGEST_LINE"
    using length_until_newline [of "take LONGEST_LINE s"] next_piece_pos [of s]
    by (simp add: next_piece_def)
qed

lemma newline_last: "CHR 0x0A \<notin> set (butlast (until_newline s))"
  by (induction s) auto

lemma pieces_one_line: "p \<in> set (pieces s) \<Longrightarrow> CHR 0x0A \<notin> set (butlast p)"
  by (rule pieces_all [where P = "\<lambda>p. CHR 0x0A \<notin> set (butlast p)"])
    (simp_all add: next_piece_def newline_last)

definition last_n :: "nat \<Rightarrow> 'a list \<Rightarrow> 'a list" where
  "last_n n xs = drop (length xs - n) xs"

lemma kept_push_last:
  "kept_push (last_n KEPT xs) x = last_n KEPT (xs @ [x])"
proof (cases "length xs < KEPT")
  case True
  then have "length xs - KEPT = 0" "Suc (length xs) - KEPT = 0" by simp_all
  with True show ?thesis by (simp add: kept_push_def last_n_def)
next
  case False
  then have "Suc (length xs) - KEPT = Suc (length xs - KEPT)" by simp
  with False show ?thesis
    by (simp add: kept_push_def last_n_def tl_drop drop_Suc KEPT_def)
qed

lemma drain_steps:
  "foldl passed_on (ls, last_n KEPT ls) ps =
     (ls @ map (\<lambda>p. drop_line_end (utf8_lossy p)) ps,
      last_n KEPT (ls @ map (\<lambda>p. drop_line_end (utf8_lossy p)) ps))"
proof (induction ps arbitrary: ls)
  case Nil
  then show ?case by simp
next
  case (Cons p ps)
  show ?case using Cons [of "ls @ [drop_line_end (utf8_lossy p)]"]
    by (simp add: passed_on_def to_sink_def to_kept_def kept_push_last)
qed

section \<open>What a start leaves\<close>

lemma start_processes:
  assumes "start fs binary e root y y' procs = Some (r, procs')"
    and "\<And>pid. y_spawn y = Inr pid \<or> y_spawn y' = Inr pid \<Longrightarrow> pid \<notin> procs"
  shows "procs' = (case r of Inl _ \<Rightarrow> procs | Inr ch \<Rightarrow> insert (ch_pid ch) procs)"
proof -
  obtain r1 procs1 where one: "attempt fs binary e root y procs = Some (r1, procs1)"
    using assms(1) by (auto simp: start_def split: option.splits)
  have p1: "procs1 = (case r1 of Inl _ \<Rightarrow> procs | Inr ch \<Rightarrow> insert (ch_pid ch) procs)"
    using attempt_procs [OF one] assms(2) by blast
  show ?thesis
  proof (cases "\<exists>f. r1 = Inl (f, True)")
    case True
    with assms(1) one p1 obtain r2 where
        two: "attempt fs binary e root y' procs = Some (r2, procs')"
      and r: "r = (case r2 of Inl (f, _) \<Rightarrow> Inl f | Inr ch \<Rightarrow> Inr ch)"
      by (auto simp: start_def split: option.splits sum.splits)
    have "procs' = (case r2 of Inl _ \<Rightarrow> procs | Inr ch \<Rightarrow> insert (ch_pid ch) procs)"
      using attempt_procs [OF two] assms(2) by blast
    with r show ?thesis by (auto split: sum.splits)
  next
    case False
    with assms(1) one p1 show ?thesis
      by (auto simp: start_def split: option.splits sum.splits if_splits)
  qed
qed

lemma attempt_spawned:
  assumes "attempt fs binary e root y procs = Some (Inr ch, procs')"
  shows "y_spawn y = Inr (ch_pid ch)"
  using assms by (auto simp: attempt_def spawn_def split: sum.splits option.splits)

lemma start_spawned:
  assumes "start fs binary e root y y' procs = Some (Inr ch, procs')"
  shows "y_spawn y = Inr (ch_pid ch) \<or> y_spawn y' = Inr (ch_pid ch)"
  using assms attempt_spawned
  by (fastforce simp: start_def split: option.splits sum.splits if_splits)

section \<open>Properties\<close>

text \<open>C19: A start that fails leaves exactly the processes there were, and one that succeeds
  adds exactly the child it hands back, however often it had to spawn.\<close>

theorem start_leaves_no_orphan:
  assumes "start fs binary e root y y' procs = Some (r, procs')"
    and "\<And>pid. y_spawn y = Inr pid \<or> y_spawn y' = Inr pid \<Longrightarrow> pid \<notin> procs"
  shows "procs' = (case r of Inl _ \<Rightarrow> procs | Inr ch \<Rightarrow> insert (ch_pid ch) procs)"
  using assms by (rule start_processes)

theorem start_leaves_no_orphan_witness:
  "let dies = \<lparr>y_port = Inr 8080, y_spawn = Inr 9, y_polls = [\<lparr>p_alive = Exited ''1'',
         p_health = None, p_elapsed = 0, p_said = []\<rparr>]\<rparr>;
       answers = \<lparr>y_port = Inr 8081, y_spawn = Inr 10, y_polls = [\<lparr>p_alive = Running,
         p_health = Some 200, p_elapsed = 0, p_said = []\<rparr>]\<rparr>
   in \<exists>r procs'. start (\<lambda>_. True, None) ''s'' (plain_entry ''m'' 5 OnDemand) ''r'' dies answers {7}
        = Some (r, procs') \<and>
      procs' = (case r of Inl _ \<Rightarrow> {7} | Inr ch \<Rightarrow> insert (ch_pid ch) {7})"
proof -
  let ?dies = "\<lparr>y_port = Inr 8080, y_spawn = Inr 9, y_polls = [\<lparr>p_alive = Exited ''1'',
         p_health = None, p_elapsed = 0, p_said = []\<rparr>]\<rparr>"
  let ?answers = "\<lparr>y_port = Inr 8081, y_spawn = Inr 10, y_polls = [\<lparr>p_alive = Running,
         p_health = Some 200, p_elapsed = 0, p_said = []\<rparr>]\<rparr>"
  have run: "start (\<lambda>_. True, None) ''s'' (plain_entry ''m'' 5 OnDemand) ''r'' ?dies ?answers {7} =
      Some (Inr \<lparr>ch_id = ''m'', ch_port = 8081, ch_pid = 10\<rparr>, insert 10 ({7, 9} - {9}))"
    by (simp add: start_def attempt_def stop_child_def spawn_def model_file_def for_entry_def
        plain_entry_def Let_def insert_commute)
  have "insert 10 ({7, 9} - {9}) =
      (case Inr \<lparr>ch_id = ''m'', ch_port = 8081, ch_pid = 10\<rparr> :: failure + child of
         Inl _ \<Rightarrow> {7} | Inr ch \<Rightarrow> insert (ch_pid ch) {7})"
    by (rule start_leaves_no_orphan [OF run]) auto
  with run show ?thesis unfolding Let_def by blast
qed

text \<open>C26: The readiness loop ends by the entry's startup budget: with a poll past it among
  the polls, it has an answer; it answers ready only on a live child whose health was 200,
  and otherwise every earlier poll found it still loading.\<close>

theorem readiness_is_bounded:
  assumes "\<exists>p \<in> set ps. startup_budget e \<le> p_elapsed p"
  shows "\<exists>r us p vs. attempt_loop e False ps = Some r \<and> ps = us @ p # vs \<and>
     list_all (still_loading e) us \<and>
     (case r of
        Inr _ \<Rightarrow> p_alive p = Running \<and> p_health p = Some 200
      | Inl (Unavailable _, lost) \<Rightarrow> p_alive p \<noteq> Running \<and>
          (lost \<longleftrightarrow> list_all (\<lambda>q. p_health q = None) us)
      | Inl (NotReady _, lost) \<Rightarrow> \<not> lost \<and> p_alive p = Running \<and>
          startup_budget e \<le> p_elapsed p
      | Inl _ \<Rightarrow> False)"
proof -
  obtain r where r: "attempt_loop e False ps = Some r"
    using attempt_loop_in_time [OF assms] by blast
  then obtain us p vs where ps: "ps = us @ p # vs" "list_all (still_loading e) us"
      "\<not> still_loading e p"
      "attempt_loop e (list_ex (\<lambda>p. p_health p \<noteq> None) us) (p # vs) = Some r"
    using attempt_loop_split [OF r] by auto
  show ?thesis
    using r ps attempt_loop_cases [OF ps(3), of "list_ex (\<lambda>p. p_health p \<noteq> None) us" vs]
    by (intro exI [of _ r] exI [of _ us] exI [of _ p] exI [of _ vs])
      (auto simp: list_all_iff list_ex_iff)
qed

theorem readiness_is_bounded_witness:
  "\<exists>r us p vs. attempt_loop (plain_entry ''m'' 5 OnDemand) False
       [\<lparr>p_alive = Running, p_health = Some 503, p_elapsed = 10 ^ 12, p_said = []\<rparr>] = Some r \<and>
     [\<lparr>p_alive = Running, p_health = Some 503, p_elapsed = 10 ^ 12, p_said = []\<rparr>] = us @ p # vs \<and>
     list_all (still_loading (plain_entry ''m'' 5 OnDemand)) us"
proof -
  let ?ps = "[\<lparr>p_alive = Running, p_health = Some 503, p_elapsed = 10 ^ 12, p_said = []\<rparr>]"
  have "\<exists>p \<in> set ?ps. startup_budget (plain_entry ''m'' 5 OnDemand) \<le> p_elapsed p"
    by (simp add: startup_budget_def plain_entry_def)
  from readiness_is_bounded [OF this] show ?thesis by blast
qed

text \<open>One stream alone: the pieces put back together are the stream.\<close>

lemma output_is_passed_on_and_kept:
  "concat (pieces s) = s \<and>
   list_all (\<lambda>p. p \<noteq> [] \<and> length p \<le> 4096 \<and> CHR 0x0A \<notin> set (butlast p)) (pieces s) \<and>
   drain s = (map (\<lambda>p. drop_line_end (utf8_lossy p)) (pieces s),
     last_n 5 (map (\<lambda>p. drop_line_end (utf8_lossy p)) (pieces s)))"
proof -
  have "drain s = (map (\<lambda>p. drop_line_end (utf8_lossy p)) (pieces s),
      last_n KEPT (map (\<lambda>p. drop_line_end (utf8_lossy p)) (pieces s)))"
    using drain_steps [of "[]" "pieces s"] by (simp add: drain_def last_n_def)
  with concat_pieces [of s] pieces_bounded [of _ s] pieces_one_line [of _ s] show ?thesis
    by (auto simp: list_all_iff KEPT_def LONGEST_LINE_def)
qed

text \<open>What a step gives to the sink, what it keeps, and the lines of a stream.\<close>

fun sunk :: "stream_event \<Rightarrow> string option" where
  "sunk (Passes piece) = Some (drop_line_end (utf8_lossy piece))"
| "sunk _ = None"

fun stored :: "stream_event \<Rightarrow> string option" where
  "stored (Keeps piece) = Some (drop_line_end (utf8_lossy piece))"
| "stored _ = None"

definition stream_lines :: "string \<Rightarrow> string list" where
  "stream_lines stream = map (\<lambda>p. drop_line_end (utf8_lossy p)) (pieces stream)"

lemma stream_steps_lines:
  "List.map_filter sunk (stream_steps s) = stream_lines s"
  "List.map_filter stored (stream_steps s) = stream_lines s"
proof -
  have "List.map_filter sunk (concat (map (\<lambda>p. [Passes p, Keeps p]) ps) @ [StreamEnds]) =
      map (\<lambda>p. drop_line_end (utf8_lossy p)) ps"
    "List.map_filter stored (concat (map (\<lambda>p. [Passes p, Keeps p]) ps) @ [StreamEnds]) =
      map (\<lambda>p. drop_line_end (utf8_lossy p)) ps" for ps
    by (induction ps) (simp_all add: List.map_filter_simps)
  then show "List.map_filter sunk (stream_steps s) = stream_lines s"
    "List.map_filter stored (stream_steps s) = stream_lines s"
    by (simp_all add: stream_steps_def stream_lines_def)
qed

lemma stream_steps_ends: "count_list (stream_steps s) StreamEnds = 1"
  by (simp add: stream_steps_def count_list_0_iff)

lemma stream_run:
  "foldl stream_step \<lparr>kept_lines = (ps, last_n KEPT ls), open_streams = n\<rparr> ks =
     \<lparr>kept_lines = (ps @ List.map_filter sunk ks, last_n KEPT (ls @ List.map_filter stored ks)),
      open_streams = n - count_list ks StreamEnds\<rparr>"
proof (induction ks arbitrary: ps ls n)
  case Nil
  then show ?case by (simp add: List.map_filter_simps)
next
  case (Cons k ks)
  show ?case
  proof (cases k)
    case (Passes p)
    with Cons [of "ps @ [drop_line_end (utf8_lossy p)]" ls n] show ?thesis
      by (simp add: to_sink_def List.map_filter_simps)
  next
    case (Keeps p)
    with Cons [of ps "ls @ [drop_line_end (utf8_lossy p)]" n] show ?thesis
      by (simp add: to_kept_def kept_push_last List.map_filter_simps)
  next
    case StreamEnds
    with Cons [of ps ls "n - 1"] show ?thesis by (simp add: List.map_filter_simps)
  qed
qed

lemma map_filter_shuffles:
  "zs \<in> shuffles xs ys \<Longrightarrow>
     List.map_filter f zs \<in> shuffles (List.map_filter f xs) (List.map_filter f ys)"
proof (induction xs ys arbitrary: zs rule: shuffles.induct)
  case (3 x xs y ys)
  then consider zs' where "zs = x # zs'" "zs' \<in> shuffles xs (y # ys)"
    | zs' where "zs = y # zs'" "zs' \<in> shuffles (x # xs) ys"
    by auto
  then show ?case
  proof cases
    case 1
    with 3 show ?thesis
      by (auto simp: List.map_filter_simps Cons_in_shuffles_leftI split: option.splits)
  next
    case 2
    with 3 show ?thesis
      by (auto simp: List.map_filter_simps Cons_in_shuffles_rightI split: option.splits)
  qed
qed (simp_all add: List.map_filter_simps)

lemma last_shuffles:
  "zs \<in> shuffles xs ys \<Longrightarrow> zs \<noteq> [] \<Longrightarrow>
     (xs \<noteq> [] \<and> last zs = last xs) \<or> (ys \<noteq> [] \<and> last zs = last ys)"
proof (induction xs ys arbitrary: zs rule: shuffles.induct)
  case (3 x xs y ys)
  then consider zs' where "zs = x # zs'" "zs' \<in> shuffles xs (y # ys)"
    | zs' where "zs = y # zs'" "zs' \<in> shuffles (x # xs) ys"
    by auto
  then show ?case
  proof cases
    case 1
    with 3(1) [of zs'] show ?thesis by (cases "zs' = []") auto
  next
    case 2
    with 3(2) [of zs'] show ?thesis by (cases "zs' = []") auto
  qed
qed simp_all

text \<open>C39: A child's streams are cut into pieces that put back together are the stream, none
  empty, none longer than 4096 bytes and none with a line feed before its end. However the two
  threads draining them interleave, each piece of either stream is given to the sink once, as a
  line, in that stream's order; the lines are kept in an order that is also an interleaving of
  the two, though not always the sink's; and once both streams have ended, and not before unless
  the settling time is over, the last five of those kept are what a failure quotes.\<close>

theorem both_streams_are_passed_on:
  assumes "ks \<in> shuffles (stream_steps out) (stream_steps err)"
  shows "(\<forall>s \<in> {out, err}. concat (pieces s) = s \<and>
       list_all (\<lambda>p. p \<noteq> [] \<and> length p \<le> 4096 \<and> CHR 0x0A \<notin> set (butlast p)) (pieces s)) \<and>
     (\<exists>passed \<in> shuffles (stream_lines out) (stream_lines err).
      \<exists>ordered \<in> shuffles (stream_lines out) (stream_lines err).
        kept_lines (foldl stream_step spawned_kept ks) = (passed, last_n 5 ordered) \<and>
        said_last settled (foldl stream_step spawned_kept ks) = Some (last_n 5 ordered)) \<and>
     (ks = earlier @ later \<and> later \<noteq> [] \<longrightarrow>
       said_last False (foldl stream_step spawned_kept earlier) = None)"
proof -
  have run: "foldl stream_step spawned_kept us =
      \<lparr>kept_lines = (List.map_filter sunk us, last_n 5 (List.map_filter stored us)),
       open_streams = 2 - count_list us StreamEnds\<rparr>" for us
    using stream_run [of "[]" "[]" 2 us] by (simp add: spawned_kept_def last_n_def KEPT_def)
  have "mset ks = mset (stream_steps out) + mset (stream_steps err)"
    using assms by (rule mset_shuffles)
  then have "count (mset ks) StreamEnds = 2"
    using stream_steps_ends by (simp add: count_mset)
  then have two: "count_list ks StreamEnds = 2" by (simp add: count_mset)
  have orders: "List.map_filter sunk ks \<in> shuffles (stream_lines out) (stream_lines err)"
    "List.map_filter stored ks \<in> shuffles (stream_lines out) (stream_lines err)"
    using map_filter_shuffles [OF assms, of sunk] map_filter_shuffles [OF assms, of stored]
    by (simp_all add: stream_steps_lines)
  have "count_list earlier StreamEnds < 2" if "ks = earlier @ later" "later \<noteq> []"
  proof -
    have "last ks = StreamEnds"
      using last_shuffles [OF assms] that by (auto simp: stream_steps_def)
    with that have "StreamEnds \<in> set later" by (metis last_appendR last_in_set)
    then have "count_list later StreamEnds \<noteq> 0" by (simp add: count_list_0_iff)
    with that(1) two show ?thesis by simp
  qed
  then have "said_last False (foldl stream_step spawned_kept earlier) = None"
    if "ks = earlier @ later" "later \<noteq> []"
    using that by (simp add: run said_last_def)
  moreover have "kept_lines (foldl stream_step spawned_kept ks) =
      (List.map_filter sunk ks, last_n 5 (List.map_filter stored ks))"
    by (simp add: run)
  moreover have "said_last settled (foldl stream_step spawned_kept ks) =
      Some (last_n 5 (List.map_filter stored ks))"
    by (simp add: run said_last_def two)
  ultimately show ?thesis using orders output_is_passed_on_and_kept by blast
qed

text \<open>The sink hears the second stream's line first, and the first stream's is kept first.\<close>

theorem both_streams_are_passed_on_witness:
  "\<exists>ordered \<in> shuffles (stream_lines ''a'') (stream_lines ''b'').
     said_last False (foldl stream_step spawned_kept
       [Passes ''b'', Passes ''a'', Keeps ''a'', Keeps ''b'', StreamEnds, StreamEnds]) =
         Some (last_n 5 ordered)"
proof -
  have "stream_steps ''a'' = [Passes ''a'', Keeps ''a'', StreamEnds]"
    "stream_steps ''b'' = [Passes ''b'', Keeps ''b'', StreamEnds]"
    by (simp_all add: stream_steps_def pieces_step next_piece_def LONGEST_LINE_def)
  then have "[Passes ''b'', Passes ''a'', Keeps ''a'', Keeps ''b'', StreamEnds, StreamEnds]
      \<in> shuffles (stream_steps ''a'') (stream_steps ''b'')"
    by simp
  from both_streams_are_passed_on [OF this, of False] show ?thesis by blast
qed

end
