(* ===== verification/Slot_Cell.thy ===== *)
theory Slot_Cell
  imports Launch Admission
begin

text \<open>
  One entry's slot, \<open>proxy/loaded.rs\<close>, and the shared handles it counts readers by. The
  heap maps a child (its process identifier) to its \<open>Arc\<close>: how many handles there are and
  whether the process has exited. A child whose last handle is dropped leaves the heap, which
  is \<open>Child\<close>'s destructor killing and reaping its process. Each operation is what one hold
  of the slot's lock does.
\<close>

section \<open>Handles\<close>

record handle =
  strong :: nat
  process :: liveness

type_synonym heap = "nat \<rightharpoonup> handle"

definition arc_new :: "nat \<Rightarrow> heap \<Rightarrow> heap" where
  "arc_new c h = h(c \<mapsto> \<lparr>strong = 1, process = Running\<rparr>)"

definition arc_clone :: "nat \<Rightarrow> heap \<Rightarrow> heap" where
  "arc_clone c h =
     (case h c of None \<Rightarrow> h | Some x \<Rightarrow> h(c \<mapsto> x\<lparr>strong := strong x + 1\<rparr>))"

definition arc_drop :: "nat \<Rightarrow> heap \<Rightarrow> heap" where
  "arc_drop c h =
     (case h c of
        None \<Rightarrow> h
      | Some x \<Rightarrow> if strong x \<le> 1 then h(c := None) else h(c \<mapsto> x\<lparr>strong := strong x - 1\<rparr>))"

definition strong_count :: "heap \<Rightarrow> nat \<Rightarrow> nat" where
  "strong_count h c = (case h c of None \<Rightarrow> 0 | Some x \<Rightarrow> strong x)"

definition busy :: "heap \<Rightarrow> nat \<Rightarrow> bool" where
  "busy h c = (strong_count h c > 1)"

section \<open>The slot\<close>

record slot_loaded =
  s_child :: nat
  s_last_used :: instant
  s_measured :: measurement
  s_guest :: bool

type_synonym slot = "slot_loaded option"

text \<open>\<open>Arc::get_mut\<close> succeeds only on the sole handle, so a child being read goes unchecked.\<close>

definition exited :: "heap \<Rightarrow> slot_loaded \<Rightarrow> string option" where
  "exited h held =
     (case h (s_child held) of
        None \<Rightarrow> None
      | Some x \<Rightarrow>
          if strong x = 1
          then (case process x of Exited status \<Rightarrow> Some status | Running \<Rightarrow> None)
          else None)"

definition live_child :: "heap \<Rightarrow> slot \<Rightarrow> instant \<Rightarrow> heap \<times> slot \<times> nat option" where
  "live_child h cell now =
     (case cell of
        None \<Rightarrow> (h, None, None)
      | Some held \<Rightarrow>
          if exited h held \<noteq> None then (arc_drop (s_child held) h, None, None)
          else (arc_clone (s_child held) h, Some (held\<lparr>s_last_used := now\<rparr>), Some (s_child held)))"

definition take_if_exited :: "heap \<Rightarrow> slot \<Rightarrow> slot \<times> (slot_loaded \<times> string) option" where
  "take_if_exited h cell =
     (case cell of
        None \<Rightarrow> (None, None)
      | Some held \<Rightarrow>
          (case exited h held of
             None \<Rightarrow> (cell, None)
           | Some status \<Rightarrow> (None, Some (held, status))))"

datatype took = Taken slot_loaded | Busy | Empty

definition take_if_idle :: "heap \<Rightarrow> slot \<Rightarrow> (slot_loaded \<Rightarrow> bool) \<Rightarrow> slot \<times> took" where
  "take_if_idle h cell also =
     (case cell of
        None \<Rightarrow> (None, Empty)
      | Some held \<Rightarrow>
          if busy h (s_child held) \<or> \<not> also held then (cell, Busy)
          else (None, Taken held))"

section \<open>What they do\<close>

lemma strong_count_new [simp]:
  "strong_count (arc_new c h) c' = (if c' = c then 1 else strong_count h c')"
  by (simp add: strong_count_def arc_new_def)

lemma strong_count_clone:
  "h c \<noteq> None \<Longrightarrow>
    strong_count (arc_clone c h) c' = (if c' = c then Suc (strong_count h c) else strong_count h c')"
  by (auto simp: strong_count_def arc_clone_def split: option.splits)

lemma strong_count_drop:
  "strong_count (arc_drop c h) c' = (if c' = c then strong_count h c - 1 else strong_count h c')"
  by (auto simp: strong_count_def arc_drop_def split: option.splits)

lemma arc_drop_None_iff:
  "arc_drop c h c' = None \<longleftrightarrow> h c' = None \<or> (c' = c \<and> strong_count h c \<le> 1)"
  by (auto simp: strong_count_def arc_drop_def split: option.splits)

lemma arc_clone_None_iff [simp]: "arc_clone c h c' = None \<longleftrightarrow> h c' = None"
  by (auto simp: arc_clone_def split: option.splits)

lemma arc_new_None_iff [simp]: "arc_new c h c' = None \<longleftrightarrow> c' \<noteq> c \<and> h c' = None"
  by (auto simp: arc_new_def)

text \<open>No handle counts none: the heap holds no child without one.\<close>

definition heap_ok :: "heap \<Rightarrow> bool" where
  "heap_ok h = (\<forall>c x. h c = Some x \<longrightarrow> 0 < strong x)"

lemma heap_ok_count: "heap_ok h \<Longrightarrow> h c = None \<longleftrightarrow> strong_count h c = 0"
  by (auto simp: heap_ok_def strong_count_def split: option.splits)

lemma heap_ok_ops [simp]:
  "heap_ok h \<Longrightarrow> heap_ok (arc_new c h)"
  "heap_ok h \<Longrightarrow> heap_ok (arc_clone c h)"
  "heap_ok h \<Longrightarrow> heap_ok (arc_drop c h)"
  by (auto simp: heap_ok_def arc_new_def arc_clone_def arc_drop_def split: option.splits if_splits)

lemma exited_SomeD:
  "exited h held = Some st \<Longrightarrow>
    strong_count h (s_child held) = 1 \<and> (\<exists>x. h (s_child held) = Some x \<and> process x = Exited st)"
  by (auto simp: exited_def strong_count_def split: option.splits if_splits liveness.splits)

lemma exited_not_busy: "exited h held = Some st \<Longrightarrow> \<not> busy h (s_child held)"
  using exited_SomeD [of h held st] by (simp add: busy_def)

lemma take_if_idle_cases:
  "take_if_idle h cell also = (cell', r) \<longleftrightarrow>
     (cell = None \<and> cell' = None \<and> r = Empty) \<or>
     (\<exists>held. cell = Some held \<and> (busy h (s_child held) \<or> \<not> also held) \<and> cell' = cell \<and> r = Busy) \<or>
     (\<exists>held. cell = Some held \<and> \<not> busy h (s_child held) \<and> also held \<and> cell' = None \<and>
        r = Taken held)"
  by (auto simp: take_if_idle_def split: option.splits)

lemma take_if_exited_cases:
  "take_if_exited h cell = (cell', r) \<longleftrightarrow>
     (cell' = cell \<and> r = None \<and> (\<forall>held. cell = Some held \<longrightarrow> exited h held = None)) \<or>
     (\<exists>held st. cell = Some held \<and> exited h held = Some st \<and> cell' = None \<and> r = Some (held, st))"
  by (auto simp: take_if_exited_def split: option.splits)

end
