(* ===== verification/Slot_Table.thy ===== *)
theory Slot_Table
  imports Slot_Cell Waiting_Line Windows
begin

text \<open>
  The table of slots and what is done to it: \<open>proxy/slots/table.rs\<close>, \<open>lease.rs\<close>,
  \<open>view.rs\<close>, \<open>sweep.rs\<close>, \<open>start.rs\<close>, and the unloading of \<open>admit.rs\<close>. The state is one
  record: the map of slots, the line under the admission lock, the bell's count, the heap of
  children, the leases requests hold on them, and what was said to the operator. Looking a slot up and locking it is one step:
  a slot a reload forgot was empty, and only an admission, which holds the lock a reload
  takes, ever fills one.
\<close>

section \<open>The operator's voice\<close>

text \<open>
  What the router tells its operator (\<open>voice.rs\<close>), a line at a time on one of two sides. The
  binary decides where the sides go; here they are kept in the order they were said.
\<close>

datatype spoken = Said string | Complained string

section \<open>State\<close>

record slots =
  by_id :: "string \<rightharpoonup> slot"
  line :: queue
  rung :: nat
  in_line :: nat
  heap_of :: heap
  leases :: "nat multiset"
  slots_budget :: budget
  slots_wait :: wait
  said :: "spoken list"

definition slots_new :: "catalog \<Rightarrow> budget \<Rightarrow> wait \<Rightarrow> slots" where
  "slots_new c b w =
     \<lparr>by_id = map_of (map (\<lambda>e. (e_id e, None)) (c_entries c)), line = queue_default, rung = 0,
      in_line = 0, heap_of = (\<lambda>_. None), leases = {#}, slots_budget = b, slots_wait = w, said = []\<rparr>"

definition put_slot :: "string \<Rightarrow> slot \<Rightarrow> slots \<Rightarrow> slots" where
  "put_slot i cell s = s\<lparr>by_id := (by_id s)(i \<mapsto> cell)\<rparr>"

definition on_heap :: "(heap \<Rightarrow> heap) \<Rightarrow> slots \<Rightarrow> slots" where
  "on_heap f s = s\<lparr>heap_of := f (heap_of s)\<rparr>"

definition say :: "string \<Rightarrow> slots \<Rightarrow> slots" where
  "say l s = s\<lparr>said := said s @ [Said l]\<rparr>"

definition complain :: "string \<Rightarrow> slots \<Rightarrow> slots" where
  "complain l s = s\<lparr>said := said s @ [Complained l]\<rparr>"

text \<open>Each side hears its own lines and no other.\<close>

definition heard_said :: "slots \<Rightarrow> string list" where
  "heard_said s = List.map_filter (\<lambda>x. case x of Said l \<Rightarrow> Some l | Complained _ \<Rightarrow> None) (said s)"

definition heard_complained :: "slots \<Rightarrow> string list" where
  "heard_complained s =
     List.map_filter (\<lambda>x. case x of Complained l \<Rightarrow> Some l | Said _ \<Rightarrow> None) (said s)"

lemma heard_apart [simp]:
  "heard_said (say l s) = heard_said s @ [l]" "heard_complained (say l s) = heard_complained s"
  "heard_complained (complain l s) = heard_complained s @ [l]" "heard_said (complain l s) = heard_said s"
  by (simp_all add: heard_said_def heard_complained_def say_def complain_def map_filter_append
      List.map_filter_simps)

text \<open>\<open>Freed::ring\<close>, and the destructor of a \<open>Lease\<close>: the handle goes first, then the ring.\<close>

definition ring :: "slots \<Rightarrow> slots" where
  "ring s = s\<lparr>rung := rung s + 1\<rparr>"

definition lease_drop :: "nat \<Rightarrow> slots \<Rightarrow> slots" where
  "lease_drop c s = ring (on_heap (arc_drop c) (s\<lparr>leases := leases s - {#c#}\<rparr>))"

definition lease_new :: "nat \<Rightarrow> slots \<Rightarrow> slots" where
  "lease_new c s = s\<lparr>leases := add_mset c (leases s)\<rparr>"

section \<open>The table\<close>

text \<open>\<open>order\<close> is the order the hash map yields its keys in.\<close>

definition held_in :: "slots \<Rightarrow> string \<Rightarrow> slot_loaded option" where
  "held_in s i = (case by_id s i of Some (Some held) \<Rightarrow> Some held | _ \<Rightarrow> None)"

definition clear :: "string list \<Rightarrow> slots \<Rightarrow> slots" where
  "clear order s =
     (let taken = List.map_filter (held_in s) order in
      s\<lparr>by_id := (\<lambda>i. if i \<in> set order then map_option (\<lambda>_. None) (by_id s i) else by_id s i),
        heap_of := fold (\<lambda>held. arc_drop (s_child held)) taken (heap_of s)\<rparr>)"

definition resync :: "catalog \<Rightarrow> slots \<Rightarrow> slots" where
  "resync c s =
     (let added = fold (\<lambda>e m. if m (e_id e) = None then m(e_id e \<mapsto> None) else m)
                    (c_entries c) (by_id s);
          kept = (\<lambda>i. case added i of
                    None \<Rightarrow> None
                  | Some cell \<Rightarrow>
                      if catalog_entry c i \<noteq> None \<or> cell \<noteq> None then Some cell else None) in
      ring (s\<lparr>line := (line s)\<lparr>reloads := reloads (line s) + 1\<rparr>, by_id := kept\<rparr>))"

section \<open>Views\<close>

definition snapshot :: "catalog \<Rightarrow> (entry \<Rightarrow> slot_loaded \<Rightarrow> 'a) \<Rightarrow> slots \<Rightarrow> 'a list" where
  "snapshot c project s =
     List.map_filter (\<lambda>e. map_option (project e) (held_in s (e_id e))) (c_entries c)"

definition memory_view :: "catalog \<Rightarrow> slots \<Rightarrow> (string \<times> u64 option) list" where
  "memory_view c s = snapshot c (\<lambda>e held. (e_id e, largest_mib (s_measured held))) s"

definition as_held :: "slots \<Rightarrow> entry \<Rightarrow> slot_loaded \<Rightarrow> loaded" where
  "as_held s e held =
     loaded_of e (busy (heap_of s) (s_child held)) (s_last_used held) (s_measured held)"

definition held :: "catalog \<Rightarrow> slots \<Rightarrow> loaded list" where
  "held c s = snapshot c (as_held s) s"

definition held_and_guests :: "catalog \<Rightarrow> slots \<Rightarrow> loaded list \<times> string list" where
  "held_and_guests c s =
     (let both = snapshot c (\<lambda>e h. (as_held s e h, if s_guest h then Some (e_id e) else None)) s in
      (map fst both, List.map_filter snd both))"

definition loaded_ids :: "catalog \<Rightarrow> slots \<Rightarrow> string list" where
  "loaded_ids c s = snapshot c (\<lambda>e _. e_id e) s"

section \<open>Sweeps\<close>

text \<open>Each slot is emptied under its lock, and its child dropped after.\<close>

fun swept ::
    "(heap \<Rightarrow> slot \<Rightarrow> slot \<times> (slot_loaded \<times> 'a) option) \<Rightarrow> string list \<Rightarrow> slots \<Rightarrow>
     slots \<times> (string \<times> 'a) list" where
  "swept f [] s = (s, [])"
| "swept f (i # is) s =
     (case by_id s i of
        None \<Rightarrow> swept f is s
      | Some cell \<Rightarrow>
          (case f (heap_of s) cell of
             (cell', None) \<Rightarrow> swept f is (put_slot i cell' s)
           | (cell', Some (child, x)) \<Rightarrow>
               (case swept f is (on_heap (arc_drop (s_child child)) (put_slot i cell' s)) of
                  (s', rest) \<Rightarrow> (s', (i, x) # rest))))"

definition exited_text :: "string \<Rightarrow> string \<Rightarrow> string" where
  "exited_text i status =
     i @ '' exited on its own ('' @ status
       @ ''); its slot was emptied, and the next request for it starts it again''"

definition sweep_exited :: "catalog \<Rightarrow> slots \<Rightarrow> slots" where
  "sweep_exited c s =
     (case swept take_if_exited (ids_of c) s of
        (s', gone) \<Rightarrow> fold (\<lambda>(i, status). say (exited_text i status)) gone s')"

definition stale :: "instant \<Rightarrow> instant \<Rightarrow> duration \<Rightarrow> bool" where
  "stale now used d = (d \<le> now - used)"

definition take_stale ::
    "instant \<Rightarrow> duration \<Rightarrow> heap \<Rightarrow> slot \<Rightarrow> slot \<times> (slot_loaded \<times> unit) option" where
  "take_stale now d h cell =
     (case take_if_idle h cell (\<lambda>x. stale now (s_last_used x) d) of
        (cell', Taken child) \<Rightarrow> (cell', Some (child, ()))
      | (cell', _) \<Rightarrow> (cell', None))"

definition sweep_idle ::
    "catalog \<Rightarrow> idle_window \<Rightarrow> instant \<Rightarrow> slots \<Rightarrow> slots \<times> string list" where
  "sweep_idle c w now s =
     (case window_duration w of
        None \<Rightarrow> (s, [])
      | Some d \<Rightarrow>
          (case swept (take_stale now d) (expired w (held c s) now) s of
             (s', gone) \<Rightarrow> (s', map fst gone)))"

definition let_go :: "string \<Rightarrow> slots \<Rightarrow> slots \<times> bool" where
  "let_go i s =
     (case by_id s i of
        None \<Rightarrow> (s, True)
      | Some cell \<Rightarrow>
          (case take_if_idle (heap_of s) cell (\<lambda>_. True) of
             (cell', Taken child) \<Rightarrow> (on_heap (arc_drop (s_child child)) (put_slot i cell' s), True)
           | (cell', Empty) \<Rightarrow> (put_slot i cell' s, True)
           | (cell', Busy) \<Rightarrow> (put_slot i cell' s, False)))"

definition touch :: "string \<Rightarrow> instant \<Rightarrow> slots \<Rightarrow> slots" where
  "touch i now s =
     (case held_in s i of
        None \<Rightarrow> s
      | Some h \<Rightarrow> put_slot i (Some (h\<lparr>s_last_used := now\<rparr>)) s)"

section \<open>Handing out a running child, and unloading\<close>

definition running :: "entry \<Rightarrow> instant \<Rightarrow> slots \<Rightarrow> slots \<times> nat option" where
  "running e now s =
     (case by_id s (e_id e) of
        None \<Rightarrow> (s, None)
      | Some cell \<Rightarrow>
          (case live_child (heap_of s) cell now of
             (h, cell', None) \<Rightarrow> (put_slot (e_id e) cell' (s\<lparr>heap_of := h\<rparr>), None)
           | (h, cell', Some child) \<Rightarrow>
               (lease_new child (put_slot (e_id e) cell' (s\<lparr>heap_of := h\<rparr>)), Some child)))"

text \<open>The blocker, when one of the entries had gained a reader.\<close>

fun unload :: "string list \<Rightarrow> slots \<Rightarrow> slots \<times> string option" where
  "unload [] s = (s, None)"
| "unload (i # is) s =
     (case by_id s i of
        None \<Rightarrow> unload is s
      | Some cell \<Rightarrow>
          (case take_if_idle (heap_of s) cell (\<lambda>_. True) of
             (cell', Taken child) \<Rightarrow>
               unload is (on_heap (arc_drop (s_child child)) (put_slot i cell' s))
           | (cell', Busy) \<Rightarrow> (put_slot i cell' s, Some i)
           | (cell', Empty) \<Rightarrow> unload is (put_slot i cell' s)))"

section \<open>Starting a child\<close>

datatype allowed_room = Any | Free

record asked =
  a_entry :: entry
  a_room :: allowed_room

definition gibibytes :: "u64 option \<Rightarrow> string" where
  "gibibytes mib =
     (case mib of
        None \<Rightarrow> ''nothing readable''
      | Some m \<Rightarrow>
          (let tenths = m * 10 div 1024 in
           dec64 (tenths div 10) @ ''.'' @ dec64 (tenths mod 10) @ '' GiB''))"

definition on_the_device :: "measurement \<Rightarrow> u64 option \<Rightarrow> u64 option \<Rightarrow> measurement" where
  "on_the_device m before after =
     (let fell = (case (before, after) of
            (Some b, Some a) \<Rightarrow> (if a \<le> b \<and> 0 < b - a then Some (b - a) else None)
          | _ \<Rightarrow> None) in
      m\<lparr>measured_device_mib := (case measured_device_mib m of None \<Rightarrow> fell | x \<Rightarrow> x)\<rparr>)"

text \<open>\<open>took\<close> is the elapsed seconds as \<open>{:.1}\<close> prints them.\<close>

definition ready_text :: "entry \<Rightarrow> string \<Rightarrow> measurement \<Rightarrow> string" where
  "ready_text e took m =
     e_id e @ '': ready in '' @ took @ '' s, measured '' @ gibibytes (resident_mib m)
       @ '' resident and '' @ gibibytes (measured_device_mib m) @ '' on the device (catalog said ''
       @ dec (unat (e_memory_estimate_mib e)) @ '' MiB)''"

text \<open>
  What a load meets: what others do meanwhile, what \<open>Server::start\<close> came to, the device's
  free memory before and after, the measurement, and the clock.
\<close>

record loading =
  ld_race :: "slots \<Rightarrow> slots"
  ld_server :: "failure + child"
  ld_before :: "u64 option"
  ld_after :: "u64 option"
  ld_measured :: measurement
  ld_took :: string
  ld_now :: instant

definition slots_start :: "asked \<Rightarrow> loading \<Rightarrow> slots \<Rightarrow> slots \<times> (failure + slot_loaded)" where
  "slots_start a ld s =
     (let e = a_entry a;
          s1 = say (e_id e @ '': loading, estimated at ''
                 @ dec (unat (e_memory_estimate_mib e)) @ '' MiB'') s;
          s2 = ld_race ld s1 in
      case ld_server ld of
        Inl f \<Rightarrow> (say (e_id e @ '': not loaded: '' @ failure_text f) s2, Inl f)
      | Inr ch \<Rightarrow>
          (let m = on_the_device (ld_measured ld) (ld_before ld) (ld_after ld) in
           (on_heap (arc_new (ch_pid ch)) (say (ready_text e (ld_took ld) m) s2),
            Inr \<lparr>s_child = ch_pid ch, s_last_used = ld_now ld, s_measured = m,
                 s_guest = (a_room a = Free)\<rparr>)))"

text \<open>
  Putting a started child in its slot: its handle is cloned under the lock, and whatever the
  slot held is dropped by the assignment.
\<close>

definition insert_child :: "string \<Rightarrow> slot_loaded \<Rightarrow> slots \<Rightarrow> slots \<times> nat" where
  "insert_child i new s =
     (let s1 = on_heap (arc_clone (s_child new)) s;
          s2 = (case held_in s1 i of
                  None \<Rightarrow> s1 | Some old \<Rightarrow> on_heap (arc_drop (s_child old)) s1) in
      (lease_new (s_child new) (put_slot i (Some new) s2), s_child new))"

end
