(* ===== verification/Slot_Facts.thy ===== *)
theory Slot_Facts
  imports Slot_Table "HOL-Library.Sublist"
begin

text \<open>
  The invariant of the slots and that every operation keeps it. A child's handle count is the
  leases requests hold on it plus one when a slot holds it, and no child is in two slots:
  that is what makes a count of one mean nobody is reading. The interface \<open>slot_keeper\<close> is
  what any operation on the slots promises, and \<open>slot_remover\<close> what one that only unloads
  does; the wait and the interleavings are proved against them.
\<close>

section \<open>Reading the state after an operation\<close>

lemma held_in_put [simp]:
  "held_in (put_slot i cell s) j = (if j = i then cell else held_in s j)"
  by (simp add: held_in_def put_slot_def split: option.splits)

lemma by_id_put [simp]: "by_id (put_slot i cell s) = (by_id s)(i \<mapsto> cell)"
  by (simp add: put_slot_def)

lemma held_in_frames [simp]:
  "held_in (on_heap f s) i = held_in s i"
  "held_in (say l s) i = held_in s i"
  "held_in (complain l s) i = held_in s i"
  "held_in (ring s) i = held_in s i"
  "held_in (lease_new c s) i = held_in s i"
  "held_in (lease_drop c s) i = held_in s i"
  "held_in (s\<lparr>line := q\<rparr>) i = held_in s i"
  "held_in (s\<lparr>in_line := n\<rparr>) i = held_in s i"
  "held_in (s\<lparr>heap_of := h\<rparr>) i = held_in s i"
  "held_in (s\<lparr>leases := ls\<rparr>) i = held_in s i"
  by (simp_all add: held_in_def on_heap_def say_def complain_def ring_def lease_new_def lease_drop_def)

lemma frames [simp]:
  "heap_of (put_slot i cell s) = heap_of s"  "leases (put_slot i cell s) = leases s"
  "line (put_slot i cell s) = line s"        "rung (put_slot i cell s) = rung s"
  "in_line (put_slot i cell s) = in_line s"  "slots_budget (put_slot i cell s) = slots_budget s"
  "slots_wait (put_slot i cell s) = slots_wait s"
  "heap_of (on_heap f s) = f (heap_of s)"    "leases (on_heap f s) = leases s"
  "line (on_heap f s) = line s"              "rung (on_heap f s) = rung s"
  "in_line (on_heap f s) = in_line s"        "slots_budget (on_heap f s) = slots_budget s"
  "slots_wait (on_heap f s) = slots_wait s"  "by_id (on_heap f s) = by_id s"
  "heap_of (say l s) = heap_of s"            "leases (say l s) = leases s"
  "line (say l s) = line s"                  "rung (say l s) = rung s"
  "in_line (say l s) = in_line s"            "slots_budget (say l s) = slots_budget s"
  "slots_wait (say l s) = slots_wait s"      "by_id (say l s) = by_id s"
  "heap_of (complain l s) = heap_of s"            "leases (complain l s) = leases s"
  "line (complain l s) = line s"                  "rung (complain l s) = rung s"
  "in_line (complain l s) = in_line s"            "slots_budget (complain l s) = slots_budget s"
  "slots_wait (complain l s) = slots_wait s"      "by_id (complain l s) = by_id s"
  "heap_of (ring s) = heap_of s"             "leases (ring s) = leases s"
  "line (ring s) = line s"                   "rung (ring s) = Suc (rung s)"
  "in_line (ring s) = in_line s"             "slots_budget (ring s) = slots_budget s"
  "slots_wait (ring s) = slots_wait s"       "by_id (ring s) = by_id s"
  "heap_of (lease_new c s) = heap_of s"      "leases (lease_new c s) = add_mset c (leases s)"
  "line (lease_new c s) = line s"            "rung (lease_new c s) = rung s"
  "in_line (lease_new c s) = in_line s"      "slots_budget (lease_new c s) = slots_budget s"
  "slots_wait (lease_new c s) = slots_wait s" "by_id (lease_new c s) = by_id s"
  "heap_of (lease_drop c s) = arc_drop c (heap_of s)"
  "leases (lease_drop c s) = leases s - {#c#}"
  "line (lease_drop c s) = line s"           "rung (lease_drop c s) = Suc (rung s)"
  "in_line (lease_drop c s) = in_line s"     "slots_budget (lease_drop c s) = slots_budget s"
  "slots_wait (lease_drop c s) = slots_wait s" "by_id (lease_drop c s) = by_id s"
  by (simp_all add: put_slot_def on_heap_def say_def complain_def ring_def lease_new_def lease_drop_def)

lemma held_in_Some: "held_in s i = Some x \<longleftrightarrow> by_id s i = Some (Some x)"
  by (auto simp: held_in_def split: option.splits)

lemma held_in_None: "held_in s i = None \<longleftrightarrow> by_id s i = None \<or> by_id s i = Some None"
  by (auto simp: held_in_def split: option.splits)

lemma put_slot_same: "by_id s i = Some cell \<Longrightarrow> put_slot i cell s = s"
  by (cases s) (auto simp: put_slot_def fun_upd_idem)

section \<open>The invariant\<close>

definition in_slot :: "slots \<Rightarrow> nat \<Rightarrow> bool" where
  "in_slot s c = (\<exists>i x. held_in s i = Some x \<and> s_child x = c)"

definition in_other :: "slots \<Rightarrow> string \<Rightarrow> nat \<Rightarrow> bool" where
  "in_other s i c = (\<exists>j x. j \<noteq> i \<and> held_in s j = Some x \<and> s_child x = c)"

lemma in_slot_at: "in_slot s c \<longleftrightarrow> map_option s_child (held_in s i) = Some c \<or> in_other s i c"
proof
  assume "in_slot s c"
  then obtain j x where "held_in s j = Some x" "s_child x = c" by (auto simp: in_slot_def)
  then show "map_option s_child (held_in s i) = Some c \<or> in_other s i c"
    by (cases "j = i") (auto simp: in_other_def)
qed (auto simp: in_slot_def in_other_def)

lemma in_other_put [simp]: "in_other (put_slot i cell s) i c \<longleftrightarrow> in_other s i c"
  by (auto simp: in_other_def)

lemma in_other_frames [simp]:
  "in_other (on_heap f s) i c = in_other s i c"
  "in_other (lease_new c' s) i c = in_other s i c"
  by (simp_all add: in_other_def)

definition slots_ok :: "slots \<Rightarrow> bool" where
  "slots_ok s =
     (heap_ok (heap_of s) \<and>
      (\<forall>c. strong_count (heap_of s) c = count (leases s) c + (if in_slot s c then 1 else 0)) \<and>
      (\<forall>i j x y. held_in s i = Some x \<and> held_in s j = Some y \<and> s_child x = s_child y \<longrightarrow> i = j) \<and>
      line_ok (line s) \<and> in_line s = length (waiting (line s)))"

lemma slots_okD:
  assumes "slots_ok s"
  shows "heap_ok (heap_of s)"
    and "strong_count (heap_of s) c = count (leases s) c + (if in_slot s c then 1 else 0)"
    and "held_in s i = Some x \<Longrightarrow> held_in s j = Some y \<Longrightarrow> s_child x = s_child y \<Longrightarrow> i = j"
    and "line_ok (line s)" and "in_line s = length (waiting (line s))"
  using assms by (auto simp: slots_ok_def)

lemma slots_okI:
  assumes "heap_ok (heap_of s)"
    and "\<And>c. strong_count (heap_of s) c = count (leases s) c + (if in_slot s c then 1 else 0)"
    and "\<And>i j x y. held_in s i = Some x \<Longrightarrow> held_in s j = Some y \<Longrightarrow> s_child x = s_child y \<Longrightarrow> i = j"
    and "line_ok (line s)" and "in_line s = length (waiting (line s))"
  shows "slots_ok s"
  unfolding slots_ok_def using assms(3) by (intro conjI allI impI assms(1,2,4,5)) blast

lemma ok_alive: "slots_ok s \<Longrightarrow> heap_of s c \<noteq> None \<longleftrightarrow> c \<in># leases s \<or> in_slot s c"
  using heap_ok_count [of "heap_of s" c] slots_okD(1) [of s] slots_okD(2) [of s c]
  by (auto simp: not_in_iff)

lemma ok_busy:
  assumes "slots_ok s" and "held_in s i = Some x"
  shows "busy (heap_of s) (s_child x) \<longleftrightarrow> s_child x \<in># leases s"
proof -
  have "in_slot s (s_child x)" using assms(2) by (auto simp: in_slot_def)
  with slots_okD(2) [OF assms(1), of "s_child x"] show ?thesis
    by (auto simp: busy_def simp flip: count_greater_zero_iff)
qed

lemma ok_exited:
  assumes "slots_ok s" and "held_in s i = Some x" and "exited (heap_of s) x = Some st"
  shows "s_child x \<notin># leases s"
  using ok_busy [OF assms(1,2)] exited_not_busy [OF assms(3)] by simp

lemma slots_ok_frame:
  assumes "slots_ok s" and "\<And>i. held_in s' i = held_in s i" and "heap_of s' = heap_of s"
    and "leases s' = leases s" and "line_ok (line s')"
    and "in_line s' = length (waiting (line s'))"
  shows "slots_ok s'"
  using assms by (auto simp: slots_ok_def in_slot_def)

text \<open>The moves every operation is made of.\<close>

lemma ok_take_out:
  assumes "slots_ok s" and x: "held_in s i = Some x"
  shows "slots_ok (on_heap (arc_drop (s_child x)) (put_slot i None s))"
proof -
  let ?s = "on_heap (arc_drop (s_child x)) (put_slot i None s)"
  have "\<not> in_other s i (s_child x)"
    using slots_okD(3) [OF assms(1) x] by (auto simp: in_other_def)
  then have split: "in_slot ?s c \<longleftrightarrow> c \<noteq> s_child x \<and> in_slot s c" for c
    using x by (auto simp: in_slot_at [of _ c i])
  have here: "in_slot s (s_child x)" using x by (auto simp: in_slot_def)
  have "strong_count (heap_of ?s) c = count (leases ?s) c + (if in_slot ?s c then 1 else 0)" for c
    using slots_okD(2) [OF assms(1), of c] here
    by (auto simp: strong_count_drop split)
  with assms(1) show ?thesis
    by (auto simp: slots_ok_def split: if_splits)
qed

lemma ok_put_empty: "slots_ok s \<Longrightarrow> held_in s i = None \<Longrightarrow> slots_ok (put_slot i None s)"
  by (rule slots_ok_frame) (auto dest: slots_okD(4,5))

lemma ok_put_same:
  assumes "slots_ok s" and "held_in s i = Some x" and "s_child y = s_child x"
  shows "slots_ok (put_slot i (Some y) s)"
proof -
  have same: "in_slot (put_slot i (Some y) s) c \<longleftrightarrow> in_slot s c" for c
    using assms(2,3) by (simp add: in_slot_at [of _ c i])
  have one: "j = k" if "held_in (put_slot i (Some y) s) j = Some u"
      "held_in (put_slot i (Some y) s) k = Some v" "s_child u = s_child v" for j k u v
  proof -
    have "\<exists>u'. held_in s j = Some u' \<and> s_child u' = s_child u"
      using that(1) assms(2,3) by (cases "j = i") auto
    moreover have "\<exists>v'. held_in s k = Some v' \<and> s_child v' = s_child v"
      using that(2) assms(2,3) by (cases "k = i") auto
    ultimately show ?thesis using that(3) slots_okD(3) [OF assms(1)] by metis
  qed
  show ?thesis
    by (rule slots_okI)
      (erule (2) one | simp only: frames same slots_okD(1,2,4,5) [OF assms(1)])+
qed

lemma ok_lease:
  assumes "slots_ok s" and "held_in s i = Some x"
  shows "slots_ok (lease_new (s_child x) (on_heap (arc_clone (s_child x)) s))"
proof -
  let ?c = "s_child x"
  have here: "in_slot s ?c" using assms(2) by (auto simp: in_slot_def)
  then have "heap_of s ?c \<noteq> None" using ok_alive [OF assms(1)] by blast
  moreover have "in_slot (lease_new ?c (on_heap (arc_clone ?c) s)) c \<longleftrightarrow> in_slot s c" for c
    by (simp add: in_slot_def)
  ultimately show ?thesis using assms(1)
    by (auto simp: slots_ok_def strong_count_clone)
qed

lemma ok_lease_drop:
  assumes "slots_ok s" and "c \<in># leases s"
  shows "slots_ok (lease_drop c s)"
proof -
  have "in_slot (lease_drop c s) d \<longleftrightarrow> in_slot s d" for d by (simp add: in_slot_def)
  moreover have "0 < count (leases s) c" using assms(2) by simp
  ultimately show ?thesis using assms(1)
    by (auto simp: slots_ok_def strong_count_drop)
qed

lemma ok_new [simp]: "slots_ok (slots_new c b w)"
proof -
  have "held_in (slots_new c b w) i = None" for i
    by (auto simp: held_in_def slots_new_def split: option.splits dest: map_of_SomeD)
  then show ?thesis
    by (auto simp: slots_ok_def in_slot_def heap_ok_def strong_count_def slots_new_def
        queue_default_def line_ok_def)
qed

section \<open>The interfaces\<close>

locale slot_keeper =
  fixes run :: "slots \<Rightarrow> slots"
  assumes keeps_ok: "slots_ok s \<Longrightarrow> slots_ok (run s)"
    and rings: "rung s \<le> rung (run s)"
    and keeps_settings: "slots_budget (run s) = slots_budget s" "slots_wait (run s) = slots_wait s"
begin

lemma readers_keep_children:
  "slots_ok s \<Longrightarrow> c \<in># leases (run s) \<Longrightarrow> heap_of (run s) c \<noteq> None"
  using ok_alive [OF keeps_ok] by blast

lemma no_orphans:
  "slots_ok s \<Longrightarrow> heap_of (run s) c \<noteq> None \<Longrightarrow> c \<in># leases (run s) \<or> in_slot (run s) c"
  using ok_alive [OF keeps_ok] by blast

lemma heard_rings: "heard < rung s \<Longrightarrow> wait_ends (rung (run s)) heard deadline now"
  using rings [of s] by (simp add: wait_ends_def)

end

lemma slot_keeper_comp:
  "slot_keeper f \<Longrightarrow> slot_keeper g \<Longrightarrow> slot_keeper (f \<circ> g)"
  by (auto simp: slot_keeper_def intro: le_trans)

lemma slot_keeper_id: "slot_keeper (\<lambda>s. s)"
  by (simp add: slot_keeper_def)

text \<open>One that only unloads: what a slot holds afterwards it held before.\<close>

locale slot_remover = slot_keeper +
  assumes only_removes: "held_in (run s) i = Some x \<Longrightarrow> held_in s i = Some x"
    and keeps_leases: "leases (run s) = leases s"
begin

lemma snapshot_subseq: "subseq (snapshot c f (run s)) (snapshot c f s)"
proof -
  have "subseq (List.map_filter (\<lambda>e. map_option (f e) (held_in (run s) (e_id e))) es)
      (List.map_filter (\<lambda>e. map_option (f e) (held_in s (e_id e))) es)" for es
  proof (induction es)
    case Nil
    then show ?case by (simp add: List.map_filter_simps)
  next
    case (Cons e es)
    then show ?case
      by (cases "held_in (run s) (e_id e)"; cases "held_in s (e_id e)")
        (auto simp: List.map_filter_simps dest: only_removes)
  qed
  then show ?thesis by (simp add: snapshot_def)
qed

lemma readers_stay:
  assumes "slots_ok s" and "held_in s i = Some x" and "held_in (run s) i \<noteq> Some x"
  shows "s_child x \<notin># leases s \<or> heap_of (run s) (s_child x) \<noteq> None"
  using assms readers_keep_children [of s "s_child x"] by (auto simp: keeps_leases)

end

text \<open>One that never unloads what a request is reading.\<close>

locale slot_sparer = slot_remover +
  assumes spares: "slots_ok s \<Longrightarrow> held_in s i = Some x \<Longrightarrow> s_child x \<in># leases s \<Longrightarrow>
    held_in (run s) i = Some x"
begin

lemma removed_were_idle:
  assumes "slots_ok s" and "held_in s i = Some x" and "held_in (run s) i = None"
  shows "\<not> busy (heap_of s) (s_child x)"
  using spares [OF assms(1,2)] ok_busy [OF assms(1,2)] assms(3) by auto

end

end
