(* ===== verification/Slot_Room.thy ===== *)
theory Slot_Room
  imports Slot_Table
begin

text \<open>
  Making room for a model, waiting for it in turn, and admitting it:
  \<open>proxy/slots/room.rs\<close> and \<open>proxy/slots/admit.rs\<close>. The loop of \<open>room_for\<close> runs over a list
  of turns, each with what the clock and the device say and with what other threads do where
  the code lets them in: between a decision and the unloading it names, and while the request
  sleeps with the admission lock let go. \<open>None\<close> is a request still waiting when the turns
  given run out.
\<close>

section \<open>Refusals\<close>

definition ROOM :: string where
  "ROOM = ''X-Model-Router-Room''"

definition free_only_text :: "entry \<Rightarrow> string \<Rightarrow> string" where
  "free_only_text e why =
     quoted (e_id e) @ '' was asked for with '' @ quoted (ROOM @ '': free'')
       @ '', and there is no free room for it: '' @ why @ ''; nothing was unloaded''"

definition asked_refusal :: "asked \<Rightarrow> decision \<Rightarrow> failure option" where
  "asked_refusal a d =
     (if a_room a = Any then None
      else case d of
          Unload ids \<Rightarrow> Some (Refused (free_only_text (a_entry a)
            (''loading it would unload '' @ join '', '' ids)))
        | Blocked m \<Rightarrow> Some (Refused (free_only_text (a_entry a) m))
        | _ \<Rightarrow> None)"

definition refused :: "entry \<Rightarrow> string \<Rightarrow> duration \<Rightarrow> failure" where
  "refused e what waited =
     (if waited = 0
      then Contended (what @ ''; this may succeed on a retry, or set ''
        @ ''MAESTRO_ADMISSION_WAIT_SECONDS to wait for the room'')
      else Contended (what @ ''; '' @ quoted (e_id e) @ '' waited ''
        @ dec (as_secs waited) @ ''s and the room did not free up''))"

section \<open>One look\<close>

datatype seen = Made | Held string

text \<open>
  The decision, made from one snapshot, and the acting on it; \<open>race\<close> is what others do in
  between, which the unloading reads again slot by slot.
\<close>

definition decide :: "catalog \<Rightarrow> entry \<Rightarrow> u64 option \<Rightarrow> slots \<Rightarrow> decision" where
  "decide c e device s =
     (case held_and_guests c s of
        (ls, guests) \<Rightarrow> admit_with_guests (slots_budget s) ls guests (wanted_of e) device)"

definition look ::
    "catalog \<Rightarrow> asked \<Rightarrow> u64 option \<Rightarrow> (slots \<Rightarrow> slots) \<Rightarrow> bool \<Rightarrow> slots \<Rightarrow>
     slots \<times> (failure + seen)" where
  "look c a device race may s =
     (let e = a_entry a; d = decide c e device s in
      case asked_refusal a d of
        Some f \<Rightarrow> (s, Inl f)
      | None \<Rightarrow>
          (case d of
             Fits \<Rightarrow> (s, Inr Made)
           | Unload ids \<Rightarrow>
               (if \<not> may then
                  (s, Inr (Held (quoted (e_id e)
                     @ '' is in line behind a request that asked for room first'')))
                else
                  (case unload ids (race (say (e_id e @ '': unloading '' @ join '', '' ids
                       @ '' to make room'') s)) of
                     (s', None) \<Rightarrow> (s', Inr Made)
                   | (s', Some blocker) \<Rightarrow>
                       (s', Inr (Held (quoted (e_id e) @ '' needs room held by ''
                          @ quoted blocker @ '', which a request reached first'')))))
           | Blocked m \<Rightarrow> (s, Inr (Held m))
           | Refuse m \<Rightarrow> (s, Inl (Refused m))))"

section \<open>The wait\<close>

record turn =
  t_now :: instant
  t_device :: "u64 option"
  t_race :: "slots \<Rightarrow> slots"
  t_after :: instant
  t_sleep :: "slots \<Rightarrow> slots"

definition reloaded_text :: "entry \<Rightarrow> string" where
  "reloaded_text e =
     ''the catalog was reloaded while '' @ quoted (e_id e)
       @ '' waited for room; ask again, and it is decided under the catalog now serving''"

text \<open>One turn: the outcome that ends the loop, or what is holding the room.\<close>

definition turn_step ::
    "files \<Rightarrow> catalog \<Rightarrow> asked \<Rightarrow> string \<Rightarrow> nat \<Rightarrow> nat option \<Rightarrow> turn \<Rightarrow> slots \<Rightarrow>
     slots \<times> ((failure + nat option) + string)" where
  "turn_step fs c a root arrived ticket t s =
     (let e = a_entry a in
      if reloads (line s) \<noteq> arrived then (s, Inl (Inl (Contended (reloaded_text e))))
      else
        (case running e (t_now t) s of
           (s1, Some ch) \<Rightarrow> (s1, Inl (Inr (Some ch)))
         | (s1, None) \<Rightarrow>
             (case model_file (fst fs) e root of
                Inl f \<Rightarrow> (s1, Inl (Inl f))
              | Inr _ \<Rightarrow>
                  (let s2 = (if a_room a = Free then sweep_exited c s1 else s1) in
                   case look c a (t_device t) (t_race t) (may_take (line s2) ticket) s2 of
                     (s3, Inr Made) \<Rightarrow> (s3, Inl (Inr None))
                   | (s3, Inr (Held m)) \<Rightarrow> (s3, Inr m)
                   | (s3, Inl f) \<Rightarrow> (s3, Inl (Inl f))))))"

definition join_line :: "nat option \<Rightarrow> slots \<Rightarrow> slots \<times> nat option" where
  "join_line ticket s =
     (case line_join (line s) ticket of
        (q, ticket') \<Rightarrow> (s\<lparr>line := q, in_line := line_len q\<rparr>, ticket'))"

definition leave_line :: "nat option \<Rightarrow> slots \<Rightarrow> slots" where
  "leave_line ticket s =
     (case line_leave (line s) ticket of
        (was, q) \<Rightarrow>
          if was then ring (s\<lparr>line := q, in_line := line_len q\<rparr>) else s\<lparr>line := q\<rparr>)"

fun wait_loop ::
    "files \<Rightarrow> catalog \<Rightarrow> asked \<Rightarrow> string \<Rightarrow> instant \<Rightarrow> nat \<Rightarrow> turn list \<Rightarrow> nat option \<Rightarrow>
     slots \<Rightarrow> (slots \<times> nat option \<times> (failure + nat option)) option" where
  "wait_loop fs c a root deadline arrived [] ticket s = None"
| "wait_loop fs c a root deadline arrived (t # ts) ticket s =
     (case turn_step fs c a root arrived ticket t s of
        (s1, Inl outcome) \<Rightarrow> Some (s1, ticket, outcome)
      | (s1, Inr m) \<Rightarrow>
          (if deadline \<le> t_after t then
             Some (s1, ticket, Inl (refused (a_entry a) m (wait_duration (slots_wait s1))))
           else
             (case join_line ticket s1 of
                (s2, ticket') \<Rightarrow>
                  wait_loop fs c a root deadline arrived ts ticket' (t_sleep t s2))))"

definition room_for ::
    "files \<Rightarrow> catalog \<Rightarrow> asked \<Rightarrow> string \<Rightarrow> instant \<Rightarrow> turn list \<Rightarrow> slots \<Rightarrow>
     (slots \<times> (failure + nat option)) option" where
  "room_for fs c a root now ts s =
     (let deadline = now + wait_duration (slots_wait s); arrived = reloads (line s) in
      case wait_loop fs c a root deadline arrived ts None s of
        None \<Rightarrow> None
      | Some (s', ticket, outcome) \<Rightarrow> Some (leave_line ticket s', outcome))"

section \<open>Admission\<close>

definition admit_entry ::
    "files \<Rightarrow> catalog \<Rightarrow> asked \<Rightarrow> string \<Rightarrow> instant \<Rightarrow> turn list \<Rightarrow> loading \<Rightarrow> slots \<Rightarrow>
     (slots \<times> (failure + nat)) option" where
  "admit_entry fs c a root now ts ld s =
     (let e = a_entry a in
      case by_id s (e_id e) of
        None \<Rightarrow> Some (s, Inl (Contended (''the catalog was reloaded before '' @ quoted (e_id e)
          @ '' was admitted; ask again, and it is decided under the catalog now serving'')))
      | Some _ \<Rightarrow>
          (case room_for fs c a root now ts s of
             None \<Rightarrow> None
           | Some (s1, Inl f) \<Rightarrow> Some (s1, Inl f)
           | Some (s1, Inr (Some ch)) \<Rightarrow> Some (s1, Inr ch)
           | Some (s1, Inr None) \<Rightarrow>
               (case slots_start a ld s1 of
                  (s2, Inl f) \<Rightarrow> Some (s2, Inl f)
                | (s2, Inr new) \<Rightarrow>
                    (case insert_child (e_id e) new s2 of (s3, ch) \<Rightarrow> Some (s3, Inr ch)))))"

text \<open>The fast path first; \<open>race\<close> is what others do before the admission lock is had.\<close>

definition child_for ::
    "files \<Rightarrow> catalog \<Rightarrow> asked \<Rightarrow> string \<Rightarrow> instant \<Rightarrow> (slots \<Rightarrow> slots) \<Rightarrow> instant \<Rightarrow> turn list \<Rightarrow>
     loading \<Rightarrow> slots \<Rightarrow> (slots \<times> (failure + nat)) option" where
  "child_for fs c a root now race now' ts ld s =
     (case running (a_entry a) now s of
        (s1, Some ch) \<Rightarrow> Some (s1, Inr ch)
      | (s1, None) \<Rightarrow> admit_entry fs c a root now' ts ld (race s1))"

end
