(* ===== verification/Slot_Keepers.thy ===== *)
theory Slot_Keepers
  imports Slot_Facts Slot_Room
begin

text \<open>
  Every operation of the table is a \<open>slot_keeper\<close>, and the sweeps, the unloading, the
  clearing and the reload's resync are \<open>slot_remover\<close>s: the interpretations of the two
  interfaces on the model's own operations.
\<close>

section \<open>Sweeps\<close>

definition taker :: "(heap \<Rightarrow> slot \<Rightarrow> slot \<times> (slot_loaded \<times> 'a) option) \<Rightarrow> bool" where
  "taker f = (\<forall>h cell. f h cell = (cell, None) \<or>
     (\<exists>x t. cell = Some x \<and> f h cell = (None, Some (x, t))))"

lemma taker_exited: "taker take_if_exited"
  by (auto simp: taker_def take_if_exited_def split: option.splits)

lemma taker_stale: "taker (take_stale now d)"
  by (auto simp: taker_def take_stale_def take_if_idle_def split: option.splits)

lemma takerE:
  assumes "taker f"
  obtains "f h cell = (cell, None)"
  | x t where "cell = Some x" and "f h cell = (None, Some (x, t))"
  using assms unfolding taker_def by metis

text \<open>A sweep is a sequence of takes: what it keeps is what a take keeps.\<close>

lemma swept_induct:
  assumes "taker f" and "P s"
    and "\<And>i s x t. P s \<Longrightarrow> held_in s i = Some x \<Longrightarrow> f (heap_of s) (Some x) = (None, Some (x, t)) \<Longrightarrow>
      P (on_heap (arc_drop (s_child x)) (put_slot i None s))"
  shows "P (fst (swept f is s))"
  using assms(2)
proof (induction "is" arbitrary: s)
  case Nil
  then show ?case by simp
next
  case (Cons i rest)
  show ?case
  proof (cases "by_id s i")
    case None
    with Cons show ?thesis by simp
  next
    case (Some cell)
    show ?thesis
    proof (rule takerE [OF assms(1), of "heap_of s" cell])
      assume "f (heap_of s) cell = (cell, None)"
      with Cons Some show ?thesis by (simp add: put_slot_same)
    next
      fix x t
      assume t: "cell = Some x" "f (heap_of s) cell = (None, Some (x, t))"
      with Some have "held_in s i = Some x" by (simp add: held_in_Some)
      then have "P (on_heap (arc_drop (s_child x)) (put_slot i None s))"
        using t(2) unfolding t(1) by (rule assms(3) [OF Cons.prems])
      then have "P (fst (swept f rest (on_heap (arc_drop (s_child x)) (put_slot i None s))))"
        by (rule Cons.IH)
      with Some t show ?thesis by (simp add: case_prod_beta)
    qed
  qed
qed

definition removed_from :: "slots \<Rightarrow> slots \<Rightarrow> bool" where
  "removed_from s s' =
     (slots_ok s' \<and> leases s' = leases s \<and> rung s' = rung s \<and> line s' = line s \<and>
      slots_budget s' = slots_budget s \<and> slots_wait s' = slots_wait s \<and>
      (\<forall>i x. held_in s' i = Some x \<longrightarrow> held_in s i = Some x))"

lemma removed_ok: "removed_from s s' \<Longrightarrow> slots_ok s'"
  by (simp add: removed_from_def)

lemma removed_refl: "slots_ok s \<Longrightarrow> removed_from s s"
  by (simp add: removed_from_def)

lemma removed_take_out:
  assumes "removed_from s0 s" and "held_in s i = Some x"
  shows "removed_from s0 (on_heap (arc_drop (s_child x)) (put_slot i None s))"
  using assms ok_take_out [OF _ assms(2)] by (auto simp: removed_from_def)

lemma removed_trans: "removed_from s s' \<Longrightarrow> removed_from s' s'' \<Longrightarrow> removed_from s s''"
  by (auto simp: removed_from_def)

lemma removed_swept: "taker f \<Longrightarrow> slots_ok s \<Longrightarrow> removed_from s (fst (swept f is s))"
  by (rule swept_induct) (auto intro: removed_refl removed_take_out)

lemma removed_said: "removed_from s s' \<Longrightarrow> removed_from s (say l s')"
  by (auto simp: removed_from_def slots_ok_def in_slot_def)

lemma removed_says: "removed_from s s' \<Longrightarrow> removed_from s (fold (\<lambda>(i, st). say (f i st)) gone s')"
  by (induction gone arbitrary: s') (auto intro: removed_said)

lemma removed_sweep_exited: "slots_ok s \<Longrightarrow> removed_from s (sweep_exited c s)"
  using removed_swept [OF taker_exited, of s "ids_of c"]
  by (auto simp: sweep_exited_def split: prod.splits intro: removed_says)

lemma removed_sweep_idle: "slots_ok s \<Longrightarrow> removed_from s (fst (sweep_idle c w now s))"
  using removed_swept [OF taker_stale, of s]
  by (auto simp: sweep_idle_def removed_refl split: option.splits prod.splits) (metis fst_conv)

lemma removed_put_same: "slots_ok s \<Longrightarrow> by_id s i = Some cell \<Longrightarrow> removed_from s (put_slot i cell s)"
  by (simp add: put_slot_same removed_refl)

lemma removed_let_go: "slots_ok s \<Longrightarrow> removed_from s (fst (let_go i s))"
  by (auto simp: let_go_def take_if_idle_def held_in_Some split: option.splits
      intro: removed_refl removed_put_same removed_take_out)

lemma take_always:
  obtains (empty) "take_if_idle h cell (\<lambda>_. True) = (None, Empty)" "cell = None"
  | (busy) x where "take_if_idle h cell (\<lambda>_. True) = (cell, Busy)" "cell = Some x"
  | (taken) x where "take_if_idle h cell (\<lambda>_. True) = (None, Taken x)" "cell = Some x"
  using take_if_idle_cases [of h cell "\<lambda>_. True"] by (metis surj_pair)

lemma removed_unload: "slots_ok s \<Longrightarrow> removed_from s (fst (unload is s))"
proof (induction "is" arbitrary: s)
  case Nil
  then show ?case by (simp add: removed_refl)
next
  case (Cons i rest)
  show ?case
  proof (cases "by_id s i")
    case None
    with Cons show ?thesis by simp
  next
    case (Some cell)
    from take_always [of "heap_of s" cell] show ?thesis
    proof cases
      case empty
      with Some Cons show ?thesis by (simp add: put_slot_same)
    next
      case busy
      with Some Cons.prems show ?thesis by (simp add: put_slot_same removed_refl)
    next
      case (taken x)
      with Some have x: "held_in s i = Some x" by (simp add: held_in_Some)
      let ?s = "on_heap (arc_drop (s_child x)) (put_slot i None s)"
      have "removed_from s ?s" using removed_take_out [OF removed_refl x] Cons.prems by simp
      moreover from this have "removed_from ?s (fst (unload rest ?s))"
        using Cons.IH [of ?s] by (simp add: removed_from_def)
      ultimately show ?thesis using taken Some removed_trans by simp
    qed
  qed
qed

section \<open>The table\<close>

text \<open>Clearing one slot after another, in whatever order the map yields them.\<close>

definition clear_one :: "string \<Rightarrow> slots \<Rightarrow> slots" where
  "clear_one i s =
     (case by_id s i of
        None \<Rightarrow> s
      | Some cell \<Rightarrow>
          (case cell of
             None \<Rightarrow> put_slot i None s
           | Some x \<Rightarrow> on_heap (arc_drop (s_child x)) (put_slot i None s)))"

lemma clear_step:
  assumes "i \<notin> set order"
  shows "clear (i # order) s = clear order (clear_one i s)"
proof -
  have same: "held_in (clear_one i s) j = held_in s j" if "j \<in> set order" for j
    using that assms by (auto simp: clear_one_def split: option.splits)
  have "List.map_filter (held_in (clear_one i s)) order = List.map_filter (held_in s) order"
    using same by (auto simp: List.map_filter_def intro!: map_cong filter_cong)
  then show ?thesis
    using assms
    by (cases s)
      (auto simp: clear_def clear_one_def Let_def put_slot_def on_heap_def held_in_def
        List.map_filter_simps fun_eq_iff split: option.splits)
qed

lemma removed_clear_one: "slots_ok s \<Longrightarrow> removed_from s (clear_one i s)"
  by (auto simp: clear_one_def held_in_Some split: option.splits
      intro: removed_refl removed_put_same removed_take_out)

lemma removed_clear:
  "distinct order \<Longrightarrow> slots_ok s \<Longrightarrow> removed_from s (clear order s)"
proof (induction order arbitrary: s)
  case Nil
  have "clear [] s = s" by (cases s) (simp add: clear_def List.map_filter_simps)
  with Nil show ?case by (simp add: removed_refl)
next
  case (Cons i order)
  from Cons.prems(2) have one: "removed_from s (clear_one i s)" by (rule removed_clear_one)
  moreover have "removed_from (clear_one i s) (clear order (clear_one i s))"
    using Cons.IH [OF _ removed_ok [OF one]] Cons.prems(1) by simp
  ultimately have "removed_from s (clear order (clear_one i s))" by (rule removed_trans)
  with Cons.prems(1) show ?case by (simp add: clear_step)
qed

lemma resync_added:
  "fold (\<lambda>e m. if m (e_id e) = None then m(e_id e \<mapsto> None) else m) es m i =
     (if m i = None \<and> i \<in> e_id ` set es then Some None else m i)"
  by (induction es arbitrary: m) auto

lemma by_id_resync:
  "by_id (resync c s) i =
     (case by_id s i of
        Some (Some x) \<Rightarrow> Some (Some x)
      | _ \<Rightarrow> if i \<in> set (ids_of c) then Some None else None)"
proof -
  show ?thesis
    by (auto simp: resync_def Let_def resync_added catalog_entry_None split: option.splits)
qed

lemma held_in_resync [simp]: "held_in (resync c s) i = held_in s i"
  by (auto simp: held_in_def by_id_resync split: option.splits)

lemma resync_frames [simp]:
  "heap_of (resync c s) = heap_of s"
  "leases (resync c s) = leases s"
  "rung (resync c s) = Suc (rung s)"
  "waiting (line (resync c s)) = waiting (line s)"
  "issued (line (resync c s)) = issued (line s)"
  "reloads (line (resync c s)) = Suc (reloads (line s))"
  "in_line (resync c s) = in_line s"
  "slots_budget (resync c s) = slots_budget s"
  "slots_wait (resync c s) = slots_wait s"
  by (simp_all add: resync_def Let_def)

lemma ok_resync: "slots_ok s \<Longrightarrow> slots_ok (resync c s)"
  by (rule slots_ok_frame) (use slots_okD(4,5) [of s] in \<open>auto simp: line_ok_def\<close>)

section \<open>Operations that hand out or stamp\<close>

lemma running_cases:
  assumes "running e now s = (s', r)"
  obtains (absent) "r = None" and "s' = s" and "held_in s (e_id e) = None"
  | (dead) x st where "held_in s (e_id e) = Some x" and "exited (heap_of s) x = Some st"
      and "r = None" and "s' = on_heap (arc_drop (s_child x)) (put_slot (e_id e) None s)"
  | (live) x where "held_in s (e_id e) = Some x" and "exited (heap_of s) x = None"
      and "r = Some (s_child x)"
      and "s' = lease_new (s_child x) (on_heap (arc_clone (s_child x))
            (put_slot (e_id e) (Some (x\<lparr>s_last_used := now\<rparr>)) s))"
proof -
  have heap: "s\<lparr>heap_of := f (heap_of s)\<rparr> = on_heap f s" for f by (simp add: on_heap_def)
  have same: "s\<lparr>heap_of := heap_of s\<rparr> = s" by simp
  have swap: "put_slot i cell (on_heap f s) = on_heap f (put_slot i cell s)" for i cell f
    by (simp add: put_slot_def on_heap_def)
  show ?thesis
  proof (cases "by_id s (e_id e)")
    case None
    with assms show ?thesis by (intro absent) (simp_all add: running_def held_in_def)
  next
    case (Some cell)
    show ?thesis
    proof (cases cell)
      case None
      with Some assms show ?thesis
        by (intro absent) (simp_all add: running_def live_child_def put_slot_same held_in_def)
    next
      case x: (Some x)
      show ?thesis
      proof (cases "exited (heap_of s) x")
        case None
        with Some x assms show ?thesis
          by (intro live [of x])
            (simp_all add: running_def live_child_def held_in_def heap [of "arc_clone (s_child x)"] swap)
      next
        case st: (Some st)
        with Some x assms show ?thesis
          by (intro dead [of x st])
            (simp_all add: running_def live_child_def held_in_def heap [of "arc_drop (s_child x)"] swap)
      qed
    qed
  qed
qed

lemma ok_running:
  assumes "slots_ok s" and "running e now s = (s', r)"
  shows "slots_ok s'"
  using assms(2)
proof (cases rule: running_cases)
  case absent
  with assms(1) show ?thesis by simp
next
  case (dead x st)
  with assms(1) show ?thesis by (simp add: ok_take_out)
next
  case (live x)
  let ?s = "put_slot (e_id e) (Some (x\<lparr>s_last_used := now\<rparr>)) s"
  have "slots_ok ?s" using assms(1) live(1) by (rule ok_put_same) simp
  then have "slots_ok (lease_new (s_child (x\<lparr>s_last_used := now\<rparr>))
      (on_heap (arc_clone (s_child (x\<lparr>s_last_used := now\<rparr>))) ?s))"
    by (rule ok_lease [of _ "e_id e"]) simp
  with live(4) show ?thesis by simp
qed

lemma running_frames:
  assumes "running e now s = (s', r)"
  shows "rung s' = rung s" "line s' = line s" "slots_budget s' = slots_budget s"
    "slots_wait s' = slots_wait s" "in_line s' = in_line s"
  using assms by (cases rule: running_cases; simp)+

lemma ok_touch: "slots_ok s \<Longrightarrow> slots_ok (touch i now s)"
  by (auto simp: touch_def split: option.splits intro: ok_put_same)

lemma touch_frames [simp]:
  "rung (touch i now s) = rung s" "slots_budget (touch i now s) = slots_budget s"
  "slots_wait (touch i now s) = slots_wait s" "leases (touch i now s) = leases s"
  "heap_of (touch i now s) = heap_of s" "line (touch i now s) = line s"
  by (simp_all add: touch_def split: option.splits)

lemma ok_join_line: "slots_ok s \<Longrightarrow> slots_ok (fst (join_line t s))"
  using line_ok_join [of "line s" t]
  by (auto simp: join_line_def line_len_def split: prod.splits
      intro!: slots_ok_frame [of s] dest: slots_okD(4))

lemma ok_leave_line:
  assumes "slots_ok s"
  shows "slots_ok (leave_line t s)"
proof -
  have "line_ok (snd (line_leave (line s) t))" using assms by (simp add: line_ok_leave slots_okD(4))
  moreover have "\<not> fst (line_leave (line s) t) \<Longrightarrow>
      length (waiting (snd (line_leave (line s) t))) = length (waiting (line s))"
    by (simp add: line_leave_def Let_def)
  ultimately show ?thesis
    using assms slots_okD(5) [OF assms]
    by (auto simp: leave_line_def line_len_def split: prod.splits intro!: slots_ok_frame [of s])
qed

lemma line_op_frames [simp]:
  "held_in (leave_line t s) i = held_in s i"
  "leases (leave_line t s) = leases s"
  "heap_of (leave_line t s) = heap_of s"
  "by_id (leave_line t s) = by_id s"
  "slots_budget (leave_line t s) = slots_budget s"
  "slots_wait (leave_line t s) = slots_wait s"
  "held_in (fst (join_line t s)) i = held_in s i"
  "leases (fst (join_line t s)) = leases s"
  "heap_of (fst (join_line t s)) = heap_of s"
  "by_id (fst (join_line t s)) = by_id s"
  "rung (fst (join_line t s)) = rung s"
  "slots_budget (fst (join_line t s)) = slots_budget s"
  "slots_wait (fst (join_line t s)) = slots_wait s"
  by (auto simp: leave_line_def join_line_def held_in_def split: prod.splits)

lemma rung_leave_line: "rung s \<le> rung (leave_line t s)"
  by (auto simp: leave_line_def split: prod.splits)

section \<open>What is read is spared\<close>

definition spared :: "slots \<Rightarrow> slots \<Rightarrow> bool" where
  "spared s s' =
     (slots_ok s' \<and> leases s' = leases s \<and>
      (\<forall>i x. held_in s i = Some x \<and> s_child x \<in># leases s \<longrightarrow> held_in s' i = Some x))"

lemma spared_refl: "slots_ok s \<Longrightarrow> spared s s"
  by (simp add: spared_def)

lemma spared_trans: "spared s s' \<Longrightarrow> spared s' s'' \<Longrightarrow> spared s s''"
  by (simp add: spared_def)

lemma spared_said: "spared s s' \<Longrightarrow> spared s (say l s')"
  by (auto simp: spared_def slots_ok_def in_slot_def)

lemma spared_says: "spared s s' \<Longrightarrow> spared s (fold (\<lambda>(i, st). say (f i st)) gone s')"
  by (induction gone arbitrary: s') (auto intro: spared_said)

lemma spared_take_out:
  assumes "spared s0 s" and "held_in s i = Some x" and "\<not> busy (heap_of s) (s_child x)"
  shows "spared s0 (on_heap (arc_drop (s_child x)) (put_slot i None s))"
proof -
  have ok: "slots_ok s" using assms(1) by (simp add: spared_def)
  have "s_child x \<notin># leases s" using ok_busy [OF ok assms(2)] assms(3) by simp
  with assms ok_take_out [OF ok assms(2)] show ?thesis by (auto simp: spared_def)
qed

lemma spared_swept:
  assumes "taker f" and "slots_ok s"
    and "\<And>h x t. f h (Some x) = (None, Some (x, t)) \<Longrightarrow> \<not> busy h (s_child x)"
  shows "spared s (fst (swept f is s))"
  by (rule swept_induct [where P = "spared s", OF assms(1) spared_refl [OF assms(2)]])
    (rule spared_take_out, assumption, assumption, erule assms(3))

lemma idle_exited: "take_if_exited h (Some x) = (None, Some (x, st)) \<Longrightarrow> \<not> busy h (s_child x)"
  by (auto simp: take_if_exited_def dest: exited_not_busy split: option.splits)

lemma idle_stale: "take_stale now d h (Some x) = (None, Some (x, t)) \<Longrightarrow> \<not> busy h (s_child x)"
  by (auto simp: take_stale_def take_if_idle_def split: if_splits)

lemma spared_sweep_exited: "slots_ok s \<Longrightarrow> spared s (sweep_exited c s)"
  using spared_swept [OF taker_exited, of s "ids_of c"] idle_exited
  by (auto simp: sweep_exited_def split: prod.splits intro: spared_says)

lemma spared_sweep_idle: "slots_ok s \<Longrightarrow> spared s (fst (sweep_idle c w now s))"
  using spared_swept [OF taker_stale, of s] idle_stale
  by (auto simp: sweep_idle_def spared_refl split: option.splits prod.splits) (metis fst_conv)

lemma spared_let_go:
  assumes "slots_ok s"
  shows "spared s (fst (let_go i s))"
proof (cases "by_id s i")
  case None
  with assms show ?thesis by (simp add: let_go_def spared_refl)
next
  case (Some cell)
  from take_always [of "heap_of s" cell] show ?thesis
  proof cases
    case (taken x)
    then have "\<not> busy (heap_of s) (s_child x)" by (simp add: take_if_idle_def split: if_splits)
    with taken Some spared_take_out [OF spared_refl [OF assms], of i x] show ?thesis
      by (simp add: let_go_def held_in_Some)
  qed (use Some assms in \<open>simp_all add: let_go_def put_slot_same spared_refl\<close>)
qed

lemma spared_unload: "slots_ok s \<Longrightarrow> spared s (fst (unload is s))"
proof (induction "is" arbitrary: s)
  case (Cons i rest)
  show ?case
  proof (cases "by_id s i")
    case (Some cell)
    from take_always [of "heap_of s" cell] show ?thesis
    proof cases
      case empty
      with Some Cons show ?thesis by (simp add: put_slot_same)
    next
      case busy
      with Some Cons.prems show ?thesis by (simp add: put_slot_same spared_refl)
    next
      case (taken x)
      let ?s = "on_heap (arc_drop (s_child x)) (put_slot i None s)"
      from taken have "\<not> busy (heap_of s) (s_child x)" by (simp add: take_if_idle_def split: if_splits)
      with taken Some have one: "spared s ?s"
        using spared_take_out [OF spared_refl [OF Cons.prems], of i x] by (simp add: held_in_Some)
      then have "spared ?s (fst (unload rest ?s))" using Cons.IH [of ?s] by (simp add: spared_def)
      from spared_trans [OF one this] show ?thesis using taken Some by simp
    qed
  qed (use Cons in simp)
qed (simp add: spared_refl)

section \<open>Interpretations\<close>

text \<open>The frames hold of every state, by the same induction with a weaker property.\<close>

definition only_fewer :: "slots \<Rightarrow> slots \<Rightarrow> bool" where
  "only_fewer s s' =
     (rung s \<le> rung s' \<and> slots_budget s' = slots_budget s \<and> slots_wait s' = slots_wait s \<and>
      leases s' = leases s \<and> (\<forall>i x. held_in s' i = Some x \<longrightarrow> held_in s i = Some x))"

lemma fewer_refl [simp]: "only_fewer s s"
  by (simp add: only_fewer_def)

lemma fewer_trans: "only_fewer s s' \<Longrightarrow> only_fewer s' s'' \<Longrightarrow> only_fewer s s''"
  by (auto simp: only_fewer_def)

lemma fewer_lesser_None: "only_fewer s s' \<Longrightarrow> held_in s i = None \<Longrightarrow> held_in s' i = None"
  unfolding only_fewer_def by (metis option.distinct(1) option.exhaust)

lemma fewer_moves [simp]:
  "only_fewer s (on_heap f s')  \<longleftrightarrow> only_fewer s s'"
  "only_fewer s (say l s') \<longleftrightarrow> only_fewer s s'"
  "only_fewer s s' \<Longrightarrow> only_fewer s (put_slot i None s')"
  "only_fewer s s' \<Longrightarrow> by_id s' i = Some cell \<Longrightarrow> only_fewer s (put_slot i cell s')"
  by (auto simp: only_fewer_def held_in_Some split: if_splits)

lemma fewer_swept: "taker f \<Longrightarrow> only_fewer s (fst (swept f is s))"
  by (rule swept_induct) auto

lemma fewer_says: "only_fewer s s' \<Longrightarrow> only_fewer s (fold (\<lambda>(i, st). say (f i st)) gone s')"
  by (induction gone arbitrary: s') auto

lemma fewer_sweep_exited: "only_fewer s (sweep_exited c s)"
  using fewer_swept [OF taker_exited, of s "ids_of c"]
  by (auto simp: sweep_exited_def split: prod.splits intro: fewer_says)

lemma fewer_sweep_idle: "only_fewer s (fst (sweep_idle c w now s))"
  using fewer_swept [OF taker_stale, of s]
  by (auto simp: sweep_idle_def split: option.splits prod.splits) (metis fst_conv)

lemma fewer_let_go: "only_fewer s (fst (let_go i s))"
  by (auto simp: let_go_def take_if_idle_def split: option.splits)

lemma fewer_unload: "only_fewer s (fst (unload is s))"
proof (induction "is" arbitrary: s)
  case (Cons i rest)
  show ?case
  proof (cases "by_id s i")
    case (Some cell)
    from take_always [of "heap_of s" cell] show ?thesis
    proof cases
      case empty
      with Some Cons show ?thesis by (simp add: put_slot_same)
    next
      case busy
      with Some show ?thesis by (simp add: put_slot_same)
    next
      case (taken x)
      let ?s = "on_heap (arc_drop (s_child x)) (put_slot i None s)"
      have "only_fewer s ?s" by simp
      from fewer_trans [OF this Cons.IH] show ?thesis using taken Some by simp
    qed
  qed (simp add: Cons)
qed simp

lemma fewer_resync: "only_fewer s (resync c s)"
  by (simp add: only_fewer_def)

lemma remover_of:
  assumes "\<And>s. slots_ok s \<Longrightarrow> slots_ok (f s)" and "\<And>s. only_fewer s (f s)"
  shows "slot_remover f"
proof unfold_locales
  fix s i x
  show "slots_ok s \<Longrightarrow> slots_ok (f s)" by (rule assms(1))
  show "rung s \<le> rung (f s)" "slots_budget (f s) = slots_budget s"
    "slots_wait (f s) = slots_wait s" "leases (f s) = leases s"
    using assms(2) [of s] by (simp_all add: only_fewer_def)
  show "held_in (f s) i = Some x \<Longrightarrow> held_in s i = Some x"
    using assms(2) [of s] by (simp add: only_fewer_def)
qed

lemma sparer_of:
  assumes "slot_remover f" and "\<And>s. slots_ok s \<Longrightarrow> spared s (f s)"
  shows "slot_sparer f"
proof (rule slot_sparer.intro [OF assms(1)])
  show "slot_sparer_axioms f"
    by (rule slot_sparer_axioms.intro) (use assms(2) in \<open>simp add: spared_def\<close>)
qed

interpretation exits: slot_sparer "sweep_exited c" for c
  by (rule sparer_of [OF remover_of])
    (auto intro: removed_ok removed_sweep_exited fewer_sweep_exited spared_sweep_exited)

interpretation idles: slot_sparer "\<lambda>s. fst (sweep_idle c w now s)" for c w now
  by (rule sparer_of [OF remover_of])
    (auto intro: removed_ok removed_sweep_idle fewer_sweep_idle spared_sweep_idle)

interpretation letting: slot_sparer "\<lambda>s. fst (let_go i s)" for i
  by (rule sparer_of [OF remover_of])
    (auto intro: removed_ok removed_let_go fewer_let_go spared_let_go)

interpretation unloading: slot_sparer "\<lambda>s. fst (unload is s)" for "is"
  by (rule sparer_of [OF remover_of])
    (auto intro: removed_ok removed_unload fewer_unload spared_unload)

interpretation reload: slot_sparer "resync c" for c
  by (rule sparer_of [OF remover_of]) (auto intro: ok_resync fewer_resync simp: spared_def)

interpretation stamps: slot_keeper "touch i now" for i now
  by unfold_locales (simp_all add: ok_touch)

interpretation fast: slot_keeper "\<lambda>s. fst (running e now s)" for e now
proof unfold_locales
  fix s
  obtain s' r where "running e now s = (s', r)" by fastforce
  then show "slots_ok s \<Longrightarrow> slots_ok (fst (running e now s))"
    "rung s \<le> rung (fst (running e now s))"
    "slots_budget (fst (running e now s)) = slots_budget s"
    "slots_wait (fst (running e now s)) = slots_wait s"
    using ok_running running_frames by auto
qed

interpretation joins: slot_keeper "\<lambda>s. fst (join_line t s)" for t
  by unfold_locales (simp_all add: ok_join_line)

interpretation leaves: slot_keeper "leave_line t" for t
  by unfold_locales (simp_all add: ok_leave_line rung_leave_line)

end
