(* ===== verification/Interleaving.thy ===== *)
theory Interleaving
  imports Slot_Keepers Admission_Policy
begin

text \<open>
  The slots under every interleaving of the router's threads, one hold of a slot's lock at a
  time. Requests on the fast path, requests letting go, children exiting on their own, the
  reaper and unloads on request act at any moment; the request holding the admission lock
  (\<open>admit\<close>, \<open>room_for\<close> and \<open>look\<close> of \<open>proxy/slots\<close>) reads the slots one after another,
  decides, unloads one after another and loads, with the others acting in between. The
  catalog does not change here; \<open>Serving_Steps\<close> lets a reload change it.
\<close>

section \<open>Steps\<close>

text \<open>
  Where the holder of the admission lock is: nobody; looking, with the entries still to read
  and what was read; unloading, with the decision's snapshot and list and what is left of it;
  or with the room made.
\<close>

datatype holder =
    Nobody
  | Looking asked "entry list" "(loaded \<times> string option) list"
  | Unloading asked "loaded list" "string list" "string list"
  | RoomMade asked "loaded list" "string list"

definition read_slot :: "slots \<Rightarrow> entry \<Rightarrow> (loaded \<times> string option) list" where
  "read_slot s e =
     (case held_in s (e_id e) of
        None \<Rightarrow> []
      | Some x \<Rightarrow> [(as_held s e x, if s_guest x then Some (e_id e) else None)])"

text \<open>A figure a machine can report: below \<open>2 ^ 48\<close> MiB.\<close>

definition sane :: "measurement \<Rightarrow> bool" where
  "sane m = ((\<forall>x. resident_mib m = Some x \<longrightarrow> unat x < 2 ^ 48) \<and>
     (\<forall>x. measured_device_mib m = Some x \<longrightarrow> unat x < 2 ^ 48))"

inductive others :: "catalog \<Rightarrow> slots \<Rightarrow> slots \<Rightarrow> bool" for c where
  fast_path: "e \<in> set (c_entries c) \<Longrightarrow> others c s (fst (running e now s))"
| release: "ch \<in># leases s \<Longrightarrow> others c s (lease_drop ch s)"
| exit: "heap_of s ch = Some x \<Longrightarrow>
    others c s (on_heap (\<lambda>h. h(ch \<mapsto> x\<lparr>process := Exited st\<rparr>)) s)"
| stamp: "others c s (touch i now s)"
| reap_exited: "others c s (fst (swept take_if_exited [i] s))"
| reap_idle: "e \<in> set (c_entries c) \<Longrightarrow> e_residency e = OnDemand \<Longrightarrow>
    others c s (fst (swept (take_stale now d) [e_id e] s))"
| on_request: "others c s (fst (let_go i s))"

inductive step :: "catalog \<Rightarrow> slots \<times> holder \<Rightarrow> slots \<times> holder \<Rightarrow> bool" for c where
  other: "others c s s' \<Longrightarrow> step c (s, h) (s', h)"
| resynced: "step c (s, Nobody) (resync c s, Nobody)"
| asks: "a_entry a \<in> set (c_entries c) \<Longrightarrow> running (a_entry a) now s = (s', None) \<Longrightarrow>
    step c (s, Nobody) (s', Looking a (c_entries c) [])"
| sees: "step c (s, Looking a (e # es) acc) (s, Looking a es (acc @ read_slot s e))"
| fits: "admit_with_guests (slots_budget s) (map fst acc) (List.map_filter snd acc)
      (wanted_of (a_entry a)) device = Fits \<Longrightarrow>
    step c (s, Looking a [] acc) (s, RoomMade a (map fst acc) [])"
| decides: "admit_with_guests (slots_budget s) (map fst acc) (List.map_filter snd acc)
      (wanted_of (a_entry a)) device = Unload ids \<Longrightarrow> a_room a = Any \<Longrightarrow>
    step c (s, Looking a [] acc) (s, Unloading a (map fst acc) ids ids)"
| gives_up: "step c (s, h) (s, Nobody)"
| unloads: "unload [i] s = (s', None) \<Longrightarrow>
    step c (s, Unloading a ls gone (i # rest)) (s', Unloading a ls gone rest)"
| blocked: "unload [i] s = (s', Some i) \<Longrightarrow>
    step c (s, Unloading a ls gone (i # rest)) (s', Nobody)"
| unloaded: "step c (s, Unloading a ls gone []) (s, RoomMade a ls gone)"
| loads: "heap_of s (s_child new) = None \<Longrightarrow> sane (s_measured new) \<Longrightarrow>
    step c (s, RoomMade a ls gone)
      (fst (insert_child (e_id (a_entry a)) new (on_heap (arc_new (s_child new)) s)), Nobody)"

inductive_cases step_from: "step c (s, h) w'"
inductive_cases others_from: "others c s s'"

inductive reachable :: "catalog \<Rightarrow> budget \<Rightarrow> wait \<Rightarrow> slots \<times> holder \<Rightarrow> bool" for c b w where
  begins: "reachable c b w (slots_new c b w, Nobody)"
| continues: "reachable c b w x \<Longrightarrow> step c x y \<Longrightarrow> reachable c b w y"

section \<open>What others may change\<close>

definition lesser :: "slots \<Rightarrow> slots \<Rightarrow> bool" where
  "lesser s s' =
     (slots_budget s' = slots_budget s \<and>
      (\<forall>i x'. held_in s' i = Some x' \<longrightarrow>
        (\<exists>x. held_in s i = Some x \<and> s_child x = s_child x' \<and> s_measured x = s_measured x')))"

lemma lesser_refl [simp]: "lesser s s"
  by (simp add: lesser_def)

lemma fewer_lesser: "only_fewer s s' \<Longrightarrow> lesser s s'"
  by (auto simp: only_fewer_def lesser_def)

lemma lesser_running: "lesser s (fst (running e now s))"
proof (cases "running e now s")
  case (Pair s' r)
  then have "lesser s s'" by (cases rule: running_cases) (auto simp: lesser_def)
  with Pair show ?thesis by simp
qed

lemma lesser_touch: "lesser s (touch i now s)"
  by (auto simp: touch_def lesser_def split: option.splits)

lemma lesser_frames: "lesser s (lease_drop ch s)" "lesser s (on_heap f s)"
  by (simp_all add: lesser_def)

lemma others_lesser: "others c s s' \<Longrightarrow> lesser s s'"
  by (induction rule: others.induct)
    (auto intro: lesser_running lesser_touch fewer_lesser fewer_swept taker_exited taker_stale
      fewer_let_go lesser_frames simp del: swept.simps)

lemma ok_exit:
  assumes "slots_ok s" and "heap_of s ch = Some x"
  shows "slots_ok (on_heap (\<lambda>h. h(ch \<mapsto> x\<lparr>process := p\<rparr>)) s)"
proof -
  let ?s = "on_heap (\<lambda>h. h(ch \<mapsto> x\<lparr>process := p\<rparr>)) s"
  have "strong_count (heap_of ?s) c = strong_count (heap_of s) c" for c
    using assms(2) by (simp add: strong_count_def)
  moreover have "heap_ok (heap_of ?s)"
    using slots_okD(1) [OF assms(1)] assms(2) by (auto simp: heap_ok_def)
  moreover have "in_slot ?s c \<longleftrightarrow> in_slot s c" for c by (simp add: in_slot_def)
  ultimately show ?thesis using assms(1) by (simp add: slots_ok_def)
qed

lemma others_ok: "others c s s' \<Longrightarrow> slots_ok s \<Longrightarrow> slots_ok s'"
  by (induction rule: others.induct)
    (auto intro: fast.keeps_ok ok_lease_drop ok_exit ok_touch letting.keeps_ok
      removed_ok removed_swept taker_exited taker_stale simp del: swept.simps)

section \<open>A load\<close>

lemma held_in_insert:
  "held_in (fst (insert_child i new s)) j = (if j = i then Some new else held_in s j)"
  by (auto simp: insert_child_def Let_def split: option.splits)

lemma insert_frames:
  "slots_budget (fst (insert_child i new s)) = slots_budget s"
  "leases (fst (insert_child i new s)) = add_mset (s_child new) (leases s)"
  "line (fst (insert_child i new s)) = line s"
  "in_line (fst (insert_child i new s)) = in_line s"
  by (auto simp: insert_child_def Let_def split: option.splits)

lemma ok_load:
  assumes "slots_ok s" and "held_in s i = None" and "heap_of s (s_child new) = None"
  shows "slots_ok (fst (insert_child i new (on_heap (arc_new (s_child new)) s)))"
proof -
  let ?c = "s_child new"
  let ?s = "fst (insert_child i new (on_heap (arc_new ?c) s))"
  have fresh: "?c \<notin># leases s" "\<not> in_slot s ?c"
    using ok_alive [OF assms(1), of ?c] assms(3) by auto
  then have none: "count (leases s) ?c = 0" by (simp add: not_in_iff)
  have heap: "heap_of ?s = arc_clone ?c (arc_new ?c (heap_of s))"
    using assms(2) by (simp add: insert_child_def Let_def)
  have other: "in_other ?s i c \<longleftrightarrow> in_other s i c" for c
    by (auto simp: in_other_def held_in_insert)
  have slot: "in_slot ?s c \<longleftrightarrow> c = ?c \<or> in_slot s c" for c
    using assms(2) by (auto simp: in_slot_at [of _ c i] held_in_insert other)
  have one: "j = k" if "held_in ?s j = Some u" "held_in ?s k = Some v" "s_child u = s_child v"
    for j k u v
    using that slots_okD(3) [OF assms(1), of j u k v] fresh(2)
    by (auto simp: held_in_insert in_slot_def split: if_splits)
  have count: "strong_count (heap_of ?s) c = count (leases ?s) c + (if in_slot ?s c then 1 else 0)" for c
    using slots_okD(2) [OF assms(1), of c] none fresh(2)
    by (auto simp: heap slot insert_frames strong_count_clone)
  show ?thesis
    by (rule slots_okI)
      (erule (2) one | simp only: count insert_frames frames slots_okD(4,5) [OF assms(1)]
        | simp add: heap slots_okD(1) [OF assms(1)])+
qed

section \<open>The invariant that needs no budget\<close>

fun asked_of :: "holder \<Rightarrow> asked option" where
  "asked_of Nobody = None"
| "asked_of (Looking a _ _) = Some a"
| "asked_of (Unloading a _ _ _) = Some a"
| "asked_of (RoomMade a _ _) = Some a"

definition steady :: "slots \<times> holder \<Rightarrow> bool" where
  "steady w =
     (slots_ok (fst w) \<and>
      (\<forall>a. asked_of (snd w) = Some a \<longrightarrow> held_in (fst w) (e_id (a_entry a)) = None))"

lemma lesser_None: "lesser s s' \<Longrightarrow> held_in s i = None \<Longrightarrow> held_in s' i = None"
  unfolding lesser_def by (metis option.distinct(1) option.exhaust)

lemma running_None:
  assumes "running e now s = (s', None)"
  shows "held_in s' (e_id e) = None"
  using assms by (cases rule: running_cases) auto

lemma unload_lesser: "unload is s = (s', r) \<Longrightarrow> lesser s s'"
  using fewer_unload [of s "is"] by (simp add: fewer_lesser)

lemma steady_step: "step c w w' \<Longrightarrow> steady w \<Longrightarrow> steady w'"
proof (induction rule: step.induct)
  case (other s s' h)
  then show ?case
    using others_ok [of c s s'] lesser_None [OF others_lesser] by (simp add: steady_def)
next
  case (asks a now s s')
  then show ?case
    using ok_running [of s "a_entry a" now s' None] running_None [of "a_entry a" now s s']
    by (simp add: steady_def)
next
  case (unloads i s s' a ls gone rest)
  then show ?case
    using unloading.keeps_ok [of s "[i]"] lesser_None [OF unload_lesser [OF unloads(1)]]
    by (simp add: steady_def)
next
  case (blocked i s s' a ls gone rest)
  then show ?case using unloading.keeps_ok [of s "[i]"] by (simp add: steady_def)
next
  case (loads s new a ls gone)
  then show ?case using ok_load by (simp add: steady_def)
qed (simp_all add: steady_def ok_resync)

lemma reachable_steady: "reachable c b w x \<Longrightarrow> steady x"
proof (induction rule: reachable.induct)
  case begins
  then show ?case by (simp add: steady_def)
next
  case (continues x y)
  then show ?case using steady_step by blast
qed

section \<open>What is read stays in its slot\<close>

definition keeps_read :: "slots \<Rightarrow> slots \<Rightarrow> bool" where
  "keeps_read s s' =
     (\<forall>i x. held_in s i = Some x \<and> s_child x \<in># leases s \<longrightarrow>
        (\<exists>x'. held_in s' i = Some x' \<and> s_child x' = s_child x))"

lemma keeps_read_spared: "spared s s' \<Longrightarrow> keeps_read s s'"
  by (auto simp: spared_def keeps_read_def)

lemma keeps_read_same: "(\<And>i. held_in s' i = held_in s i) \<Longrightarrow> keeps_read s s'"
  by (simp add: keeps_read_def)

lemma keeps_read_running:
  assumes "slots_ok s" and "running e now s = (s', r)"
  shows "keeps_read s s'"
  using assms(2)
proof (cases rule: running_cases)
  case (dead x st)
  then have "s_child x \<notin># leases s" using ok_exited [OF assms(1)] by blast
  with dead show ?thesis by (auto simp: keeps_read_def)
qed (auto simp: keeps_read_def)

lemma keeps_read_others: "others c s s' \<Longrightarrow> slots_ok s \<Longrightarrow> keeps_read s s'"
proof (induction rule: others.induct)
  case (fast_path e s now)
  then show ?case using keeps_read_running [of s e now] by (metis prod.collapse)
next
  case (stamp s i now)
  then show ?case by (auto simp: touch_def keeps_read_def split: option.splits)
next
  case (reap_exited s i)
  then show ?case
    by (intro keeps_read_spared spared_swept taker_exited idle_exited)
next
  case (reap_idle e s now d)
  then show ?case
    by (intro keeps_read_spared spared_swept taker_stale idle_stale)
next
  case (on_request s i)
  then show ?case by (intro keeps_read_spared spared_let_go)
qed (simp_all add: keeps_read_same)

lemma keeps_read_step: "step c w w' \<Longrightarrow> steady w \<Longrightarrow> keeps_read (fst w) (fst w')"
proof (induction rule: step.induct)
  case (other s s' h)
  then show ?case using keeps_read_others by (simp add: steady_def)
next
  case (asks a now s s')
  then show ?case using keeps_read_running [of s "a_entry a" now s' None] by (simp add: steady_def)
next
  case (unloads i s s' a ls gone rest)
  then show ?case
    using spared_unload [of s "[i]"] by (simp add: steady_def keeps_read_spared)
next
  case (blocked i s s' a ls gone rest)
  then show ?case
    using spared_unload [of s "[i]"] by (simp add: steady_def keeps_read_spared)
next
  case (loads s new a ls gone)
  then show ?case by (auto simp: keeps_read_def held_in_insert steady_def)
qed (simp_all add: keeps_read_same)

end
