(* ===== verification/Ledger.thy ===== *)
theory Ledger
  imports Interleaving
begin

text \<open>
  The invariant of the interleavings: the slots stay well formed, what is loaded is
  estimated within the budget, and a request that has its room made has room for its own
  estimate beside what is held, whatever the other threads did between its looks.
\<close>

section \<open>What is held, as sums\<close>

lemma subseq_distinct: "subseq xs ys \<Longrightarrow> distinct ys \<Longrightarrow> distinct xs"
  by (auto simp: subseq_conv_nths)

definition cost_of :: "entry \<Rightarrow> measurement \<Rightarrow> u64" where
  "cost_of e m = cost_mib (loaded_of e False 0 m)"

lemma cost_as_held [simp]: "cost_mib (as_held s e x) = cost_of e (s_measured x)"
  by (simp add: as_held_def loaded_of_def cost_of_def Let_def)

lemma id_as_held [simp]: "l_id (as_held s e x) = e_id e"
  by (simp add: as_held_def)

lemma cost_of_ge: "unat (e_memory_estimate_mib e) \<le> unat (cost_of e m)"
  using loaded_of_cost_ge [of e False 0 m] by (simp add: cost_of_def word_le_nat_alt unat_widen)

definition ledger :: "catalog \<Rightarrow> slots \<Rightarrow> nat" where
  "ledger c s = (\<Sum>e \<in> set (c_entries c).
     case held_in s (e_id e) of None \<Rightarrow> 0 | Some x \<Rightarrow> unat (cost_of e (s_measured x)))"

definition estimated :: "catalog \<Rightarrow> slots \<Rightarrow> nat" where
  "estimated c s = (\<Sum>e \<in> set (c_entries c).
     case held_in s (e_id e) of None \<Rightarrow> 0 | Some x \<Rightarrow> unat (e_memory_estimate_mib e))"

lemma estimated_le_ledger: "estimated c s \<le> ledger c s"
  unfolding estimated_def ledger_def
  by (rule sum_mono) (simp add: cost_of_ge split: option.splits)

lemma ledger_lesser:
  assumes "lesser s s'"
  shows "ledger c s' \<le> ledger c s" and "estimated c s' \<le> estimated c s"
proof -
  have "\<exists>x. held_in s i = Some x \<and> s_measured x = s_measured x'" if "held_in s' i = Some x'" for i x'
    using assms that by (auto simp: lesser_def)
  then show "ledger c s' \<le> ledger c s" "estimated c s' \<le> estimated c s"
    unfolding ledger_def estimated_def
    by (auto intro!: sum_mono split: option.splits) fastforce+
qed

lemma estimated_insert:
  assumes "distinct (ids_of c)" and "e \<in> set (c_entries c)" and "held_in s (e_id e) = None"
    and "\<And>j. held_in s' j = (if j = e_id e then Some new else held_in s j)"
  shows "estimated c s' = estimated c s + unat (e_memory_estimate_mib e)"
proof -
  let ?f = "\<lambda>s e. case held_in s (e_id e) of None \<Rightarrow> 0 | Some x \<Rightarrow> unat (e_memory_estimate_mib e)"
  have "?f s' d = ?f s d + (if d = e then unat (e_memory_estimate_mib e) else 0)"
    if "d \<in> set (c_entries c)" for d
  proof (cases "d = e")
    case False
    then have "e_id d \<noteq> e_id e"
      using assms(1,2) that by (auto simp: distinct_map inj_on_def)
    with False show ?thesis by (simp add: assms(4))
  qed (simp add: assms(3,4))
  then have "estimated c s' =
      (\<Sum>d \<in> set (c_entries c). ?f s d + (if d = e then unat (e_memory_estimate_mib e) else 0))"
    unfolding estimated_def by (intro sum.cong) auto
  then show ?thesis using assms(2) by (simp add: sum.distrib estimated_def)
qed

section \<open>A snapshot covers what is held\<close>

definition covers :: "catalog \<Rightarrow> slots \<Rightarrow> loaded list \<Rightarrow> bool" where
  "covers c s ls =
     (distinct (map l_id ls) \<and>
      (\<forall>e \<in> set (c_entries c). \<forall>x. held_in s (e_id e) = Some x \<longrightarrow>
         (\<exists>l \<in> set ls. l_id l = e_id e \<and> cost_mib l = cost_of e (s_measured x))))"

lemma covers_ledger:
  assumes "covers c s ls" and "distinct (ids_of c)"
  shows "ledger c s \<le> total_cost ls"
proof -
  let ?occ = "{e \<in> set (c_entries c). held_in s (e_id e) \<noteq> None}"
  define g :: "entry \<Rightarrow> loaded" where "g e = (SOME l. l \<in> set ls \<and> l_id l = e_id e)" for e
  have g: "g e \<in> set ls \<and> l_id (g e) = e_id e \<and> cost_mib (g e) = cost_of e (s_measured x)"
    if "e \<in> set (c_entries c)" "held_in s (e_id e) = Some x" for e x
  proof -
    obtain l where l: "l \<in> set ls" "l_id l = e_id e" "cost_mib l = cost_of e (s_measured x)"
      using assms(1) \<open>e \<in> set (c_entries c)\<close> \<open>held_in s (e_id e) = Some x\<close>
      unfolding covers_def by blast
    then have "g e \<in> set ls \<and> l_id (g e) = e_id e"
      unfolding g_def by (intro someI [of "\<lambda>l. l \<in> set ls \<and> l_id l = e_id e" l]) simp
    moreover have "inj_on l_id (set ls)" using assms(1) by (simp add: covers_def distinct_map)
    ultimately show ?thesis using l by (metis inj_onD)
  qed
  have inj: "inj_on g ?occ"
    using g assms(2) by (auto simp: inj_on_def distinct_map) metis
  have "ledger c s = (\<Sum>e \<in> ?occ. unat (cost_mib (g e)))"
    unfolding ledger_def
    by (rule sum.mono_neutral_cong_right) (auto split: option.splits simp: g)
  also have "\<dots> = (\<Sum>l \<in> g ` ?occ. unat (cost_mib l))"
    using inj by (simp add: sum.reindex)
  also have "\<dots> \<le> (\<Sum>l \<in> set ls. unat (cost_mib l))"
    using g by (intro sum_mono2) auto
  also have "\<dots> = total_cost ls"
    using assms(1)
    by (simp add: total_cost_def covers_def distinct_map sum_list_distinct_conv_sum_set)
  finally show ?thesis .
qed

lemma covers_kept:
  assumes "covers c s ls" and "\<And>i. i \<in> set gone \<Longrightarrow> held_in s i = None"
  shows "covers c s (staying ls gone)"
  using assms by (fastforce simp: covers_def staying_def distinct_map_filter)

lemma covers_lesser: "covers c s ls \<Longrightarrow> lesser s s' \<Longrightarrow> covers c s' ls"
  unfolding covers_def lesser_def by metis

section \<open>What a decision leaves room for\<close>

lemma decision_room:
  assumes d: "admit_with_guests b ls guests w free = Fits \<and> gone = [] \<or>
      admit_with_guests b ls guests w free = Unload gone"
    and "w_id w \<notin> set (map l_id ls)" and "distinct (map l_id ls)"
    and "no_overflow ls w None" and l: "limit_mib b = Some l"
  shows "total_cost (staying ls gone) + unat (w_cost_mib w) \<le> unat l"
proof -
  have nl: "\<not> list_ex (\<lambda>e. l_id e = w_id w) ls" using assms(2) by (force simp: list_ex_iff)
  have ns: "\<not> (\<exists>l. limit_mib b = Some l \<and> widen l < w_cost_mib w)"
    using d admit_too_large [OF nl] by fastforce
  let ?r = "\<lambda>fr. room_of (map_option widen (limit_mib b)) ls fr"
  have weaken: "room_short (?r free) w f = None \<Longrightarrow> room_short (?r None) w f = None" for f
    by (auto simp: room_short_def room_of_def Let_def split: if_splits option.splits)
  obtain n where "gone = map l_id (take n (candidates ls guests w))"
      and "room_short (?r free) w (freed_by (take n (candidates ls guests w))) = None"
  proof (rule admit_cases [OF nl ns, of guests free])
    fix n
    assume "admit_with_guests b ls guests w free =
          (case room_short (?r free) w (freed_by (take n (candidates ls guests w))) of
             None \<Rightarrow> if n = 0 then Fits else Unload (map l_id (take n (candidates ls guests w)))
           | Some sh \<Rightarrow>
               if list_ex (frees_itself w) ls
               then Blocked (refusal (?r free) sh w (freed_by (take n (candidates ls guests w))) ls)
               else Refuse (refusal (?r free) sh w (freed_by (take n (candidates ls guests w))) ls))"
    with d show thesis
      by (intro that [of n]) (auto split: option.splits if_splits)
  qed
  then have "fits_without (limit_mib b) None ls w gone"
    using weaken room_short_exact [OF assms(3,4), of "limit_mib b" n guests] by simp
  with l show ?thesis by (simp add: fits_without_def)
qed

text \<open>Sane figures keep every sum the decision forms inside \<open>u64\<close>.\<close>

definition sane_loaded :: "loaded \<Rightarrow> bool" where
  "sane_loaded l = (unat (cost_mib l) < 2 ^ 48 \<and> unat (device_mib l) < 2 ^ 48)"

lemma sane_as_held: "sane (s_measured x) \<Longrightarrow> sane_loaded (as_held s e x)"
proof -
  assume s: "sane (s_measured x)"
  have w: "unat (widen m) < 2 ^ 48" for m using widen_less [of m] by simp
  have "unat (device_need_mib e) < 2 ^ 48" using w by (auto simp: device_need_mib_def)
  with s w show ?thesis
    by (auto simp: sane_loaded_def as_held_def loaded_of_def sane_def Let_def largest_mib_def
        unat_max_word split: option.splits)
qed

lemma sum_list_bound:
  "\<forall>x \<in> set xs. f x < (B :: nat) \<Longrightarrow> sum_list (map f xs) \<le> length xs * B"
  by (induction xs) auto

lemma sane_no_overflow:
  assumes "\<forall>l \<in> set ls. sane_loaded l" and "length ls \<le> 2 ^ 14"
  shows "no_overflow ls (wanted_of e) None"
proof -
  have "total_cost ls \<le> length ls * 2 ^ 48" "total_device ls \<le> length ls * 2 ^ 48"
    unfolding total_cost_def total_device_def
    by (rule sum_list_bound; use assms(1) in \<open>auto simp: sane_loaded_def\<close>)+
  moreover have "length ls * 2 ^ 48 \<le> 2 ^ 14 * (2 ^ 48 :: nat)" using assms(2) by (rule mult_le_mono1)
  moreover have "unat (w_cost_mib (wanted_of e)) < 2 ^ 32"
    using widen_less [of "e_memory_estimate_mib e"] by (simp add: wanted_of_def)
  ultimately show ?thesis by (simp add: no_overflow_def)
qed

section \<open>The invariant\<close>

definition small_catalog :: "catalog \<Rightarrow> bool" where
  "small_catalog c = (distinct (ids_of c) \<and> length (c_entries c) \<le> 2 ^ 14)"

text \<open>What is read so far is sane, named in catalog order, and covers the entries read.\<close>

definition read_ok :: "catalog \<Rightarrow> slots \<Rightarrow> entry list \<Rightarrow> loaded list \<Rightarrow> bool" where
  "read_ok c s todo ls =
     (\<exists>seen. c_entries c = seen @ todo \<and> subseq (map l_id ls) (map e_id seen) \<and>
        (\<forall>l \<in> set ls. sane_loaded l) \<and>
        (\<forall>e \<in> set seen. \<forall>x. held_in s (e_id e) = Some x \<longrightarrow>
           (\<exists>l \<in> set ls. l_id l = e_id e \<and> cost_mib l = cost_of e (s_measured x))))"

definition roomy :: "catalog \<Rightarrow> u32 \<Rightarrow> slots \<Rightarrow> asked \<Rightarrow> loaded list \<Rightarrow> string list \<Rightarrow> bool" where
  "roomy c l s a ls gone =
     (covers c s ls \<and>
      total_cost (staying ls gone) + unat (e_memory_estimate_mib (a_entry a)) \<le> unat l)"

fun holder_ok :: "catalog \<Rightarrow> u32 \<Rightarrow> slots \<Rightarrow> holder \<Rightarrow> bool" where
  "holder_ok c l s Nobody = True"
| "holder_ok c l s (Looking a todo acc) =
     (a_entry a \<in> set (c_entries c) \<and> held_in s (e_id (a_entry a)) = None \<and>
      e_id (a_entry a) \<notin> set (map l_id (map fst acc)) \<and> read_ok c s todo (map fst acc))"
| "holder_ok c l s (Unloading a ls gone rest) =
     (a_entry a \<in> set (c_entries c) \<and> held_in s (e_id (a_entry a)) = None \<and>
      roomy c l s a ls gone \<and>
      (\<forall>i \<in> set gone. i \<in> set rest \<or> held_in s i = None))"
| "holder_ok c l s (RoomMade a ls gone) =
     (a_entry a \<in> set (c_entries c) \<and> held_in s (e_id (a_entry a)) = None \<and>
      roomy c l s a ls gone \<and> (\<forall>i \<in> set gone. held_in s i = None))"

definition all_sane :: "slots \<Rightarrow> bool" where
  "all_sane s = (\<forall>i x. held_in s i = Some x \<longrightarrow> sane (s_measured x))"

text \<open>
  What every step keeps whatever is loaded, and with it the estimates within the budget. The
  two are kept apart since a request may work under a catalog that is not the one the
  estimates are taken from.
\<close>

definition holding :: "catalog \<Rightarrow> u32 \<Rightarrow> slots \<times> holder \<Rightarrow> bool" where
  "holding c l w =
     (slots_ok (fst w) \<and> limit_mib (slots_budget (fst w)) = Some l \<and> all_sane (fst w) \<and>
      holder_ok c l (fst w) (snd w))"

definition world_ok :: "catalog \<Rightarrow> u32 \<Rightarrow> slots \<times> holder \<Rightarrow> bool" where
  "world_ok c l w = (holding c l w \<and> estimated c (fst w) \<le> unat l)"

lemma read_ok_lesser: "read_ok c s todo ls \<Longrightarrow> lesser s s' \<Longrightarrow> read_ok c s' todo ls"
  unfolding read_ok_def lesser_def by metis

lemma holder_ok_lesser: "holder_ok c l s h \<Longrightarrow> lesser s s' \<Longrightarrow> holder_ok c l s' h"
  using read_ok_lesser [of c s _ _ s'] covers_lesser [of c s _ s'] lesser_None [of s s']
  by (cases h) (auto simp: roomy_def)

lemma holding_lesser:
  assumes "holding c l (s, h)" and "lesser s s'" and "slots_ok s'"
  shows "holding c l (s', h)"
proof -
  have "all_sane s'" using assms(1,2) unfolding holding_def all_sane_def lesser_def by fastforce
  with assms holder_ok_lesser show ?thesis by (auto simp: holding_def lesser_def)
qed

lemma read_ok_sees:
  assumes "read_ok c s (e # es) (map fst acc)" and "all_sane s"
  shows "read_ok c s es (map fst (acc @ read_slot s e))"
proof -
  obtain seen where seen: "c_entries c = seen @ e # es"
      "subseq (map l_id (map fst acc)) (map e_id seen)"
      "\<forall>l \<in> set (map fst acc). sane_loaded l"
      "\<forall>d \<in> set seen. \<forall>x. held_in s (e_id d) = Some x \<longrightarrow>
         (\<exists>l \<in> set (map fst acc). l_id l = e_id d \<and> cost_mib l = cost_of d (s_measured x))"
    using assms(1) by (auto simp: read_ok_def)
  show ?thesis
  proof (cases "held_in s (e_id e)")
    case None
    then have r: "read_slot s e = []" by (simp add: read_slot_def)
    have "subseq (map l_id (map fst acc)) (map e_id (seen @ [e]))"
      using seen(2) by (auto intro: subseq_order.trans)
    with seen None r show ?thesis
      unfolding read_ok_def by (intro exI [of _ "seen @ [e]"]) auto
  next
    case (Some x)
    then have r: "map fst (read_slot s e) = [as_held s e x]" by (simp add: read_slot_def)
    have "subseq (map l_id (map fst acc @ [as_held s e x])) (map e_id (seen @ [e]))"
      using seen(2) by (simp add: list_emb_append_mono)
    moreover have "sane_loaded (as_held s e x)"
      using assms(2) Some sane_as_held by (auto simp: all_sane_def)
    ultimately show ?thesis
      using seen Some r unfolding read_ok_def
      by (intro exI [of _ "seen @ [e]"]) auto
  qed
qed

section \<open>Every step keeps it\<close>

lemma unload_one:
  assumes "unload [i] s = (s', None)"
  shows "held_in s' i = None \<and> only_fewer s s'"
proof -
  have "only_fewer s s'" using fewer_unload [of s "[i]"] assms by simp
  moreover have "held_in s' i = None"
  proof (cases "by_id s i")
    case None
    with assms show ?thesis by (auto simp: held_in_def)
  next
    case (Some cell)
    from take_always [of "heap_of s" cell] show ?thesis
      by cases (use assms Some in auto)
  qed
  ultimately show ?thesis by simp
qed

lemma read_ok_done: "read_ok c s [] ls \<Longrightarrow> distinct (ids_of c) \<Longrightarrow> covers c s ls"
  unfolding read_ok_def covers_def by (auto dest: subseq_distinct)

lemma read_ok_small:
  assumes "read_ok c s [] ls" and "small_catalog c"
  shows "no_overflow ls (wanted_of e) None" and "distinct (map l_id ls)"
proof -
  obtain seen where "c_entries c = seen" and sub: "subseq (map l_id ls) (map e_id seen)"
      and sane: "\<forall>l \<in> set ls. sane_loaded l"
    using assms(1) by (auto simp: read_ok_def)
  with assms(2) have "length ls \<le> 2 ^ 14" "distinct (map l_id ls)"
    using list_emb_length [OF sub] by (auto simp: small_catalog_def dest: subseq_distinct)
  with sane sane_no_overflow show "no_overflow ls (wanted_of e) None" "distinct (map l_id ls)"
    by auto
qed

lemma decided_room:
  assumes "holding c l (s, Looking a [] acc)" and "small_catalog c"
    and "admit_with_guests (slots_budget s) (map fst acc) guests (wanted_of (a_entry a)) device = Fits \<and>
        gone = [] \<or>
      admit_with_guests (slots_budget s) (map fst acc) guests (wanted_of (a_entry a)) device = Unload gone"
  shows "roomy c l s a (map fst acc) gone"
proof -
  have ok: "read_ok c s [] (map fst acc)" "limit_mib (slots_budget s) = Some l"
      "w_id (wanted_of (a_entry a)) \<notin> set (map l_id (map fst acc))"
    using assms(1) by (auto simp: holding_def wanted_of_def)
  have "total_cost (staying (map fst acc) gone) + unat (w_cost_mib (wanted_of (a_entry a))) \<le> unat l"
    using decision_room [OF assms(3) ok(3) _ _ ok(2)] read_ok_small [OF ok(1) assms(2)] by blast
  moreover have "covers c s (map fst acc)"
    using read_ok_done [OF ok(1)] assms(2) by (simp add: small_catalog_def)
  ultimately show ?thesis by (simp add: roomy_def wanted_of_def unat_widen)
qed

lemma room_ledger:
  assumes "roomy c l s a ls gone" and "small_catalog c" and "\<forall>i \<in> set gone. held_in s i = None"
  shows "ledger c s + unat (e_memory_estimate_mib (a_entry a)) \<le> unat l"
proof -
  have "covers c s (staying ls gone)"
    using assms(1,3) by (intro covers_kept) (auto simp: roomy_def)
  then have "ledger c s \<le> total_cost (staying ls gone)"
    using assms(2) by (intro covers_ledger) (auto simp: small_catalog_def)
  with assms(1) show ?thesis by (simp add: roomy_def)
qed

lemma loads_estimated:
  assumes "holding c l (s, RoomMade a ls gone)" and "small_catalog c"
  shows "estimated c
    (fst (insert_child (e_id (a_entry a)) new (on_heap (arc_new (s_child new)) s))) \<le> unat l"
proof -
  let ?s = "fst (insert_child (e_id (a_entry a)) new (on_heap (arc_new (s_child new)) s))"
  have ok: "held_in s (e_id (a_entry a)) = None" "a_entry a \<in> set (c_entries c)"
      "roomy c l s a ls gone" "\<forall>i \<in> set gone. held_in s i = None"
    using assms(1) by (auto simp: holding_def)
  have h: "held_in ?s j = (if j = e_id (a_entry a) then Some new else held_in s j)" for j
    by (simp add: held_in_insert)
  have "estimated c ?s = estimated c s + unat (e_memory_estimate_mib (a_entry a))"
    using assms(2) ok(1,2) h by (intro estimated_insert) (auto simp: small_catalog_def)
  then show ?thesis
    using room_ledger [OF ok(3) assms(2) ok(4)] estimated_le_ledger [of c s] by linarith
qed

lemma holding_loads:
  assumes "holding c l (s, RoomMade a ls gone)"
    and "heap_of s (s_child new) = None" and "sane (s_measured new)"
  shows "holding c l
    (fst (insert_child (e_id (a_entry a)) new (on_heap (arc_new (s_child new)) s)), Nobody)"
  using assms ok_load [of s "e_id (a_entry a)" new]
  by (auto simp: holding_def insert_frames all_sane_def held_in_insert split: if_splits)

lemma holding_gives_up: "holding c l (s, h) \<Longrightarrow> holding c l (s, Nobody)"
  by (simp add: holding_def)

lemma holding_step:
  assumes "step c w w'" and "holding c l w" and "small_catalog c"
  shows "holding c l w'"
  using assms
proof (induction rule: step.induct)
  case (other s s' h)
  then have "slots_ok s'" using others_ok [of c s s'] by (simp add: holding_def)
  with other show ?case using holding_lesser others_lesser by blast
next
  case (resynced s)
  then show ?case
    using holding_lesser [of c l s Nobody "resync c s"] fewer_lesser [OF fewer_resync]
      ok_resync by (simp add: holding_def)
next
  case (asks a now s s')
  have "lesser s s'" using lesser_running [of s "a_entry a" now] asks by simp
  moreover have "slots_ok s'" using asks ok_running [of s "a_entry a" now s' None] by (simp add: holding_def)
  ultimately have ok: "holding c l (s', Nobody)" using asks(3) holding_lesser by blast
  have "read_ok c s' (c_entries c) []" by (simp add: read_ok_def)
  with ok asks running_None [of "a_entry a" now s s'] show ?case by (simp add: holding_def)
next
  case (sees s a e es acc)
  have r: "read_ok c s es (map fst (acc @ read_slot s e))"
    using sees by (intro read_ok_sees) (auto simp: holding_def)
  have "l_id (fst p) \<noteq> e_id (a_entry a)" if "p \<in> set (read_slot s e)" for p
    using sees that by (auto simp: holding_def read_slot_def split: option.splits)
  with sees r show ?case by (fastforce simp: holding_def)
next
  case (fits s acc a device)
  from decided_room [OF fits(2,3), of _ device "[]"] fits show ?case
    by (auto simp: holding_def)
next
  case (decides s acc a device ids)
  from decided_room [OF decides(3,4), of _ device ids] decides show ?case
    by (auto simp: holding_def)
next
  case (gives_up s h)
  then show ?case by (intro holding_gives_up)
next
  case (unloads i s s' a ls gone rest)
  have u: "held_in s' i = None" "only_fewer s s'" using unload_one [OF unloads(1)] by auto
  have "slots_ok s'" using unloads unloading.keeps_ok [of s "[i]"] by (simp add: holding_def)
  with unloads u(2) have "holding c l (s', Unloading a ls gone (i # rest))"
    using holding_lesser fewer_lesser by blast
  with u(1) show ?case by (auto simp: holding_def)
next
  case (blocked i s s' a ls gone rest)
  have "only_fewer s s'" using fewer_unload [of s "[i]"] blocked(1) by simp
  moreover have "slots_ok s'" using blocked unloading.keeps_ok [of s "[i]"] by (simp add: holding_def)
  ultimately have "holding c l (s', Unloading a ls gone (i # rest))"
    using blocked holding_lesser fewer_lesser by blast
  then show ?case by (rule holding_gives_up)
next
  case (unloaded s a ls gone)
  then show ?case by (simp add: holding_def)
next
  case (loads s new a ls gone)
  then show ?case by (simp only: holding_loads)
qed

text \<open>A step loads, with room made for it, or it leaves no more in the slots than there was.\<close>

lemma step_lesser:
  assumes "step c w w'"
  obtains "lesser (fst w) (fst w')"
  | s new a ls gone where "w = (s, RoomMade a ls gone)"
      "fst w' = fst (insert_child (e_id (a_entry a)) new (on_heap (arc_new (s_child new)) s))"
  using assms
proof cases
  case (other s s' h)
  then show thesis using that(1) others_lesser by simp
next
  case (resynced s)
  then show thesis using that(1) fewer_lesser [OF fewer_resync] by simp
next
  case (asks a now s s')
  then show thesis using that(1) lesser_running [of s "a_entry a" now] by simp
next
  case (unloads i s s' a ls gone rest)
  then show thesis by (intro that(1)) (simp add: unload_lesser [of "[i]"] del: unload.simps)
next
  case (blocked i s s' a ls gone rest)
  then show thesis by (intro that(1)) (simp add: unload_lesser [of "[i]"] del: unload.simps)
next
  case (loads s new a ls gone)
  then show thesis using that(2) by simp
qed (simp_all add: that(1))

lemma world_ok_step:
  assumes "step c w w'" and "world_ok c l w" and "small_catalog c"
  shows "world_ok c l w'"
proof -
  have h: "holding c l w" "estimated c (fst w) \<le> unat l" using assms(2) by (simp_all add: world_ok_def)
  have "estimated c (fst w') \<le> unat l"
    using assms(1)
  proof (cases rule: step_lesser)
    case 1
    with h(2) ledger_lesser(2) show ?thesis by (blast intro: le_trans)
  next
    case (2 s new a ls gone)
    with loads_estimated h(1) assms(3) show ?thesis by simp
  qed
  with holding_step [OF assms(1) h(1) assms(3)] show ?thesis by (simp add: world_ok_def)
qed

lemma reachable_ok:
  assumes "reachable c b w x" and "small_catalog c" and "limit_mib b = Some l"
  shows "world_ok c l x"
  using assms(1)
proof induction
  case begins
  have "held_in (slots_new c b w) i = None" for i
    by (auto simp: held_in_def slots_new_def split: option.splits dest: map_of_SomeD)
  then have "all_sane (slots_new c b w)" "estimated c (slots_new c b w) = 0"
    by (simp_all add: all_sane_def estimated_def)
  moreover have "slots_budget (slots_new c b w) = b" by (simp add: slots_new_def)
  ultimately show ?case using assms(3) by (simp add: world_ok_def holding_def)
next
  case (continues x y)
  then show ?case using world_ok_step assms(2) by blast
qed

end
