(* ===== verification/Slot_Claims.thy ===== *)
theory Slot_Claims
  imports Ledger
begin

text \<open>
  The properties of the slots under every interleaving and of the sweeps that act on them.
\<close>

section \<open>A small run, for the witnesses\<close>

text \<open>One model in the catalog, a budget of ten MiB, and the model loaded and leased.\<close>

definition demo_entry :: entry where
  "demo_entry = plain_entry ''m'' 5 OnDemand"

definition demo_catalog :: catalog where
  "demo_catalog = \<lparr>c_version = 1, c_entries = [demo_entry], c_derived = {}, c_discovered = {}\<rparr>"

definition demo_child :: slot_loaded where
  "demo_child = \<lparr>s_child = 7, s_last_used = 0, s_measured = UNKNOWN, s_guest = False\<rparr>"

definition demo_asked :: asked where
  "demo_asked = \<lparr>a_entry = demo_entry, a_room = Any\<rparr>"

definition demo_new :: slots where
  "demo_new = slots_new demo_catalog (budget_new (Some 10)) (Wait 0)"

definition demo_loaded :: slots where
  "demo_loaded = fst (insert_child ''m'' demo_child (on_heap (arc_new 7) demo_new))"

lemma demo_id [simp]: "e_id demo_entry = ''m''"
  by (simp add: demo_entry_def plain_entry_def)

lemma held_in_demo_new [simp]: "held_in demo_new i = None"
  by (auto simp: demo_new_def held_in_def slots_new_def split: option.splits dest: map_of_SomeD)

lemma held_in_demo_loaded [simp]:
  "held_in demo_loaded i = (if i = ''m'' then Some demo_child else None)"
  by (simp add: demo_loaded_def held_in_insert)

lemma leases_demo_loaded [simp]: "leases demo_loaded = {#7#}"
  by (simp add: demo_loaded_def insert_frames demo_child_def demo_new_def slots_new_def)

lemma running_empty:
  assumes "held_in s (e_id e) = None"
  shows "running e now s = (s, None)"
proof (cases "running e now s")
  case (Pair s' r)
  then have "s' = s \<and> r = None" by (cases rule: running_cases) (use assms in auto)
  with Pair show ?thesis by simp
qed

lemma demo_fits:
  "admit_with_guests (slots_budget demo_new) [] [] (wanted_of demo_entry) None = Fits"
  by (simp add: admit_with_guests_def demo_new_def slots_new_def budget_new_def
      budget_with_probe_def wanted_of_def demo_entry_def plain_entry_def room_short_def
      room_of_def freed_default_def sat_sub_def widen_def Let_def)

lemma demo_made: "reachable demo_catalog (budget_new (Some 10)) (Wait 0) (demo_new, RoomMade demo_asked [] [])"
proof -
  have e: "c_entries demo_catalog = [demo_entry]" "a_entry demo_asked = demo_entry"
    by (simp_all add: demo_catalog_def demo_asked_def)
  have "reachable demo_catalog (budget_new (Some 10)) (Wait 0) (demo_new, Nobody)"
    unfolding demo_new_def by (rule begins)
  moreover have "step demo_catalog (demo_new, Nobody) (demo_new, Looking demo_asked [demo_entry] [])"
    using asks [of demo_asked demo_catalog 0 demo_new demo_new] e running_empty by simp
  moreover have "step demo_catalog (demo_new, Looking demo_asked [demo_entry] [])
      (demo_new, Looking demo_asked [] [])"
    using sees [of demo_catalog demo_new demo_asked demo_entry "[]" "[]"] by (simp add: read_slot_def)
  moreover have "step demo_catalog (demo_new, Looking demo_asked [] []) (demo_new, RoomMade demo_asked [] [])"
    using fits [of demo_new "[]" demo_asked None demo_catalog] demo_fits e
    by (simp add: List.map_filter_simps)
  ultimately show ?thesis using continues by blast
qed

lemma demo_reached: "reachable demo_catalog (budget_new (Some 10)) (Wait 0) (demo_loaded, Nobody)"
proof -
  have "heap_of demo_new (s_child demo_child) = None" by (simp add: demo_new_def slots_new_def)
  moreover have "sane (s_measured demo_child)" by (simp add: demo_child_def sane_def UNKNOWN_def)
  ultimately have "step demo_catalog (demo_new, RoomMade demo_asked [] []) (demo_loaded, Nobody)"
    using loads [of demo_new demo_child demo_catalog demo_asked "[]" "[]"]
    by (simp add: demo_loaded_def demo_asked_def demo_child_def)
  with demo_made show ?thesis by (rule continues)
qed

lemma demo_small: "small_catalog demo_catalog"
  by (simp add: small_catalog_def demo_catalog_def)

section \<open>Properties\<close>

lemma readers_safe:
  assumes ok: "slots_ok s"
  shows "(ch \<in># leases s \<longrightarrow> heap_of s ch \<noteq> None) \<and>
    (heap_of s ch \<noteq> None \<longrightarrow> ch \<in># leases s \<or> in_slot s ch) \<and>
    (held_in s i = Some x \<longrightarrow>
      heap_of s (s_child x) \<noteq> None \<and>
      (busy (heap_of s) (s_child x) \<longleftrightarrow> s_child x \<in># leases s) \<and>
      (held_in s j = Some y \<and> s_child y = s_child x \<longrightarrow> j = i))"
proof -
  have "in_slot s (s_child x)" if "held_in s i = Some x" using that by (auto simp: in_slot_def)
  then show ?thesis
    using ok_alive [OF ok, of ch] ok_alive [OF ok, of "s_child x"] ok_busy [OF ok, of i x]
      slots_okD(3) [OF ok, of j y i x] by auto
qed

text \<open>However the threads interleave, a child a request holds is never killed, every
  process is held by a request or a slot, a count above one is exactly a request reading, and
  no process is in two slots.\<close>

lemma readers_are_never_cut_off:
  assumes "reachable c b w (s, h)"
  shows "(ch \<in># leases s \<longrightarrow> heap_of s ch \<noteq> None) \<and>
    (heap_of s ch \<noteq> None \<longrightarrow> ch \<in># leases s \<or> in_slot s ch) \<and>
    (held_in s i = Some x \<longrightarrow>
      heap_of s (s_child x) \<noteq> None \<and>
      (busy (heap_of s) (s_child x) \<longleftrightarrow> s_child x \<in># leases s) \<and>
      (held_in s j = Some y \<and> s_child y = s_child x \<longrightarrow> j = i))"
  using reachable_steady [OF assms] by (intro readers_safe) (simp add: steady_def)

lemma readers_are_never_cut_off_witness:
  "7 \<in># leases demo_loaded \<and> heap_of demo_loaded 7 \<noteq> None"
  using readers_are_never_cut_off [OF demo_reached, of 7] by simp

text \<open>No step of any thread -- a sweep, an unload, a load, a request that finds its child
  dead -- takes a child out of its slot while a request holds it.\<close>

lemma no_step_takes_a_read_child:
  assumes "reachable c b w (s, h)" and "step c (s, h) (s', h')"
    and "held_in s i = Some x" and "s_child x \<in># leases s"
  shows "\<exists>x'. held_in s' i = Some x' \<and> s_child x' = s_child x"
proof -
  have "keeps_read s s'" using keeps_read_step [OF assms(2) reachable_steady [OF assms(1)]] by simp
  with assms(3,4) show ?thesis by (auto simp: keeps_read_def)
qed

lemma no_step_takes_a_read_child_witness:
  "\<exists>x'. held_in (fst (let_go ''m'' demo_loaded)) ''m'' = Some x' \<and> s_child x' = 7"
proof -
  have "step demo_catalog (demo_loaded, Nobody) (fst (let_go ''m'' demo_loaded), Nobody)"
    by (intro other on_request)
  from no_step_takes_a_read_child [OF demo_reached this, of "''m''" demo_child]
  show ?thesis by (simp add: demo_child_def)
qed

text \<open>However the threads interleave, the estimates of what is loaded never add up to
  more than the budget.\<close>

lemma budget_is_kept:
  assumes "reachable c b w (s, h)" and "small_catalog c" and "limit_mib b = Some l"
  shows "estimated c s \<le> unat l"
  using reachable_ok [OF assms] by (simp add: world_ok_def holding_def)

lemma budget_is_kept_witness:
  "estimated demo_catalog demo_loaded \<le> 10"
  using budget_is_kept [OF demo_reached demo_small, of 10]
  by (simp add: budget_new_def budget_with_probe_def)

end
