(* ===== verification/Slot_Waits.thy ===== *)
theory Slot_Waits
  imports Slot_Keepers Admission_Policy Turn_Loop
begin

text \<open>
  The wait for room, the free-room promise, the sweeps' outcomes and what a reload leaves
  behind, over the operations of \<open>Slot_Table\<close> and \<open>Slot_Room\<close>.
\<close>

section \<open>Unloading\<close>

lemma unload_outcome:
  assumes "slots_ok s" and "unload is s = (s', r)"
  shows "case r of
      None \<Rightarrow> \<forall>i \<in> set is. held_in s' i = None
    | Some i \<Rightarrow> i \<in> set is \<and> (\<exists>x. held_in s' i = Some x \<and> held_in s i = Some x \<and> s_child x \<in># leases s)"
  using assms
proof (induction "is" arbitrary: s)
  case Nil
  then show ?case by simp
next
  case (Cons i rest)
  show ?case
  proof (cases "by_id s i")
    case None
    with Cons.prems have u: "unload rest s = (s', r)" by simp
    have "held_in s i = None" using None by (simp add: held_in_def)
    then have "held_in s' i = None"
      using fewer_unload [of s rest] u by (metis fewer_lesser_None fst_conv)
    with Cons.IH [OF Cons.prems(1) u] show ?thesis by (auto split: option.splits)
  next
    case (Some cell)
    from take_always [of "heap_of s" cell] show ?thesis
    proof cases
      case empty
      with Some Cons.prems have u: "unload rest s = (s', r)" by (simp add: put_slot_same)
      have "held_in s i = None" using Some empty by (simp add: held_in_def)
      then have "held_in s' i = None"
        using fewer_unload [of s rest] u by (metis fewer_lesser_None fst_conv)
      with Cons.IH [OF Cons.prems(1) u] show ?thesis by (auto split: option.splits)
    next
      case (busy x)
      with Some Cons.prems(2) have r: "s' = s" "r = Some i" by (simp_all add: put_slot_same)
      have x: "held_in s i = Some x" using Some busy by (simp add: held_in_Some)
      have "busy (heap_of s) (s_child x)" using busy by (auto simp: take_if_idle_def split: if_splits)
      with ok_busy [OF Cons.prems(1) x] x r show ?thesis by simp
    next
      case (taken x)
      let ?s = "on_heap (arc_drop (s_child x)) (put_slot i None s)"
      have x: "held_in s i = Some x" using Some taken by (simp add: held_in_Some)
      have ok: "slots_ok ?s" by (rule ok_take_out [OF Cons.prems(1) x])
      have u: "unload rest ?s = (s', r)" using Some taken Cons.prems(2) by simp
      have "held_in s' i = None"
        using fewer_unload [of ?s rest] u by (metis fewer_lesser_None fst_conv held_in_put held_in_frames(1))
      with Cons.IH [OF ok u] show ?thesis by (auto split: option.splits if_splits)
    qed
  qed
qed

section \<open>One turn of the wait\<close>

text \<open>What the interference of other threads is assumed to be: operations that keep the invariant.\<close>

definition fair_turn :: "turn \<Rightarrow> bool" where
  "fair_turn t = (slot_keeper (t_race t) \<and> slot_keeper (t_sleep t))"

lemma look_ok:
  assumes "slots_ok s" and "slot_keeper race" and "look c a device race may s = (s', r)"
  shows "slots_ok s' \<and> slots_wait s' = slots_wait s"
proof -
  have said: "slots_ok (say l s)" for l using removed_ok [OF removed_said [OF removed_refl [OF assms(1)]]] .
  have "slots_ok (fst (unload is (race (say l s)))) \<and>
      slots_wait (fst (unload is (race (say l s)))) = slots_wait s" for "is" l
    using unloading.keeps_ok slot_keeper.keeps_ok [OF assms(2) said]
      unloading.keeps_settings(2) slot_keeper.keeps_settings(2) [OF assms(2)] by simp
  with assms(1,3) show ?thesis
    by (auto simp: look_def Let_def split: option.splits decision.splits if_splits prod.splits)
      (metis fst_conv)+
qed

definition ended :: "failure + seen \<Rightarrow> (failure + nat option) + string" where
  "ended r =
     (case r of Inl f \<Rightarrow> Inl (Inl f) | Inr Made \<Rightarrow> Inl (Inr None) | Inr (Held m) \<Rightarrow> Inr m)"

lemma turn_cases:
  assumes "turn_step fs c a root arrived ticket t s = (s', r)"
  obtains (reloaded) "reloads (line s) \<noteq> arrived" and "s' = s"
      and "r = Inl (Inl (Contended (reloaded_text (a_entry a))))"
  | (found) ch where "running (a_entry a) (t_now t) s = (s', Some ch)" and "r = Inl (Inr (Some ch))"
  | (missing) f where "running (a_entry a) (t_now t) s = (s', None)"
      and "model_file (fst fs) (a_entry a) root = Inl f" and "r = Inl (Inl f)"
  | (looked) s1 s2 x where "running (a_entry a) (t_now t) s = (s1, None)"
      and "s2 = (if a_room a = Free then sweep_exited c s1 else s1)"
      and "look c a (t_device t) (t_race t) (may_take (line s2) ticket) s2 = (s', x)"
      and "r = ended x" and "\<exists>m. model_file (fst fs) (a_entry a) root = Inr m"
proof (cases "reloads (line s) = arrived")
  case False
  with assms show ?thesis by (intro reloaded) (simp_all add: turn_step_def Let_def)
next
  case now: True
  obtain s1 ch where run: "running (a_entry a) (t_now t) s = (s1, ch)" by fastforce
  show ?thesis
  proof (cases ch)
    case (Some x)
    with assms run now show ?thesis by (intro found [of x]) (simp_all add: turn_step_def Let_def)
  next
    case None
    show ?thesis
    proof (cases "model_file (fst fs) (a_entry a) root")
      case (Inl f)
      with assms run now None show ?thesis
        by (intro missing [of f]) (simp_all add: turn_step_def Let_def)
    next
      case (Inr m)
      define s2 where "s2 = (if a_room a = Free then sweep_exited c s1 else s1)"
      obtain s3 x where look:
          "look c a (t_device t) (t_race t) (may_take (line s2) ticket) s2 = (s3, x)"
        by fastforce
      have "turn_step fs c a root arrived ticket t s = (s3, ended x)"
        using run now None Inr look
        by (auto simp: turn_step_def Let_def ended_def s2_def split: sum.splits seen.splits)
      with assms run None Inr look s2_def show ?thesis by (intro looked [of s1 s2 x]) simp_all
    qed
  qed
qed

lemma turn_ok:
  assumes "slots_ok s" and "fair_turn t" and "turn_step fs c a root arrived ticket t s = (s', r)"
  shows "slots_ok s' \<and> slots_wait s' = slots_wait s"
  using assms(3)
proof (cases rule: turn_cases)
  case reloaded
  with assms(1) show ?thesis by simp
next
  case (found ch)
  with ok_running [OF assms(1) found(1)] running_frames [OF found(1)] show ?thesis by simp
next
  case (missing f)
  with ok_running [OF assms(1) missing(1)] running_frames [OF missing(1)] show ?thesis by simp
next
  case (looked s1 s2 x)
  have "slots_ok s1" "slots_wait s1 = slots_wait s"
    using ok_running [OF assms(1) looked(1)] running_frames [OF looked(1)] by auto
  then have "slots_ok s2" "slots_wait s2 = slots_wait s"
    using exits.keeps_ok [of s1 c] exits.keeps_settings(2) [of c s1] looked(2) by auto
  with look_ok [OF _ _ looked(3)] assms(2) show ?thesis by (simp add: fair_turn_def)
qed

section \<open>The wait\<close>

text \<open>The loop as one of turns: its state is the place in line and the slots.\<close>

definition wait_turn ::
    "files \<Rightarrow> catalog \<Rightarrow> asked \<Rightarrow> string \<Rightarrow> instant \<Rightarrow> nat \<Rightarrow> turn \<Rightarrow> nat option \<times> slots \<Rightarrow>
     (nat option \<times> slots) + (slots \<times> nat option \<times> (failure + nat option))" where
  "wait_turn fs c a root deadline arrived t st =
     (case st of (ticket, s) \<Rightarrow>
        (case turn_step fs c a root arrived ticket t s of
           (s1, Inl outcome) \<Rightarrow> Inr (s1, ticket, outcome)
         | (s1, Inr m) \<Rightarrow>
             if deadline \<le> t_after t then
               Inr (s1, ticket, Inl (refused (a_entry a) m (wait_duration (slots_wait s1))))
             else
               (case join_line ticket s1 of (s2, ticket') \<Rightarrow> Inl (ticket', t_sleep t s2))))"

interpretation awaiting: turn_loop
    "\<lambda>ts (ticket, s). wait_loop fs c a root deadline arrived ts ticket s" "\<lambda>st. None"
    "wait_turn fs c a root deadline arrived" for fs c a root deadline arrived
  by unfold_locales (auto simp: wait_turn_def split: prod.splits sum.splits)

lemma wait_turn_on:
  assumes "wait_turn fs c a root deadline arrived t (ticket, s) = Inl (ticket', s')"
  obtains s1 s2 m where "turn_step fs c a root arrived ticket t s = (s1, Inr m)"
    and "t_after t < deadline" and "join_line ticket s1 = (s2, ticket')" and "s' = t_sleep t s2"
  using assms by (auto simp: wait_turn_def split: prod.splits sum.splits if_splits)

lemma wait_loop_ends:
  assumes "\<exists>t \<in> set ts. deadline \<le> t_after t"
  shows "\<exists>y. wait_loop fs c a root deadline arrived ts ticket s = Some y"
proof -
  obtain t where "t \<in> set ts" "deadline \<le> t_after t" using assms by blast
  then show ?thesis
    using awaiting.decided [of t ts fs c a root deadline arrived "(ticket, s)"]
    by (auto simp: wait_turn_def split: prod.splits sum.splits)
qed

text \<open>
  What holds of the slots before every turn holds before the last, whose outcome is the loop's,
  or the deadline's refusal of it.
\<close>

lemma wait_loop_from:
  assumes "wait_loop fs c a root deadline arrived ts ticket s = Some (s', ticket', r)" and "P s"
    and "\<And>t tk s0 s1 m. t \<in> set ts \<Longrightarrow> P s0 \<Longrightarrow>
      turn_step fs c a root arrived tk t s0 = (s1, Inr m) \<Longrightarrow> P (t_sleep t (fst (join_line tk s1)))"
  obtains t s0 tk where "t \<in> set ts" and "P s0"
    and "turn_step fs c a root arrived tk t s0 = (s', Inl r) \<or>
     (deadline \<le> t_after t \<and> (\<exists>m. turn_step fs c a root arrived tk t s0 = (s', Inr m) \<and>
       r = Inl (refused (a_entry a) m (wait_duration (slots_wait s')))))"
proof -
  have run: "(\<lambda>(ticket, s). wait_loop fs c a root deadline arrived ts ticket s) (ticket, s) =
      Some (s', ticket', r)"
    using assms(1) by simp
  have on: "P s2" if "P s0" "t \<in> set ts"
    "wait_turn fs c a root deadline arrived t (tk, s0) = Inl (tk2, s2)" for s0 t tk tk2 s2
    using that(3) by (rule wait_turn_on) (use assms(3) [OF that(2,1)] in fastforce)
  obtain us t ws st where last: "ts = us @ t # ws" "P (snd st)"
      "wait_turn fs c a root deadline arrived t st = Inr (s', ticket', r)"
    by (rule awaiting.decided_by [OF run refl, of "\<lambda>us st. P (snd st)"]) (use assms(2) on in auto)
  obtain tk s0 where "st = (tk, s0)" by (cases st)
  with last show ?thesis
    by (intro that [of t s0 tk]) (auto simp: wait_turn_def split: prod.splits sum.splits if_splits)
qed

text \<open>
  The place in line and the slots that turns leave which all went on waiting, one after
  another; \<open>None\<close> when one of them ended the wait.
\<close>

definition waited_on ::
    "files \<Rightarrow> catalog \<Rightarrow> asked \<Rightarrow> string \<Rightarrow> instant \<Rightarrow> nat \<Rightarrow> turn list \<Rightarrow> nat option \<times> slots \<Rightarrow>
     (nat option \<times> slots) option" where
  "waited_on fs c a root deadline arrived us st =
     foldl (\<lambda>at u. Option.bind at (\<lambda>at. case wait_turn fs c a root deadline arrived u at of
        Inl at' \<Rightarrow> Some at' | Inr _ \<Rightarrow> None)) (Some st) us"

lemma wait_loop_last:
  assumes "wait_loop fs c a root deadline arrived ts ticket s = Some (s', ticket', r)"
    and "slots_ok s" and "list_all fair_turn ts"
  obtains vs t ws s0 where "ts = vs @ t # ws" and "fair_turn t" and "slots_ok s0"
    and "waited_on fs c a root deadline arrived vs (ticket, s) = Some (ticket', s0)"
    and "turn_step fs c a root arrived ticket' t s0 = (s', Inl r) \<or>
     (deadline \<le> t_after t \<and> (\<exists>m. turn_step fs c a root arrived ticket' t s0 = (s', Inr m) \<and>
       r = Inl (refused (a_entry a) m (wait_duration (slots_wait s')))))"
proof -
  let ?on = "\<lambda>us st. slots_ok (snd st) \<and>
    waited_on fs c a root deadline arrived us (ticket, s) = Some st"
  have run: "(\<lambda>(ticket, s). wait_loop fs c a root deadline arrived ts ticket s) (ticket, s) =
      Some (s', ticket', r)"
    using assms(1) by simp
  have on: "?on (us @ [t]) st'" if "?on us st" "t \<in> set ts"
    "wait_turn fs c a root deadline arrived t st = Inl st'" for us t st st'
  proof -
    obtain tk s0 tk' s2 where st: "st = (tk, s0)" "st' = (tk', s2)" by fastforce
    have fair: "fair_turn t" using that(2) assms(3) by (simp add: list_all_iff)
    from that(3) [unfolded st] obtain s1 m where s1: "turn_step fs c a root arrived tk t s0 = (s1, Inr m)"
        "s2 = t_sleep t (fst (join_line tk s1))"
      by (rule wait_turn_on) auto
    then have "slots_ok (fst (join_line tk s1))"
      using ok_join_line [of s1 tk] turn_ok [OF _ fair s1(1)] that(1) st(1) by simp
    with fair s1(2) have "slots_ok s2" by (simp add: fair_turn_def slot_keeper.keeps_ok)
    with that(1,3) st(2) show ?thesis by (simp add: waited_on_def)
  qed
  obtain vs t ws st where last: "ts = vs @ t # ws" "?on vs st"
      "wait_turn fs c a root deadline arrived t st = Inr (s', ticket', r)"
    by (rule awaiting.decided_by [OF run refl, of ?on])
      (use assms(2) on in \<open>auto simp: waited_on_def\<close>)
  obtain tk s0 where st: "st = (tk, s0)" by (cases st)
  with last(3) have "tk = ticket'"
    by (auto simp: wait_turn_def split: prod.splits sum.splits if_splits)
  with last st assms(3) show ?thesis
    by (intro that [of vs t ws s0])
      (auto simp: wait_turn_def split: prod.splits sum.splits if_splits)
qed

lemma wait_loop_ok:
  assumes "wait_loop fs c a root deadline arrived ts ticket s = Some (s', ticket', r)"
    and "slots_ok s" and "list_all fair_turn ts"
  shows "slots_ok s'"
  using wait_loop_last [OF assms] turn_ok by metis

lemma look_made:
  assumes "look c a device race may s = (s', Inr Made)" and "slots_ok s" and "slot_keeper race"
  shows "decide c (a_entry a) device s = Fits \<and> s' = s \<or>
    (\<exists>ids. decide c (a_entry a) device s = Unload ids \<and> may \<and> a_room a = Any \<and>
       (\<forall>i \<in> set ids. held_in s' i = None))"
proof (cases "decide c (a_entry a) device s")
  case (Unload ids)
  let ?said = "say (e_id (a_entry a) @ '': unloading '' @ join '', '' ids @ '' to make room'') s"
  have any: "a_room a = Any" "may"
    using assms(1) Unload by (auto simp: look_def asked_refusal_def Let_def split: if_splits option.splits)
  then have "unload ids (race ?said) = (s', None)"
    using assms(1) Unload
    by (auto simp: look_def asked_refusal_def Let_def split: prod.splits option.splits)
  moreover have "slots_ok (race ?said)"
    using assms(3) removed_ok [OF removed_said [OF removed_refl [OF assms(2)]]]
    by (simp add: slot_keeper.keeps_ok)
  ultimately have "\<forall>i \<in> set ids. held_in s' i = None"
    using unload_outcome [of "race ?said" ids s' None] by simp
  with Unload any show ?thesis by auto
qed (use assms(1) in \<open>auto simp: look_def asked_refusal_def Let_def split: if_splits option.splits\<close>)

lemma look_failures:
  assumes "look c a device race may s = (s', Inl f)"
  shows "\<exists>m. f = Refused m"
  using assms
  by (auto simp: look_def asked_refusal_def Let_def
      split: if_splits option.splits decision.splits prod.splits)

lemma running_leases:
  assumes "running e now s = (s', Some ch)"
  shows "ch \<in># leases s'"
  using assms by (cases rule: running_cases) auto

text \<open>The slots a turn's decision reads: a dead child reaped, and for free room every dead one.\<close>

definition looked_at :: "catalog \<Rightarrow> asked \<Rightarrow> turn \<Rightarrow> slots \<Rightarrow> slots" where
  "looked_at c a t s =
     (let s1 = fst (running (a_entry a) (t_now t) s) in
      if a_room a = Free then sweep_exited c s1 else s1)"

lemma turn_outcome:
  assumes "turn_step fs c a root arrived ticket t s = (s', Inl r)" and "slots_ok s" and "fair_turn t"
  shows "case r of
      Inr (Some ch) \<Rightarrow> ch \<in># leases s'
    | Inr None \<Rightarrow> (let s2 = looked_at c a t s in
        decide c (a_entry a) (t_device t) s2 = Fits \<and> s' = s2 \<or>
        (\<exists>ids. decide c (a_entry a) (t_device t) s2 = Unload ids \<and> may_take (line s2) ticket \<and>
           a_room a = Any \<and> (\<forall>i \<in> set ids. held_in s' i = None)))
    | Inl f \<Rightarrow> \<forall>m. f \<noteq> NotReady m"
  using assms(1)
proof (cases rule: turn_cases)
  case reloaded
  then show ?thesis by simp
next
  case (found ch)
  then show ?thesis using running_leases by auto
next
  case (missing f)
  then show ?thesis by (auto simp: model_file_def Let_def split: if_splits)
next
  case (looked s1 s2 x)
  have "slots_ok s1" using ok_running [OF assms(2) looked(1)] .
  then have ok2: "slots_ok s2" using exits.keeps_ok looked(2) by auto
  have race: "slot_keeper (t_race t)" using assms(3) by (simp add: fair_turn_def)
  show ?thesis
  proof (cases x)
    case (Inl f)
    with looked(4) look_failures looked(3) show ?thesis by (fastforce simp: ended_def)
  next
    case (Inr m)
    with looked(4) have m: "m = Made" "r = Inr None" by (auto simp: ended_def split: seen.splits)
    have "s2 = looked_at c a t s" using looked(1,2) by (simp add: looked_at_def)
    with look_made [OF looked(3) [unfolded Inr m(1)] ok2 race] m show ?thesis by (simp add: Let_def)
  qed
qed

section \<open>Free room\<close>

lemma look_free:
  assumes "look c a device race may s = (s', r)" and "a_room a = Free"
  shows "s' = s" and "\<forall>m. r \<noteq> Inr (Held m)"
  using assms
  by (auto simp: look_def asked_refusal_def Let_def split: decision.splits)

text \<open>What has not exited of itself is where it was.\<close>

definition spares_live :: "slots \<Rightarrow> slots \<Rightarrow> bool" where
  "spares_live s s' =
     (slots_ok s' \<and>
      (\<forall>i x. held_in s i = Some x \<and> exited (heap_of s) x = None \<longrightarrow>
        held_in s' i = Some x \<and> exited (heap_of s') x = None))"

lemma exited_drop_other: "c \<noteq> s_child x \<Longrightarrow> exited (arc_drop c h) x = exited h x"
  by (auto simp: exited_def arc_drop_def split: option.splits)

lemma spares_live_take:
  assumes "spares_live s0 s" and "held_in s i = Some y" and "exited (heap_of s) y \<noteq> None"
  shows "spares_live s0 (on_heap (arc_drop (s_child y)) (put_slot i None s))"
proof -
  have ok: "slots_ok s" using assms(1) by (simp add: spares_live_def)
  have "held_in (on_heap (arc_drop (s_child y)) (put_slot i None s)) j = Some x \<and>
      exited (heap_of (on_heap (arc_drop (s_child y)) (put_slot i None s))) x = None"
    if "held_in s0 j = Some x" "exited (heap_of s0) x = None" for j x
  proof -
    have x: "held_in s j = Some x" "exited (heap_of s) x = None"
      using assms(1) that by (auto simp: spares_live_def)
    then have "j \<noteq> i" using assms(2,3) by auto
    moreover from this have "s_child y \<noteq> s_child x"
      using slots_okD(3) [OF ok x(1) assms(2)] by auto
    ultimately show ?thesis using x by (simp add: exited_drop_other)
  qed
  with ok_take_out [OF ok assms(2)] show ?thesis unfolding spares_live_def by blast
qed

lemma spares_live_said: "spares_live s s' \<Longrightarrow> spares_live s (say l s')"
  by (auto simp: spares_live_def slots_ok_def in_slot_def)

lemma spares_live_says:
  "spares_live s s' \<Longrightarrow> spares_live s (fold (\<lambda>(i, st). say (f i st)) gone s')"
  by (induction gone arbitrary: s') (auto intro: spares_live_said)

lemma spares_live_sweep:
  assumes "spares_live s0 s"
  shows "spares_live s0 (sweep_exited c s)"
proof -
  have "spares_live s0 (fst (swept take_if_exited (ids_of c) s))"
    by (rule swept_induct [where P = "spares_live s0", OF taker_exited assms])
      (rule spares_live_take, assumption, assumption,
        auto simp: take_if_exited_def split: option.splits)
  then show ?thesis
    by (auto simp: sweep_exited_def split: prod.splits intro: spares_live_says)
qed

lemma spares_live_running:
  assumes "slots_ok s" and "running e now s = (s', None)"
  shows "spares_live s s'"
  using assms(2)
proof (cases rule: running_cases)
  case absent
  with assms(1) show ?thesis by (simp add: spares_live_def)
next
  case (dead x st)
  have "spares_live s s" using assms(1) by (simp add: spares_live_def)
  from spares_live_take [OF this dead(1)] dead show ?thesis by simp
qed simp

section \<open>The idle sweep, exactly\<close>

lemma swept_stale_one:
  assumes "slots_ok s" and "held_in s i = Some x" and "\<not> busy (heap_of s) (s_child x)"
    and "stale now (s_last_used x) d"
  shows "swept (take_stale now d) (i # is) s =
    (case swept (take_stale now d) is (on_heap (arc_drop (s_child x)) (put_slot i None s)) of
       (s', rest) \<Rightarrow> (s', (i, ()) # rest))"
  using assms(2-4) by (simp add: held_in_Some take_stale_def take_if_idle_def)

lemma busy_drop_other: "c \<noteq> c' \<Longrightarrow> busy (arc_drop c h) c' = busy h c'"
  by (simp add: busy_def strong_count_drop)

lemma swept_stale_all:
  assumes "slots_ok s" and "distinct is"
    and "\<And>i. i \<in> set is \<Longrightarrow> \<exists>x. held_in s i = Some x \<and> \<not> busy (heap_of s) (s_child x) \<and>
      stale now (s_last_used x) d"
  shows "\<exists>s'. swept (take_stale now d) is s = (s', map (\<lambda>i. (i, ())) is) \<and>
    (\<forall>j. held_in s' j = (if j \<in> set is then None else held_in s j))"
  using assms
proof (induction "is" arbitrary: s)
  case Nil
  then show ?case by simp
next
  case (Cons i rest)
  obtain x where x: "held_in s i = Some x" "\<not> busy (heap_of s) (s_child x)"
      "stale now (s_last_used x) d"
    using Cons.prems(3) by auto
  let ?s = "on_heap (arc_drop (s_child x)) (put_slot i None s)"
  have "\<exists>y. held_in ?s j = Some y \<and> \<not> busy (heap_of ?s) (s_child y) \<and> stale now (s_last_used y) d"
    if j: "j \<in> set rest" for j
  proof -
    obtain y where y: "held_in s j = Some y" "\<not> busy (heap_of s) (s_child y)"
        "stale now (s_last_used y) d"
      using Cons.prems(3) [of j] j by auto
    have "j \<noteq> i" using Cons.prems(2) j by auto
    moreover from this have "s_child x \<noteq> s_child y"
      using slots_okD(3) [OF Cons.prems(1) y(1) x(1)] by auto
    ultimately show ?thesis using y by (simp add: busy_drop_other)
  qed
  then obtain s' where s': "swept (take_stale now d) rest ?s = (s', map (\<lambda>i. (i, ())) rest)"
      "\<forall>j. held_in s' j = (if j \<in> set rest then None else held_in ?s j)"
    using Cons.IH [OF ok_take_out [OF Cons.prems(1) x(1)]] Cons.prems(2) by auto
  with swept_stale_one [OF Cons.prems(1) x] Cons.prems(2) show ?case by auto
qed

lemma held_names:
  "l \<in> set (held c s) \<longleftrightarrow>
     (\<exists>e \<in> set (c_entries c). \<exists>x. held_in s (e_id e) = Some x \<and> l = as_held s e x)"
proof -
  have "l \<in> set (List.map_filter f es) \<longleftrightarrow> (\<exists>e \<in> set es. f e = Some l)"
    for f and es :: "entry list"
    by (auto simp: map_filter_def image_iff)
  then show ?thesis by (auto simp: held_def snapshot_def)
qed

lemma as_held_simps [simp]:
  "l_id (as_held s e x) = e_id e"
  "l_residency (as_held s e x) = e_residency e"
  "l_busy (as_held s e x) = busy (heap_of s) (s_child x)"
  "last_used (as_held s e x) = s_last_used x"
  by (simp_all add: as_held_def)

lemma distinct_held_ids: "distinct (ids_of c) \<Longrightarrow> distinct (map l_id (held c s))"
proof -
  assume d: "distinct (ids_of c)"
  have "map l_id (held c s) = map e_id (filter (\<lambda>e. held_in s (e_id e) \<noteq> None) (c_entries c))"
    by (auto simp: held_def snapshot_def map_filter_def)
  with d show ?thesis by (simp add: distinct_map_filter)
qed

lemma distinct_expired:
  assumes "distinct (map l_id ls)"
  shows "distinct (expired w ls now)"
proof (cases "window_duration w")
  case (Some d)
  let ?f = "filter (\<lambda>e. l_residency e = OnDemand \<and> \<not> l_busy e \<and> d \<le> now - last_used e) ls"
  have "distinct (map l_id ?f)" using assms by (rule distinct_map_filter)
  then have "distinct (map l_id (sort_key last_used ?f))"
    by (simp add: distinct_map)
  with Some show ?thesis by (simp add: expired_def)
qed (simp add: expired_def)

lemma sweep_idle_exact:
  assumes "slots_ok s" and "distinct (ids_of c)" and "sweep_idle c w now s = (s', gone)"
  shows "gone = expired w (held c s) now"
    and "held_in s' i = (if i \<in> set gone then None else held_in s i)"
proof -
  have "gone = expired w (held c s) now \<and> held_in s' i = (if i \<in> set gone then None else held_in s i)"
  proof (cases "window_duration w")
    case None
    with assms(3) show ?thesis by (simp add: sweep_idle_def expired_def)
  next
    case (Some d)
    let ?is = "expired w (held c s) now"
    have "\<exists>x. held_in s i = Some x \<and> \<not> busy (heap_of s) (s_child x) \<and> stale now (s_last_used x) d"
      if "i \<in> set ?is" for i
      using that Some by (auto simp: expired_set held_names stale_def)
    moreover have "distinct ?is" by (rule distinct_expired [OF distinct_held_ids [OF assms(2)]])
    ultimately
    obtain s0 where s0: "swept (take_stale now d) ?is s = (s0, map (\<lambda>i. (i, ())) ?is)"
        "\<forall>j. held_in s0 j = (if j \<in> set ?is then None else held_in s j)"
      using swept_stale_all [OF assms(1), of ?is now d] by blast
    with assms(3) Some show ?thesis by (auto simp: sweep_idle_def o_def)
  qed
  then show "gone = expired w (held c s) now"
    "held_in s' i = (if i \<in> set gone then None else held_in s i)" by auto
qed

section \<open>What a sweep never reaches\<close>

lemma swept_elsewhere:
  "i \<notin> set is \<Longrightarrow> held_in (fst (swept f is s)) i = held_in s i"
proof (induction "is" arbitrary: s)
  case (Cons k rest)
  then have ih: "held_in (fst (swept f rest s')) i = held_in s' i" and k: "k \<noteq> i" for s' by auto
  show ?case
  proof (cases "by_id s k")
    case None
    then show ?thesis by (simp add: ih)
  next
    case (Some cell)
    obtain cell' r where r: "f (heap_of s) cell = (cell', r)" by fastforce
    show ?thesis
      by (cases r) (use Some r k in \<open>simp_all add: ih case_prod_beta\<close>)
  qed
qed simp

lemma unload_elsewhere: "i \<notin> set is \<Longrightarrow> held_in (fst (unload is s)) i = held_in s i"
  by (induction "is" arbitrary: s) (auto split: option.splits prod.splits took.splits)

lemma held_in_says [simp]: "held_in (fold (\<lambda>(i, st). say (f i st)) gone s') i = held_in s' i"
  by (induction gone arbitrary: s') auto

lemma sweep_exited_elsewhere:
  assumes "i \<notin> set (ids_of c)"
  shows "held_in (sweep_exited c s) i = held_in s i"
  using swept_elsewhere [OF assms, of take_if_exited s]
  by (cases "swept take_if_exited (ids_of c) s") (simp add: sweep_exited_def)

lemma expired_known: "i \<in> set (expired w (held c s) now) \<Longrightarrow> i \<in> set (ids_of c)"
  by (auto simp: expired_set held_names)

lemma sweep_idle_elsewhere:
  assumes "i \<notin> set (ids_of c)"
  shows "held_in (fst (sweep_idle c w now s)) i = held_in s i"
proof (cases "window_duration w")
  case (Some d)
  have "i \<notin> set (expired w (held c s) now)" using assms expired_known by blast
  from swept_elsewhere [OF this, of "take_stale now d" s] Some show ?thesis
    by (simp add: sweep_idle_def case_prod_beta)
qed (simp add: sweep_idle_def)

lemma held_and_guests_held: "fst (held_and_guests c s) = held c s"
  by (auto simp: held_and_guests_def held_def snapshot_def Let_def map_filter_def)

lemma decide_known:
  assumes "decide c e device s = Unload ids" and "i \<in> set ids"
  shows "i \<in> set (ids_of c)"
proof -
  obtain guests where "admit_with_guests (slots_budget s) (held c s) guests (wanted_of e) device = Unload ids"
    using assms(1) held_and_guests_held [of c s] by (auto simp: decide_def split: prod.splits)
  from policy.unload_subset [OF this] assms(2) show ?thesis by (auto simp: held_names)
qed

end
