(* ===== verification/Wait_Claims.thy ===== *)
theory Wait_Claims
  imports Slot_Waits Slot_Claims
begin

text \<open>
  The properties of the wait for room, the free-room promise, the idle sweep, and a reload.
\<close>

lemma ok_demo_loaded [simp]: "slots_ok demo_loaded"
  using reachable_steady [OF demo_reached] by (simp add: steady_def)

lemma ok_demo_new [simp]: "slots_ok demo_new"
  by (simp add: demo_new_def)

definition still_turn :: "instant \<Rightarrow> turn" where
  "still_turn now = \<lparr>t_now = now, t_device = None, t_race = (\<lambda>s. s), t_after = now, t_sleep = (\<lambda>s. s)\<rparr>"

lemma fair_still_turn [simp]: "fair_turn (still_turn now)"
  by (simp add: fair_turn_def still_turn_def slot_keeper_id)

lemma expired_held:
  assumes "slots_ok s"
  shows "i \<in> set (expired w (held c s) now) \<longleftrightarrow>
    (\<exists>e \<in> set (c_entries c). \<exists>x d. e_id e = i \<and> held_in s i = Some x \<and>
       e_residency e = OnDemand \<and> s_child x \<notin># leases s \<and>
       window_duration w = Some d \<and> d \<le> now - s_last_used x)" (is "?L \<longleftrightarrow> ?R")
proof
  assume ?L
  then obtain l d where l: "l \<in> set (held c s)" "l_id l = i" "l_residency l = OnDemand" "\<not> l_busy l"
      "window_duration w = Some d" "d \<le> now - last_used l"
    by (auto simp: expired_set)
  then obtain e x where "e \<in> set (c_entries c)" "held_in s (e_id e) = Some x" "l = as_held s e x"
    by (auto simp: held_names)
  with l ok_busy [OF assms] show ?R by auto
next
  assume ?R
  then obtain e x d where e: "e \<in> set (c_entries c)" "e_id e = i" "held_in s i = Some x"
      "e_residency e = OnDemand" "s_child x \<notin># leases s"
      "window_duration w = Some d" "d \<le> now - s_last_used x"
    by auto
  then have "as_held s e x \<in> set (held c s)" by (auto simp: held_names)
  moreover have "\<not> busy (heap_of s) (s_child x)" using ok_busy [OF assms e(3)] e(5) by simp
  ultimately show ?L using e unfolding expired_set by force
qed

text \<open>C16: Waiting for room ends by its deadline: with a turn past it among the turns, and
  other threads doing what keeps the slots well formed, it has an answer and the slots are
  well formed; a child it hands out is leased and running, and it never reports a start that
  timed out. Room it made was decided in one of the turns, on the slots that the turns before
  it left: either that decision fits, and the slots handed back are those very ones but for
  the request's place in line; or it names models to unload, the request may take room and is
  no free-room one, and every model named is gone.\<close>

theorem wait_for_room_ends:
  assumes "slots_ok s" and "list_all fair_turn ts"
    and "\<exists>t \<in> set ts. now + wait_duration (slots_wait s) \<le> t_after t"
  shows "\<exists>s' r. room_for fs c a root now ts s = Some (s', r) \<and> slots_ok s' \<and>
    (case r of
       Inr (Some ch) \<Rightarrow> ch \<in># leases s' \<and> heap_of s' ch \<noteq> None
     | Inr None \<Rightarrow> \<exists>vs t ws tk s0 s2. ts = vs @ t # ws \<and>
         waited_on fs c a root (now + wait_duration (slots_wait s)) (reloads (line s)) vs (None, s) =
           Some (tk, s0) \<and>
         s2 = looked_at c a t s0 \<and>
         (decide c (a_entry a) (t_device t) s2 = Fits \<and> s' = leave_line tk s2 \<or>
          (\<exists>ids. decide c (a_entry a) (t_device t) s2 = Unload ids \<and> may_take (line s2) tk \<and>
             a_room a = Any \<and> (\<forall>i \<in> set ids. held_in s' i = None)))
     | Inl f \<Rightarrow> \<forall>m. f \<noteq> NotReady m)"
proof -
  let ?deadline = "now + wait_duration (slots_wait s)"
  obtain s1 ticket r where w: "wait_loop fs c a root ?deadline (reloads (line s)) ts None s =
      Some (s1, ticket, r)"
    using wait_loop_ends [OF assms(3)] by (metis prod_cases3)
  have ok: "slots_ok s1" by (rule wait_loop_ok [OF w assms(1,2)])
  then have left: "slots_ok (leave_line ticket s1)" by (rule ok_leave_line)
  have alive: "heap_of s1 ch \<noteq> None" if "ch \<in># leases s1" for ch
    using ok_alive [OF ok] that by blast
  obtain vs t ws s0 where last: "ts = vs @ t # ws" "fair_turn t" "slots_ok s0"
      "waited_on fs c a root ?deadline (reloads (line s)) vs (None, s) = Some (ticket, s0)"
      "turn_step fs c a root (reloads (line s)) ticket t s0 = (s1, Inl r) \<or>
       (\<exists>m. r = Inl (refused (a_entry a) m (wait_duration (slots_wait s1))))"
    by (rule wait_loop_last [OF w assms(1,2)]) blast
  have "case r of
       Inr (Some ch) \<Rightarrow> ch \<in># leases s1
     | Inr None \<Rightarrow> (let s2 = looked_at c a t s0 in
         decide c (a_entry a) (t_device t) s2 = Fits \<and> s1 = s2 \<or>
         (\<exists>ids. decide c (a_entry a) (t_device t) s2 = Unload ids \<and> may_take (line s2) ticket \<and>
            a_room a = Any \<and> (\<forall>i \<in> set ids. held_in s1 i = None)))
     | Inl f \<Rightarrow> \<forall>m. f \<noteq> NotReady m"
  proof (cases "turn_step fs c a root (reloads (line s)) ticket t s0 = (s1, Inl r)")
    case True
    then show ?thesis by (rule turn_outcome [OF _ last(3,2)])
  next
    case False
    with last(5) show ?thesis by (auto simp: refused_def)
  qed
  note outcome = this
  have "room_for fs c a root now ts s = Some (leave_line ticket s1, r)"
    by (simp add: room_for_def w Let_def)
  then show ?thesis
  proof (intro exI conjI)
    show "slots_ok (leave_line ticket s1)" by (rule left)
    show "case r of
       Inr (Some ch) \<Rightarrow> ch \<in># leases (leave_line ticket s1) \<and> heap_of (leave_line ticket s1) ch \<noteq> None
     | Inr None \<Rightarrow> \<exists>vs t ws tk s0 s2. ts = vs @ t # ws \<and>
         waited_on fs c a root ?deadline (reloads (line s)) vs (None, s) = Some (tk, s0) \<and>
         s2 = looked_at c a t s0 \<and>
         (decide c (a_entry a) (t_device t) s2 = Fits \<and> leave_line ticket s1 = leave_line tk s2 \<or>
          (\<exists>ids. decide c (a_entry a) (t_device t) s2 = Unload ids \<and> may_take (line s2) tk \<and>
             a_room a = Any \<and> (\<forall>i \<in> set ids. held_in (leave_line ticket s1) i = None)))
     | Inl f \<Rightarrow> \<forall>m. f \<noteq> NotReady m"
    proof (cases r)
      case (Inl f)
      with outcome show ?thesis by simp
    next
      case (Inr x)
      show ?thesis
      proof (cases x)
        case None
        with Inr outcome last(1,4) show ?thesis
          by simp (intro exI [of _ vs] exI [of _ t] exI [of _ ws] exI [of _ ticket] exI [of _ s0],
            auto simp: Let_def)
      next
        case (Some ch)
        with Inr outcome alive show ?thesis by simp
      qed
    qed
  qed
qed

theorem wait_for_room_ends_witness:
  "\<exists>s' r. room_for (\<lambda>_. True, None) demo_catalog demo_asked ''r'' 0 [still_turn 0] demo_new = Some (s', r) \<and>
     slots_ok s'"
proof -
  have "\<exists>t \<in> set [still_turn 0]. 0 + wait_duration (slots_wait demo_new) \<le> t_after t"
    by (simp add: demo_new_def slots_new_def still_turn_def)
  from wait_for_room_ends [OF ok_demo_new _ this] show ?thesis by fastforce
qed

text \<open>A request that allows free room alone unloads nothing: a turn of its wait leaves
  every child that has not exited of itself where it was, whatever else happens it never
  waits, and the slots stay well formed.\<close>

lemma free_room_unloads_nothing:
  assumes "turn_step fs c a root arrived ticket t s = (s', r)" and "a_room a = Free"
    and "slots_ok s"
  shows "(\<forall>m. r \<noteq> Inr m) \<and>
    (held_in s i = Some x \<and> exited (heap_of s) x = None \<longrightarrow>
      (\<exists>x'. held_in s' i = Some x' \<and> s_child x' = s_child x))"
  using assms(1)
proof (cases rule: turn_cases)
  case (found ch)
  then show ?thesis
    by (cases rule: running_cases) auto
next
  case (missing f)
  with spares_live_running [OF assms(3)] show ?thesis by (fastforce simp: spares_live_def)
next
  case (looked s1 s2 y)
  have "spares_live s s2"
    using spares_live_sweep [OF spares_live_running [OF assms(3) looked(1)]] looked(2) assms(2) by simp
  moreover have "s' = s2" "\<forall>m. r \<noteq> Inr m"
    using look_free [OF looked(3) assms(2)] looked(4)
    by (auto simp: ended_def split: sum.splits seen.splits)
  ultimately show ?thesis by (auto simp: spares_live_def)
qed auto

lemma free_room_unloads_nothing_witness:
  "\<forall>m. snd (turn_step (\<lambda>_. True, None) demo_catalog \<lparr>a_entry = plain_entry ''n'' 9 OnDemand, a_room = Free\<rparr>
     ''r'' 0 None (still_turn 0) demo_loaded) \<noteq> Inr m"
proof -
  let ?a = "\<lparr>a_entry = plain_entry ''n'' 9 OnDemand, a_room = Free\<rparr>"
  have "turn_step (\<lambda>_. True, None) demo_catalog ?a ''r'' 0 None (still_turn 0) demo_loaded =
      (fst (turn_step (\<lambda>_. True, None) demo_catalog ?a ''r'' 0 None (still_turn 0) demo_loaded),
       snd (turn_step (\<lambda>_. True, None) demo_catalog ?a ''r'' 0 None (still_turn 0) demo_loaded))"
    by simp
  from free_room_unloads_nothing [OF this] show ?thesis by simp
qed

text \<open>C23: The idle sweep unloads exactly the models it names: the idle on-demand ones unused
  for at least the window, and every other slot is left as it was.\<close>

theorem idle_sweep_is_exact:
  assumes "slots_ok s" and "distinct (ids_of c)" and "sweep_idle c w now s = (s', gone)"
  shows "(i \<in> set gone \<longleftrightarrow>
      (\<exists>e \<in> set (c_entries c). \<exists>x d. e_id e = i \<and> held_in s i = Some x \<and>
         e_residency e = OnDemand \<and> s_child x \<notin># leases s \<and>
         window_duration w = Some d \<and> d \<le> now - s_last_used x)) \<and>
    held_in s' i = (if i \<in> set gone then None else held_in s i)"
proof -
  have "i \<in> set gone \<longleftrightarrow>
      (\<exists>e \<in> set (c_entries c). \<exists>x d. e_id e = i \<and> held_in s i = Some x \<and>
         e_residency e = OnDemand \<and> s_child x \<notin># leases s \<and>
         window_duration w = Some d \<and> d \<le> now - s_last_used x)"
    unfolding sweep_idle_exact(1) [OF assms] by (rule expired_held [OF assms(1)])
  with sweep_idle_exact(2) [OF assms] show ?thesis by blast
qed

theorem idle_sweep_is_exact_witness:
  "''m'' \<notin> set (snd (sweep_idle demo_catalog (IdleWindow (Some 5)) 9 demo_loaded)) \<and>
   held_in (fst (sweep_idle demo_catalog (IdleWindow (Some 5)) 9 demo_loaded)) ''m'' = Some demo_child"
proof -
  have "distinct (ids_of demo_catalog)" using demo_small by (simp add: small_catalog_def)
  from idle_sweep_is_exact [where w = "IdleWindow (Some 5)" and now = 9 and i = "''m''",
      OF ok_demo_loaded this prod.collapse [symmetric]]
  show ?thesis by (auto simp: demo_child_def)
qed

text \<open>A child whose entry a reload dropped keeps its slot, but nothing the new catalog
  drives reaches it again: neither sweep empties its slot, it is in no ledger, no decision
  names it for unloading, and acting on one leaves it.\<close>

lemma dropped_entry_is_stranded:
  assumes "held_in s i = Some x" and "i \<notin> set (ids_of c)"
  shows "held_in (resync c s) i = Some x \<and>
    held_in (sweep_exited c s) i = Some x \<and>
    held_in (fst (sweep_idle c w now s)) i = Some x \<and>
    i \<notin> set (map l_id (held c s)) \<and>
    (decide c e device s = Unload ids \<longrightarrow> i \<notin> set ids \<and> held_in (fst (unload ids s)) i = Some x)"
proof -
  have "decide c e device s = Unload ids \<Longrightarrow> i \<notin> set ids" using decide_known assms(2) by blast
  moreover have "i \<notin> set (map l_id (held c s))" using assms(2) by (auto simp: held_names)
  ultimately show ?thesis
    using assms sweep_exited_elsewhere [OF assms(2), of s] sweep_idle_elsewhere [OF assms(2), of w now s]
      unload_elsewhere [of i ids s] by simp
qed

lemma dropped_entry_is_stranded_witness:
  "let c = demo_catalog\<lparr>c_entries := []\<rparr> in
     held_in (resync c demo_loaded) ''m'' = Some demo_child \<and>
     held_in (fst (sweep_idle c (IdleWindow (Some 1)) 1000 demo_loaded)) ''m'' = Some demo_child"
proof -
  have "''m'' \<notin> set (ids_of (demo_catalog\<lparr>c_entries := []\<rparr>))" by simp
  from dropped_entry_is_stranded [OF _ this, of demo_loaded demo_child "IdleWindow (Some 1)" 1000]
  show ?thesis by simp
qed

end
