(* ===== verification/Serving_Steps.thy ===== *)
theory Serving_Steps
  imports Slot_Claims
begin

text \<open>
  The interleavings of \<open>Interleaving\<close> while the catalog is reloaded and the router stopped.
  A request works under the catalog it read, which a reload may have replaced since; a reload
  (\<open>Shared::reload\<close>) holds the admission lock, so it comes between two holders; a stop
  (\<open>Router::stop\<close>) takes no lock but each slot's. What one thread's stay under the admission
  lock proves of the slots is \<open>holding\<close>, under the catalog of that thread alone.
\<close>

section \<open>Steps\<close>

text \<open>
  The slots, where the holder of the admission lock is and the catalog it read, and the
  catalogs served so far, the one served now first.
\<close>

record serving =
  sv_slots :: slots
  sv_holder :: holder
  sv_under :: catalog
  sv_served :: "catalog list"

definition serving_new :: "catalog \<Rightarrow> budget \<Rightarrow> wait \<Rightarrow> serving" where
  "serving_new c b w =
     \<lparr>sv_slots = slots_new c b w, sv_holder = Nobody, sv_under = c, sv_served = [c]\<rparr>"

text \<open>
  Every step but a stop: what others do under a catalog that was or is served, an admission
  under one, the holder's own step, and a reload between two holders.
\<close>

inductive proceeds :: "serving \<Rightarrow> serving \<Rightarrow> bool" where
  acts: "c \<in> set (sv_served v) \<Longrightarrow> others c (sv_slots v) s \<Longrightarrow> proceeds v (v\<lparr>sv_slots := s\<rparr>)"
| admits: "sv_holder v = Nobody \<Longrightarrow> c \<in> set (sv_served v) \<Longrightarrow> a_entry a \<in> set (c_entries c) \<Longrightarrow>
    by_id (sv_slots v) (e_id (a_entry a)) \<noteq> None \<Longrightarrow>
    running (a_entry a) now (sv_slots v) = (s, None) \<Longrightarrow>
    proceeds v (v\<lparr>sv_slots := s, sv_holder := Looking a (c_entries c) [], sv_under := c\<rparr>)"
| works: "sv_holder v \<noteq> Nobody \<Longrightarrow>
    step (sv_under v) (sv_slots v, sv_holder v) (s, h) \<Longrightarrow>
    proceeds v (v\<lparr>sv_slots := s, sv_holder := h\<rparr>)"
| replaces: "sv_holder v = Nobody \<Longrightarrow>
    proceeds v (v\<lparr>sv_slots := resync c (sv_slots v), sv_served := c # sv_served v\<rparr>)"

inductive_cases proceeds_from: "proceeds v v'"

text \<open>
  A stop empties every slot of the map, in the order the map yields them: \<open>Slots::clear\<close>. It
  holds the map's lock for reading throughout, so no reload comes in between, and each slot's
  lock in turn; a step of another thread at a slot already emptied or not yet reached comes to
  the same as one before or after the stop.
\<close>

definition stops :: "serving \<Rightarrow> serving \<Rightarrow> bool" where
  "stops v v' =
     (\<exists>order. distinct order \<and> set order = dom (by_id (sv_slots v)) \<and>
        v' = v\<lparr>sv_slots := clear order (sv_slots v)\<rparr>)"

definition serves :: "serving \<Rightarrow> serving \<Rightarrow> bool" where
  "serves v v' = (proceeds v v' \<or> stops v v')"

lemma serves_cases [consumes 1, case_names proceeds stops]:
  assumes "serves v v'"
  obtains "proceeds v v'"
  | order where "distinct order" and "set order = dom (by_id (sv_slots v))"
      and "v' = v\<lparr>sv_slots := clear order (sv_slots v)\<rparr>"
  using assms unfolding serves_def stops_def by blast

inductive serves_until :: "catalog \<Rightarrow> budget \<Rightarrow> wait \<Rightarrow> serving \<Rightarrow> bool" for c b w where
  starts: "serves_until c b w (serving_new c b w)"
| serves_on: "serves_until c b w v \<Longrightarrow> serves v v' \<Longrightarrow> serves_until c b w v'"

text \<open>What the holder and the slots are in, and what a step of the holder's is in one catalog.\<close>

abbreviation at_work :: "serving \<Rightarrow> slots \<times> holder" where
  "at_work v \<equiv> (sv_slots v, sv_holder v)"

lemma admits_step:
  assumes "sv_holder v = Nobody" and "a_entry a \<in> set (c_entries c)"
    and "running (a_entry a) now (sv_slots v) = (s, None)"
  shows "step c (at_work v) (s, Looking a (c_entries c) [])"
  using asks [OF assms(2,3)] assms(1) by simp

lemma removed_lesser: "removed_from s s' \<Longrightarrow> lesser s s'"
  by (auto simp: removed_from_def lesser_def)

lemma lesser_clear: "distinct order \<Longrightarrow> slots_ok s \<Longrightarrow> lesser s (clear order s)"
  using removed_clear by (rule removed_lesser)

lemma ok_clear: "distinct order \<Longrightarrow> slots_ok s \<Longrightarrow> slots_ok (clear order s)"
  using removed_clear by (rule removed_ok)

section \<open>What needs no budget\<close>

lemma steady_proceeds: "proceeds v v' \<Longrightarrow> steady (at_work v) \<Longrightarrow> steady (at_work v')"
proof (induction rule: proceeds.induct)
  case (acts c v s)
  then show ?case using steady_step [OF other [OF acts(2), of "sv_holder v"]] by simp
next
  case (admits v c a now s)
  then show ?case using steady_step [OF admits_step] by fastforce
next
  case (works v s h)
  then show ?case using steady_step by fastforce
next
  case (replaces v c)
  then show ?case using ok_resync by (simp add: steady_def)
qed

lemma steady_serves: "serves v v' \<Longrightarrow> steady (at_work v) \<Longrightarrow> steady (at_work v')"
proof (induction rule: serves_cases)
  case proceeds
  then show ?case by (rule steady_proceeds)
next
  case (stops order)
  then show ?case
    using ok_clear lesser_None [OF lesser_clear] by (simp add: steady_def)
qed

lemma steady_serves_until: "serves_until c b w v \<Longrightarrow> steady (at_work v)"
proof (induction rule: serves_until.induct)
  case starts
  then show ?case by (simp add: serving_new_def steady_def)
next
  case (serves_on v v')
  then show ?case using steady_serves by blast
qed

text \<open>Nothing but a stop takes a child out of its slot while a request reads from it.\<close>

lemma keeps_read_proceeds:
  "proceeds v v' \<Longrightarrow> steady (at_work v) \<Longrightarrow> keeps_read (sv_slots v) (sv_slots v')"
proof (induction rule: proceeds.induct)
  case (acts c v s)
  then show ?case using keeps_read_others by (simp add: steady_def)
next
  case (admits v c a now s)
  then show ?case
    using keeps_read_running [of "sv_slots v" "a_entry a" now s None] by (simp add: steady_def)
next
  case (works v s h)
  then show ?case using keeps_read_step by fastforce
next
  case (replaces v c)
  then show ?case using keeps_read_same [of "resync c (sv_slots v)" "sv_slots v"] by simp
qed

text \<open>A stop empties every slot and takes no lease from a request.\<close>

lemma held_in_clear: "held_in (clear order s) i = (if i \<in> set order then None else held_in s i)"
  by (simp add: clear_def Let_def held_in_def map_option_case split: option.split)

lemma leases_clear [simp]: "leases (clear order s) = leases s"
  by (simp add: clear_def Let_def)

lemma stops_empties:
  assumes "stops v v'"
  shows "held_in (sv_slots v') i = None" and "leases (sv_slots v') = leases (sv_slots v)"
proof -
  obtain order where "set order = dom (by_id (sv_slots v))"
      and v': "v' = v\<lparr>sv_slots := clear order (sv_slots v)\<rparr>"
    using assms by (auto simp: stops_def)
  then have "held_in (sv_slots v) i = None" if "i \<notin> set order"
    using that by (auto simp: held_in_def split: option.split)
  with v' show "held_in (sv_slots v') i = None" by (simp add: held_in_clear)
  from v' show "leases (sv_slots v') = leases (sv_slots v)" by simp
qed

section \<open>What is listed and has room\<close>

text \<open>
  Whatever is loaded was listed by a catalog that was served, and the holder of the admission
  lock keeps its promises under the catalog it read, whatever was reloaded before.
\<close>

definition listed :: "serving \<Rightarrow> bool" where
  "listed v =
     (sv_under v \<in> set (sv_served v) \<and>
      (\<forall>a. asked_of (sv_holder v) = Some a \<longrightarrow> a_entry a \<in> set (c_entries (sv_under v))) \<and>
      (\<forall>i. held_in (sv_slots v) i \<noteq> None \<longrightarrow> (\<exists>c \<in> set (sv_served v). i \<in> set (ids_of c))))"

lemma listed_lesser:
  "listed v \<Longrightarrow> lesser (sv_slots v) s \<Longrightarrow> listed (v\<lparr>sv_slots := s\<rparr>)"
  unfolding listed_def lesser_def by fastforce

lemma step_asked:
  assumes "step c w w'" and "asked_of (snd w') = Some a"
  shows "asked_of (snd w) = Some a \<or> a_entry a \<in> set (c_entries c)"
  using assms by (induction rule: step.induct) auto

lemma listed_works:
  assumes "step (sv_under v) (at_work v) (s, h)" and "listed v"
  shows "listed (v\<lparr>sv_slots := s, sv_holder := h\<rparr>)"
proof -
  have asked: "a_entry a \<in> set (c_entries (sv_under v))" if "asked_of h = Some a" for a
    using step_asked [OF assms(1), of a] that assms(2) by (auto simp: listed_def)
  have "\<exists>c \<in> set (sv_served v). i \<in> set (ids_of c)" if "held_in s i \<noteq> None" for i
    using assms(1)
  proof (cases rule: step_lesser)
    case 1
    then have "held_in (sv_slots v) i \<noteq> None" using that lesser_None by fastforce
    with assms(2) show ?thesis by (simp add: listed_def)
  next
    case (2 s0 new a ls gone)
    with that have "i = e_id (a_entry a) \<or> held_in (sv_slots v) i \<noteq> None"
      by (simp add: held_in_insert split: if_splits)
    with 2 assms(2) show ?thesis by (auto simp: listed_def)
  qed
  with asked assms(2) show ?thesis by (simp add: listed_def)
qed

lemma listed_serves: "serves v v' \<Longrightarrow> steady (at_work v) \<Longrightarrow> listed v \<Longrightarrow> listed v'"
proof (induction rule: serves_cases)
  case proceeds
  then show ?case
  proof (induction rule: proceeds.induct)
    case (acts c v s)
    then show ?case using listed_lesser others_lesser by blast
  next
    case (admits v c a now s)
    then have "listed (v\<lparr>sv_slots := s\<rparr>)"
      using listed_lesser lesser_running [of "sv_slots v" "a_entry a" now] by simp
    with admits show ?case by (simp add: listed_def)
  next
    case (works v s h)
    then show ?case by (intro listed_works)
  next
    case (replaces v c)
    then have "listed (v\<lparr>sv_slots := resync c (sv_slots v)\<rparr>)"
      by (intro listed_lesser fewer_lesser fewer_resync)
    then show ?case by (auto simp: listed_def)
  qed
next
  case (stops order)
  then show ?case using listed_lesser lesser_clear by (simp add: steady_def)
qed

lemma listed_serves_until: "serves_until c b w v \<Longrightarrow> listed v"
proof (induction rule: serves_until.induct)
  case starts
  have "held_in (slots_new c b w) i = None" for i
    by (auto simp: held_in_def slots_new_def split: option.splits dest: map_of_SomeD)
  then show ?case by (simp add: serving_new_def listed_def)
next
  case (serves_on v v')
  then show ?case using listed_serves steady_serves_until by blast
qed

text \<open>The holder's own promises need no bound on what a reload brings, only small catalogs.\<close>

definition small_served :: "serving \<Rightarrow> bool" where
  "small_served v = (\<forall>c \<in> set (sv_served v). small_catalog c)"

lemma small_serves: "serves v v' \<Longrightarrow> small_served v' \<Longrightarrow> small_served v"
  by (erule serves_cases) (auto simp: small_served_def elim: proceeds_from)

lemma holding_serves:
  assumes "serves v v'" and "holding (sv_under v) l (at_work v)" and "listed v" and "small_served v"
  shows "holding (sv_under v') l (at_work v')"
  using assms
proof (induction rule: serves_cases)
  case proceeds
  then show ?case
  proof (induction rule: proceeds.induct)
    case (acts c v s)
    then have "slots_ok s" using others_ok [OF acts(2)] by (simp add: holding_def)
    then show ?case using holding_lesser [OF acts(3) others_lesser [OF acts(2)]] by simp
  next
    case (admits v c a now s)
    have "holding c l (at_work v)" using admits(1,6) by (simp add: holding_def)
    then show ?case
      using holding_step [OF admits_step [OF admits(1,3,5)]] admits(2,8) by (simp add: small_served_def)
  next
    case (works v s h)
    then show ?case
      using holding_step [OF works(2)] by (simp add: small_served_def listed_def)
  next
    case (replaces v c)
    have "slots_ok (resync c (sv_slots v))" using replaces(2) ok_resync by (simp add: holding_def)
    then show ?case using holding_lesser [OF replaces(2) fewer_lesser [OF fewer_resync]] by simp
  qed
next
  case (stops order)
  then have "slots_ok (sv_slots v)" by (simp add: holding_def)
  with stops show ?case using holding_lesser lesser_clear ok_clear by simp
qed

lemma holding_serves_until:
  assumes "serves_until c b w v" and "small_served v" and "limit_mib b = Some l"
  shows "holding (sv_under v) l (at_work v)"
  using assms(1,2)
proof (induction rule: serves_until.induct)
  case starts
  have "world_ok c l (slots_new c b w, Nobody)"
    using reachable_ok [OF begins _ assms(3)] starts by (simp add: serving_new_def small_served_def)
  then show ?case by (simp add: serving_new_def world_ok_def)
next
  case (serves_on v v')
  then show ?case using holding_serves listed_serves_until small_serves by blast
qed

section \<open>Reloads that ease the catalog\<close>

text \<open>Every model of the newer catalog is in the older one, with no smaller an estimate there.\<close>

definition eases :: "catalog \<Rightarrow> catalog \<Rightarrow> bool" where
  "eases newer older =
     (\<forall>e \<in> set (c_entries newer). \<exists>d \<in> set (c_entries older).
        e_id d = e_id e \<and> e_memory_estimate_mib e \<le> e_memory_estimate_mib d)"

lemma eases_refl: "eases c c"
  by (auto simp: eases_def)

lemma estimated_eases:
  assumes "eases newer older" and "distinct (ids_of newer)"
  shows "estimated newer s \<le> estimated older s"
  unfolding estimated_def
proof (rule sum_le_included [where i = "\<lambda>d. the (catalog_entry newer (e_id d))"])
  show "\<forall>e \<in> set (c_entries newer). \<exists>d \<in> set (c_entries older).
      the (catalog_entry newer (e_id d)) = e \<and>
      (case held_in s (e_id e) of None \<Rightarrow> 0 | Some x \<Rightarrow> unat (e_memory_estimate_mib e))
        \<le> (case held_in s (e_id d) of None \<Rightarrow> 0 | Some x \<Rightarrow> unat (e_memory_estimate_mib d))"
  proof
    fix e
    assume e: "e \<in> set (c_entries newer)"
    then obtain d where d: "d \<in> set (c_entries older)" "e_id d = e_id e"
        "e_memory_estimate_mib e \<le> e_memory_estimate_mib d"
      using assms(1) by (auto simp: eases_def)
    then have "the (catalog_entry newer (e_id d)) = e"
      using catalog_entry_distinct [OF assms(2) e] by simp
    with d show "\<exists>d \<in> set (c_entries older). the (catalog_entry newer (e_id d)) = e \<and>
      (case held_in s (e_id e) of None \<Rightarrow> 0 | Some x \<Rightarrow> unat (e_memory_estimate_mib e))
        \<le> (case held_in s (e_id d) of None \<Rightarrow> 0 | Some x \<Rightarrow> unat (e_memory_estimate_mib d))"
      by (intro bexI [of _ d]) (auto simp: word_le_nat_alt split: option.split)
  qed
qed auto

text \<open>A step under an older catalog keeps the estimates of the newer one within the budget.\<close>

lemma step_estimated:
  assumes "step c w w'" and "holding c l w" and "small_catalog c"
    and "eases d c" and "distinct (ids_of d)" and "estimated d (fst w) \<le> unat l"
  shows "estimated d (fst w') \<le> unat l"
  using assms(1)
proof (cases rule: step_lesser)
  case 1
  with assms(6) ledger_lesser(2) show ?thesis by (blast intro: le_trans)
next
  case (2 s new a ls gone)
  with assms(2,3) have "estimated c (fst w') \<le> unat l" using loads_estimated by simp
  with estimated_eases [OF assms(4,5)] show ?thesis by (blast intro: le_trans)
qed

definition within :: "u32 \<Rightarrow> serving \<Rightarrow> bool" where
  "within l v = (estimated (hd (sv_served v)) (sv_slots v) \<le> unat l)"

definition eased :: "catalog list \<Rightarrow> bool" where
  "eased cs = (sorted_wrt eases cs \<and> (\<forall>c \<in> set cs. small_catalog c))"

lemma eased_hd: "eased cs \<Longrightarrow> c \<in> set cs \<Longrightarrow> eases (hd cs) c"
  by (cases cs) (auto simp: eased_def eases_refl)

lemma eased_small: "eased cs \<Longrightarrow> c \<in> set cs \<Longrightarrow> small_catalog c \<and> distinct (ids_of c)"
  by (simp add: eased_def small_catalog_def)

lemma eased_served: "eased (sv_served v) \<Longrightarrow> small_served v"
  by (simp add: eased_def small_served_def)

lemma eased_serves: "serves v v' \<Longrightarrow> eased (sv_served v') \<Longrightarrow> eased (sv_served v)"
  by (erule serves_cases) (auto simp: eased_def elim: proceeds_from)

lemma within_step:
  assumes "step c (at_work v) (s, h)" and "holding c l (at_work v)" and "within l v"
    and "c \<in> set (sv_served v)" and "eased (sv_served v)"
  shows "within l (v\<lparr>sv_slots := s, sv_holder := h, sv_under := c\<rparr>)"
proof -
  let ?d = "hd (sv_served v)"
  have d: "?d \<in> set (sv_served v)" using assms(4) by (cases "sv_served v") auto
  have "estimated ?d (fst (s, h)) \<le> unat l"
    using step_estimated [OF assms(1,2), of ?d] eased_small [OF assms(5)] assms(3,4) d
      eased_hd [OF assms(5,4)] by (simp add: within_def)
  then show ?thesis by (simp add: within_def)
qed

lemma within_lesser: "within l v \<Longrightarrow> lesser (sv_slots v) s \<Longrightarrow> within l (v\<lparr>sv_slots := s\<rparr>)"
  using ledger_lesser(2) [of "sv_slots v" s "hd (sv_served v)"] by (simp add: within_def)

lemma within_proceeds:
  assumes "proceeds v v'" and "within l v" and "eased (sv_served v')"
    and "holding (sv_under v) l (at_work v)" and "listed v" and "eased (sv_served v)"
  shows "within l v'"
  using assms
proof (induction rule: proceeds.induct)
  case (acts c v s)
  then show ?case using within_lesser others_lesser by blast
next
  case (admits v c a now s)
  have "holding c l (at_work v)" using admits(1,8) by (simp add: holding_def)
  then show ?case
    using within_step [OF admits_step [OF admits(1,3,5)] _ admits(6,2,10)] by simp
next
  case (works v s h)
  then have "within l (v\<lparr>sv_slots := s, sv_holder := h, sv_under := sv_under v\<rparr>)"
    by (intro within_step) (simp_all add: listed_def)
  then show ?case by simp
next
  case (replaces v c)
  let ?old = "hd (sv_served v)" and ?s = "resync c (sv_slots v)"
  have old: "?old \<in> set (sv_served v)" using replaces(5) by (cases "sv_served v") (auto simp: listed_def)
  have "within l (v\<lparr>sv_slots := ?s\<rparr>)"
    using within_lesser [OF replaces(2) fewer_lesser [OF fewer_resync]] .
  moreover have "estimated c ?s \<le> estimated ?old ?s"
    using replaces(3) old by (intro estimated_eases) (auto simp: eased_def small_catalog_def)
  ultimately show ?case by (simp add: within_def)
qed

lemma within_serves_until:
  assumes "serves_until c b w v" and "eased (sv_served v)" and "limit_mib b = Some l"
  shows "within l v"
  using assms(1,2)
proof (induction rule: serves_until.induct)
  case starts
  have "world_ok c l (slots_new c b w, Nobody)"
    using reachable_ok [OF begins _ assms(3)] starts by (simp add: serving_new_def eased_def)
  then show ?case by (simp add: within_def serving_new_def world_ok_def)
next
  case (serves_on v v')
  have eased: "eased (sv_served v)" using eased_serves serves_on(2,4) by blast
  note at = holding_serves_until [OF serves_on(1) eased_served [OF eased] assms(3)]
    listed_serves_until [OF serves_on(1)]
  from serves_on(2) show ?case
  proof (cases rule: serves_cases)
    case proceeds
    then show ?thesis using within_proceeds serves_on(3,4) at eased by blast
  next
    case (stops order)
    then show ?thesis
      using within_lesser serves_on(3) [OF eased] lesser_clear at(1) by (auto simp: holding_def)
  qed
qed

text \<open>If no reload dropped a model, every loaded one is listed by the catalog being served.\<close>

lemma listed_all:
  assumes "listed v" and "held_in (sv_slots v) i \<noteq> None"
    and "\<And>c. c \<in> set (sv_served v) \<Longrightarrow> set (ids_of c) = set (ids_of (hd (sv_served v)))"
  shows "i \<in> set (ids_of (hd (sv_served v)))"
  using assms unfolding listed_def by blast

end
