(* ===== verification/Custody.thy ===== *)
theory Custody
  imports Serving_Steps
begin

text \<open>
  Who has which child: the contract the slots are written to, and that they keep it. The
  abstract machine knows which child each model's slot holds and which children are being read
  from, and nothing of handles, counts, locks, lines or clocks; its steps are what may happen to
  a child. Every step of the program, whichever thread takes it, is a step of that machine, and the
  counts of the handles are what the machine says they are.
\<close>

section \<open>Simulations\<close>

text \<open>
  A step relation that an abstract one simulates through a view of its states, as long as an
  invariant of its own holds.
\<close>

locale simulation =
  fixes step :: "'s \<Rightarrow> 's \<Rightarrow> bool"
    and abstract_step :: "'a \<Rightarrow> 'a \<Rightarrow> bool"
    and view :: "'s \<Rightarrow> 'a"
    and keeping :: "'s \<Rightarrow> bool"
  assumes kept: "step s s' \<Longrightarrow> keeping s \<Longrightarrow> keeping s'"
    and simulated: "step s s' \<Longrightarrow> keeping s \<Longrightarrow> abstract_step (view s) (view s')"
begin

lemma runs:
  assumes "step\<^sup>*\<^sup>* s s'" and "keeping s"
  shows "keeping s' \<and> abstract_step\<^sup>*\<^sup>* (view s) (view s')"
  using assms(1)
proof (induction rule: rtranclp_induct)
  case base
  with assms(2) show ?case by simp
next
  case (step y z)
  then show ?case using kept simulated by (blast intro: rtranclp.rtrancl_into_rtrancl)
qed

text \<open>What the abstract machine keeps, the program keeps of its view.\<close>

lemma carried:
  assumes "step\<^sup>*\<^sup>* s s'" and "keeping s" and "P (view s)"
    and "\<And>a a'. abstract_step a a' \<Longrightarrow> P a \<Longrightarrow> P a'"
  shows "P (view s')"
proof -
  have "abstract_step\<^sup>*\<^sup>* (view s) (view s')" using runs [OF assms(1,2)] by simp
  then show ?thesis by (induction rule: rtranclp_induct) (use assms(3,4) in auto)
qed

end

section \<open>The abstract machine\<close>

record custody =
  slot_of :: "string \<Rightarrow> nat option"
  readers :: "nat multiset"

definition custody_new :: custody where
  "custody_new = \<lparr>slot_of = (\<lambda>_. None), readers = {#}\<rparr>"

text \<open>The child is somebody's: a slot's or a reader's. Nobody's child is not running.\<close>

definition in_custody :: "custody \<Rightarrow> nat \<Rightarrow> bool" where
  "in_custody a ch = (ch \<in># readers a \<or> (\<exists>i. slot_of a i = Some ch))"

definition handles :: "custody \<Rightarrow> nat \<Rightarrow> nat" where
  "handles a ch = count (readers a) ch + (if \<exists>i. slot_of a i = Some ch then 1 else 0)"

text \<open>
  A slot gives up a child only when nobody reads from it, a child is lent from its slot, given
  back by its reader, and loaded into an empty slot, at once lent to the request it was loaded
  for. A stop empties every slot at once, whoever reads, and takes nothing from a reader.
\<close>

inductive custody_call :: "custody \<Rightarrow> custody \<Rightarrow> bool" where
  gives_up: "(\<And>i. m i = slot_of a i \<or> m i = None \<and> (\<forall>ch. slot_of a i = Some ch \<longrightarrow> ch \<notin># readers a)) \<Longrightarrow>
    custody_call a (a\<lparr>slot_of := m\<rparr>)"
| lends: "slot_of a i = Some ch \<Longrightarrow> custody_call a (a\<lparr>readers := add_mset ch (readers a)\<rparr>)"
| gives_back: "ch \<in># readers a \<Longrightarrow> custody_call a (a\<lparr>readers := readers a - {#ch#}\<rparr>)"
| loads_child: "slot_of a i = None \<Longrightarrow> \<not> in_custody a ch \<Longrightarrow>
    custody_call a \<lparr>slot_of = (slot_of a)(i := Some ch), readers = add_mset ch (readers a)\<rparr>"

definition custody_stop :: "custody \<Rightarrow> custody \<Rightarrow> bool" where
  "custody_stop a a' = (readers a' = readers a \<and> (\<forall>i. slot_of a' i = None))"

definition custody_step :: "custody \<Rightarrow> custody \<Rightarrow> bool" where
  "custody_step a a' = (custody_call a a' \<or> custody_stop a a')"

text \<open>No call empties a slot whose child is read from, and what is loaded was nobody's.\<close>

lemma call_spares:
  assumes "custody_call a a'" and "slot_of a i = Some ch" and "ch \<in># readers a"
  shows "slot_of a' i = Some ch"
  using assms
proof (induction rule: custody_call.induct)
  case (gives_up m a)
  from gives_up(1) [of i] gives_up(2,3) show ?case by auto
qed auto

text \<open>No child is in two slots, whatever is lent, given back, loaded and stopped.\<close>

definition exclusive :: "custody \<Rightarrow> bool" where
  "exclusive a = (\<forall>i j ch. slot_of a i = Some ch \<and> slot_of a j = Some ch \<longrightarrow> i = j)"

lemma exclusive_fewer:
  assumes "exclusive a" and "\<And>i. slot_of a' i = slot_of a i \<or> slot_of a' i = None"
  shows "exclusive a'"
  using assms unfolding exclusive_def by (metis option.distinct(1))

lemma exclusive_call: "custody_call a a' \<Longrightarrow> exclusive a \<Longrightarrow> exclusive a'"
proof (induction rule: custody_call.induct)
  case (gives_up m a)
  show ?case
  proof (rule exclusive_fewer [OF gives_up(2)])
    fix i
    show "slot_of (a\<lparr>slot_of := m\<rparr>) i = slot_of a i \<or> slot_of (a\<lparr>slot_of := m\<rparr>) i = None"
      using gives_up(1) [of i] by auto
  qed
qed (auto simp: exclusive_def in_custody_def)

lemma exclusive_step: "custody_step a a' \<Longrightarrow> exclusive a \<Longrightarrow> exclusive a'"
  using exclusive_call exclusive_fewer by (auto simp: custody_step_def custody_stop_def)

section \<open>The program's view\<close>

definition custody_of :: "slots \<Rightarrow> custody" where
  "custody_of s = \<lparr>slot_of = (\<lambda>i. map_option s_child (held_in s i)), readers = leases s\<rparr>"

lemma custody_of_sel [simp]:
  "slot_of (custody_of s) i = map_option s_child (held_in s i)" "readers (custody_of s) = leases s"
  by (simp_all add: custody_of_def)

lemma in_slot_custody: "(\<exists>i. slot_of (custody_of s) i = Some ch) \<longleftrightarrow> in_slot s ch"
  by (auto simp: in_slot_def)

text \<open>The counts of the handles are the machine's, and what runs is what is in custody.\<close>

lemma counts_are_handles: "slots_ok s \<Longrightarrow> strong_count (heap_of s) ch = handles (custody_of s) ch"
  by (simp add: handles_def in_slot_custody [simplified] slots_okD(2))

lemma alive_in_custody: "slots_ok s \<Longrightarrow> heap_of s ch \<noteq> None \<longleftrightarrow> in_custody (custody_of s) ch"
  using ok_alive [of s ch] in_slot_custody [of s ch] by (auto simp: in_custody_def)

section \<open>Every step is a step of the machine\<close>

lemma custody_gives_up:
  assumes "lesser s s'" and "keeps_read s s'" and "leases s' = leases s"
  shows "custody_call (custody_of s) (custody_of s')"
proof -
  let ?m = "slot_of (custody_of s')"
  have "?m i = slot_of (custody_of s) i \<or>
      ?m i = None \<and> (\<forall>ch. slot_of (custody_of s) i = Some ch \<longrightarrow> ch \<notin># readers (custody_of s))" for i
  proof (cases "held_in s' i")
    case None
    with assms(2) have "s_child x \<notin># leases s" if "held_in s i = Some x" for x
      using that unfolding keeps_read_def by fastforce
    with None show ?thesis by auto
  next
    case (Some x')
    with assms(1) obtain x where "held_in s i = Some x" "s_child x = s_child x'"
      unfolding lesser_def by blast
    with Some show ?thesis by simp
  qed
  from gives_up [of ?m, OF this] assms(3) show ?thesis by (simp add: custody_of_def)
qed

lemma custody_same: "lesser s s' \<Longrightarrow> (\<And>i. held_in s' i = held_in s i) \<Longrightarrow> leases s' = leases s \<Longrightarrow>
    custody_call (custody_of s) (custody_of s')"
  by (rule custody_gives_up) (auto intro: keeps_read_same)

lemma custody_refl: "custody_call (custody_of s) (custody_of s)"
  by (rule custody_same) simp_all

lemma custody_spared: "removed_from s s' \<Longrightarrow> spared s s' \<Longrightarrow> custody_call (custody_of s) (custody_of s')"
  by (rule custody_gives_up) (auto simp: removed_from_def intro: removed_lesser keeps_read_spared)

text \<open>Whatever only unloads what nobody reads only gives up children.\<close>

context slot_sparer begin

lemma gives_up_only:
  assumes "slots_ok s"
  shows "custody_call (custody_of s) (custody_of (run s))"
proof (rule custody_gives_up)
  show "lesser s (run s)" unfolding lesser_def using keeps_settings(1) only_removes by blast
  show "keeps_read s (run s)" unfolding keeps_read_def using spares [OF assms] by blast
  show "leases (run s) = leases s" by (rule keeps_leases)
qed

end

lemma custody_running:
  assumes "slots_ok s" and "running e now s = (s', r)"
  shows "custody_call (custody_of s) (custody_of s')"
  using assms(2)
proof (cases rule: running_cases)
  case absent
  then show ?thesis by (simp add: custody_refl)
next
  case (dead x st)
  then show ?thesis
    using lesser_running [of s e now] keeps_read_running [OF assms] assms(2)
    by (intro custody_gives_up) simp_all
next
  case (live x)
  then have "custody_of s' = custody_of s\<lparr>readers := add_mset (s_child x) (readers (custody_of s))\<rparr>"
    by (auto simp: custody_of_def)
  with live show ?thesis using lends [of "custody_of s" "e_id e" "s_child x"] by simp
qed

lemma custody_others: "others c s s' \<Longrightarrow> slots_ok s \<Longrightarrow> custody_call (custody_of s) (custody_of s')"
proof (induction rule: others.induct)
  case (fast_path e s now)
  then show ?case using custody_running [of s e now] by (metis prod.collapse)
next
  case (release ch s)
  then show ?case using gives_back [of ch "custody_of s"] by (simp add: custody_of_def lease_drop_def)
next
  case (exit s ch x st)
  then show ?case by (intro custody_same) (simp_all add: lesser_frames)
next
  case (stamp s i now)
  have "leases (touch i now s) = leases s" by (simp add: touch_def split: option.split)
  with stamp show ?case
    using lesser_touch keeps_read_others [OF others.stamp] by (intro custody_gives_up) auto
next
  case (reap_exited s i)
  then show ?case
    by (intro custody_spared removed_swept spared_swept taker_exited idle_exited)
next
  case (reap_idle e s now d)
  then show ?case
    by (intro custody_spared removed_swept spared_swept taker_stale idle_stale)
next
  case (on_request s i)
  then show ?case by (rule letting.gives_up_only)
qed

lemma custody_unloads: "unload is s = (s', r) \<Longrightarrow> slots_ok s \<Longrightarrow> custody_call (custody_of s) (custody_of s')"
  using unloading.gives_up_only [of s "is"] by simp

lemma custody_loads:
  assumes "slots_ok s" and "held_in s i = None" and "heap_of s (s_child new) = None"
  shows "custody_call (custody_of s)
    (custody_of (fst (insert_child i new (on_heap (arc_new (s_child new)) s))))"
proof -
  have "custody_of (fst (insert_child i new (on_heap f s))) =
      \<lparr>slot_of = (slot_of (custody_of s))(i := Some (s_child new)),
       readers = add_mset (s_child new) (readers (custody_of s))\<rparr>" for f
    by (auto simp: custody_of_def held_in_insert insert_frames)
  moreover have "\<not> in_custody (custody_of s) (s_child new)"
    using alive_in_custody [OF assms(1)] assms(3) by blast
  ultimately show ?thesis
    using loads_child [of "custody_of s" i "s_child new"] assms(2) by (simp only:) simp
qed

lemma custody_works: "step c w w' \<Longrightarrow> steady w \<Longrightarrow> custody_call (custody_of (fst w)) (custody_of (fst w'))"
proof (induction rule: step.induct)
  case (other s s' h)
  then show ?case using custody_others by (simp add: steady_def)
next
  case (resynced s)
  then show ?case using reload.gives_up_only by (simp add: steady_def)
next
  case (asks a now s s')
  then show ?case using custody_running by (simp add: steady_def)
next
  case (unloads i s s' a ls gone rest)
  then show ?case using custody_unloads [of "[i]"] by (simp add: steady_def)
next
  case (blocked i s s' a ls gone rest)
  then show ?case using custody_unloads [of "[i]"] by (simp add: steady_def)
next
  case (loads s new a ls gone)
  then show ?case using custody_loads by (simp add: steady_def)
qed (simp_all add: custody_refl)

text \<open>Every step of the program but its stop is a call of the machine's, never one of its stops.\<close>

lemma custody_proceeds:
  "proceeds v v' \<Longrightarrow> steady (at_work v) \<Longrightarrow>
    custody_call (custody_of (sv_slots v)) (custody_of (sv_slots v'))"
proof (induction rule: proceeds.induct)
  case (acts c v s)
  then show ?case using custody_others by (simp add: steady_def)
next
  case (admits v c a now s)
  then show ?case using custody_running by (simp add: steady_def)
next
  case (works v s h)
  then show ?case using custody_works by fastforce
next
  case (replaces v c)
  then show ?case using reload.gives_up_only by (simp add: steady_def)
qed

lemma custody_stops:
  assumes "stops v v'"
  shows "custody_stop (custody_of (sv_slots v)) (custody_of (sv_slots v'))"
  using stops_empties [OF assms] by (simp add: custody_stop_def)

lemma custody_simulates:
  "serves v v' \<Longrightarrow> steady (at_work v) \<Longrightarrow> custody_step (custody_of (sv_slots v)) (custody_of (sv_slots v'))"
  using custody_proceeds custody_stops by (auto simp: serves_def custody_step_def)

interpretation served: simulation serves custody_step "\<lambda>v. custody_of (sv_slots v)" "\<lambda>v. steady (at_work v)"
  by unfold_locales (rule steady_serves custody_simulates; assumption)+

lemma serves_until_runs: "serves_until c b w v \<Longrightarrow> serves\<^sup>*\<^sup>* (serving_new c b w) v"
  by (induction rule: serves_until.induct) (auto intro: rtranclp.rtrancl_into_rtrancl)

lemma custody_new_view: "custody_of (sv_slots (serving_new c b w)) = custody_new"
  by (auto simp: custody_of_def serving_new_def custody_new_def slots_new_def held_in_def fun_eq_iff
      split: option.split dest: map_of_SomeD)

lemma steady_new: "steady (at_work (serving_new c b w))"
  by (simp add: serving_new_def steady_def)

text \<open>Every state of the program is one the machine reaches, and keeps what the machine keeps.\<close>

lemmas custody_reached =
  served.runs [OF serves_until_runs steady_new, unfolded custody_new_view]

lemmas custody_keeps =
  served.carried [OF serves_until_runs steady_new, unfolded custody_new_view]

end
