(* ===== verification/Serving_Claims.thy ===== *)
theory Serving_Claims
  imports Custody
begin

text \<open>
  What the slots promise while requests, sweeps, unloads, loads, reloads and stops interleave.
\<close>

section \<open>A run with a reload and a stop, for the witnesses\<close>

text \<open>
  The model of \<open>demo_catalog\<close> is loaded and leased, a reload lowers its estimate to three MiB,
  and the router is stopped while the answer is being read.
\<close>

definition lighter_catalog :: catalog where
  "lighter_catalog = \<lparr>c_version = 1, c_entries = [plain_entry ''m'' 3 OnDemand],
     c_derived = {}, c_discovered = {}\<rparr>"

definition demo_served :: serving where
  "demo_served = \<lparr>sv_slots = resync lighter_catalog demo_loaded, sv_holder = Nobody,
     sv_under = demo_catalog, sv_served = [lighter_catalog, demo_catalog]\<rparr>"

definition demo_stopped :: serving where
  "demo_stopped = demo_served\<lparr>sv_slots := clear [''m''] (sv_slots demo_served)\<rparr>"

abbreviation demo_at :: "slots \<Rightarrow> holder \<Rightarrow> serving" where
  "demo_at s h \<equiv> \<lparr>sv_slots = s, sv_holder = h, sv_under = demo_catalog, sv_served = [demo_catalog]\<rparr>"

abbreviation demo_budget :: budget where "demo_budget \<equiv> budget_new (Some 10)"

lemma demo_entries: "c_entries demo_catalog = [demo_entry]" "a_entry demo_asked = demo_entry"
  by (simp_all add: demo_catalog_def demo_asked_def)

lemma demo_works:
  assumes "serves_until demo_catalog demo_budget (Wait 0) (demo_at s h)" and "h \<noteq> Nobody"
    and "step demo_catalog (s, h) (s', h')"
  shows "serves_until demo_catalog demo_budget (Wait 0) (demo_at s' h')"
  using serves_on [OF assms(1), of "demo_at s' h'"] works [of "demo_at s h" s' h'] assms(2,3)
  by (simp add: serves_def)

lemma demo_room_served:
  "serves_until demo_catalog demo_budget (Wait 0) (demo_at demo_new (RoomMade demo_asked [] []))"
proof -
  let ?until = "serves_until demo_catalog demo_budget (Wait 0)"
  have new: "?until (demo_at demo_new Nobody)"
    using starts [of demo_catalog demo_budget "Wait 0"] by (simp add: serving_new_def demo_new_def)
  have slot: "by_id demo_new ''m'' \<noteq> None" by (simp add: demo_new_def slots_new_def demo_entries)
  have "serves (demo_at demo_new Nobody) (demo_at demo_new (Looking demo_asked [demo_entry] []))"
    using admits [of "demo_at demo_new Nobody" demo_catalog demo_asked 0 demo_new] slot running_empty
    by (simp add: demo_entries serves_def)
  with new have "?until (demo_at demo_new (Looking demo_asked [demo_entry] []))" by (rule serves_on)
  moreover have "step demo_catalog (demo_new, Looking demo_asked [demo_entry] [])
      (demo_new, Looking demo_asked [] [])"
    using sees [of demo_catalog demo_new demo_asked demo_entry "[]" "[]"] by (simp add: read_slot_def)
  ultimately have "?until (demo_at demo_new (Looking demo_asked [] []))" by (blast intro: demo_works)
  moreover have "step demo_catalog (demo_new, Looking demo_asked [] []) (demo_new, RoomMade demo_asked [] [])"
    using fits [of demo_new "[]" demo_asked None demo_catalog] demo_fits
    by (simp add: List.map_filter_simps demo_entries)
  ultimately show ?thesis by (blast intro: demo_works)
qed

lemma demo_loaded_served: "serves_until demo_catalog demo_budget (Wait 0) (demo_at demo_loaded Nobody)"
proof -
  have "heap_of demo_new (s_child demo_child) = None" by (simp add: demo_new_def slots_new_def)
  then have "step demo_catalog (demo_new, RoomMade demo_asked [] []) (demo_loaded, Nobody)"
    using loads [of demo_new demo_child demo_catalog demo_asked "[]" "[]"]
    by (simp add: demo_loaded_def demo_asked_def demo_child_def sane_def UNKNOWN_def)
  with demo_room_served show ?thesis by (blast intro: demo_works)
qed

lemma demo_serves: "serves_until demo_catalog demo_budget (Wait 0) demo_served"
  using serves_on [OF demo_loaded_served, of demo_served]
    replaces [of "demo_at demo_loaded Nobody" lighter_catalog]
  by (simp add: demo_served_def serves_def)

lemma demo_table: "dom (by_id (sv_slots demo_served)) = {''m''}"
proof -
  have "by_id demo_loaded = [''m'' \<mapsto> Some demo_child]"
    by (simp add: demo_loaded_def insert_child_def Let_def put_slot_def lease_new_def on_heap_def
        demo_new_def slots_new_def demo_entries held_in_def)
  then show ?thesis
    by (auto simp: demo_served_def resync_def Let_def ring_def lighter_catalog_def plain_entry_def
        split: if_splits option.splits)
qed

lemma demo_stop: "stops demo_served demo_stopped"
  unfolding stops_def using demo_table by (intro exI [of _ "[''m'']"]) (simp add: demo_stopped_def)

lemma demo_stops: "serves_until demo_catalog demo_budget (Wait 0) demo_stopped"
  using serves_on [OF demo_serves, of demo_stopped] demo_stop by (simp add: serves_def)


section \<open>Properties\<close>

text \<open>C1: However requests, sweeps, unloads, loads, reloads and stops interleave, a child a
  request holds is never killed, every process is held by a request or a slot, a count above one
  is exactly a request reading, and no process is in two slots. Every step other than the
  router's stop, a reload among them, leaves a child in its slot while a request reads from it;
  the stop empties every slot and takes no child from a request.\<close>

theorem readers_outlive_reloads_and_stops:
  assumes "serves_until c b w v"
  shows "(ch \<in># leases (sv_slots v) \<longrightarrow> heap_of (sv_slots v) ch \<noteq> None) \<and>
    (heap_of (sv_slots v) ch \<noteq> None \<longrightarrow> ch \<in># leases (sv_slots v) \<or> in_slot (sv_slots v) ch) \<and>
    (held_in (sv_slots v) i = Some x \<longrightarrow>
      heap_of (sv_slots v) (s_child x) \<noteq> None \<and>
      (busy (heap_of (sv_slots v)) (s_child x) \<longleftrightarrow> s_child x \<in># leases (sv_slots v)) \<and>
      (held_in (sv_slots v) j = Some y \<and> s_child y = s_child x \<longrightarrow> j = i) \<and>
      (s_child x \<in># leases (sv_slots v) \<and> proceeds v v' \<longrightarrow>
        (\<exists>x'. held_in (sv_slots v') i = Some x' \<and> s_child x' = s_child x))) \<and>
    (stops v v' \<longrightarrow> held_in (sv_slots v') i = None \<and> leases (sv_slots v') = leases (sv_slots v))"
proof -
  have steady: "steady (at_work v)" using assms by (rule steady_serves_until)
  have "\<exists>x'. held_in (sv_slots v') i = Some x' \<and> s_child x' = s_child x"
    if "proceeds v v'" "held_in (sv_slots v) i = Some x" "s_child x \<in># leases (sv_slots v)"
    using keeps_read_proceeds [OF that(1) steady] that(2,3) unfolding keeps_read_def by blast
  then show ?thesis
    using readers_safe [of "sv_slots v" ch i x j y] steady stops_empties [of v v']
    by (simp add: steady_def)
qed

theorem readers_outlive_reloads_and_stops_witness:
  "7 \<in># leases (sv_slots demo_stopped) \<and> heap_of (sv_slots demo_stopped) 7 \<noteq> None \<and>
   held_in (sv_slots demo_stopped) ''m'' = None"
proof -
  have "leases (sv_slots demo_stopped) = {#7#}" by (simp add: demo_stopped_def demo_served_def)
  moreover have "held_in (sv_slots demo_stopped) ''m'' = None"
    using readers_outlive_reloads_and_stops [OF demo_serves, of _ "''m''" _ _ _ demo_stopped]
      demo_stop by blast
  ultimately show ?thesis
    using readers_outlive_reloads_and_stops [OF demo_stops, of 7] by simp
qed



text \<open>C3: The counted handles implement plain custody: every state the program reaches, however
  its threads interleave, is seen as one that the abstract machine reaches by lending, giving
  back, giving up what nobody reads, loading a child that is nobody's, and stopping. Every step
  other than the router's stop is one of the first four, and the stop empties every slot
  whoever reads; no child is in two slots; and the count of each child's handles and whether it
  runs are what its custody says.\<close>

theorem handles_implement_custody:
  assumes "serves_until c b w v"
  shows "custody_step\<^sup>*\<^sup>* custody_new (custody_of (sv_slots v)) \<and>
    (proceeds v v' \<longrightarrow> custody_call (custody_of (sv_slots v)) (custody_of (sv_slots v'))) \<and>
    (stops v v' \<longrightarrow> custody_stop (custody_of (sv_slots v)) (custody_of (sv_slots v'))) \<and>
    exclusive (custody_of (sv_slots v)) \<and>
    strong_count (heap_of (sv_slots v)) ch = handles (custody_of (sv_slots v)) ch \<and>
    (heap_of (sv_slots v) ch \<noteq> None \<longleftrightarrow> in_custody (custody_of (sv_slots v)) ch)"
proof -
  have ok: "steady (at_work v)" "slots_ok (sv_slots v)"
    using steady_serves_until [OF assms] by (simp_all add: steady_def)
  have "exclusive (custody_of (sv_slots v))"
    by (rule custody_keeps [where P = exclusive, OF assms _ exclusive_step])
      (simp_all add: exclusive_def custody_new_def)
  then show ?thesis
    using custody_reached [OF assms] counts_are_handles [OF ok(2)] alive_in_custody [OF ok(2)]
      custody_proceeds [OF _ ok(1)] custody_stops by blast
qed

theorem handles_implement_custody_witness:
  "strong_count (heap_of (sv_slots demo_stopped)) 7 = 1 \<and>
   custody_stop (custody_of (sv_slots demo_served)) (custody_of (sv_slots demo_stopped)) \<and>
   custody_of (sv_slots demo_stopped) = \<lparr>slot_of = (\<lambda>_. None), readers = {#7#}\<rparr>"
proof -
  have stop: "custody_stop (custody_of (sv_slots demo_served)) (custody_of (sv_slots demo_stopped))"
    using handles_implement_custody [OF demo_serves, of demo_stopped] demo_stop by blast
  moreover have "readers (custody_of (sv_slots demo_stopped)) = {#7#}"
    by (simp add: demo_stopped_def demo_served_def)
  ultimately have "custody_of (sv_slots demo_stopped) = \<lparr>slot_of = (\<lambda>_. None), readers = {#7#}\<rparr>"
    by (intro custody.equality) (simp_all add: custody_stop_def fun_eq_iff)
  with stop show ?thesis
    using handles_implement_custody [OF demo_stops, of _ 7] by (simp add: handles_def)
qed



end
