(* ===== verification/Bell.thy ===== *)
theory Bell
  imports Serving_Claims Wait_Claims
begin

text \<open>
  The bell a waiting request sleeps on, and how a lease is let go (\<open>proxy/slots/lease.rs\<close>,
  \<open>room_for\<close> of \<open>proxy/slots/room.rs\<close>), in the small steps the order of which matters: a
  waiter hears the count, looks at the slots one after another, and only then waits for the
  count to move; a reader's handle on its child goes first and the bell rings after. Between
  any two of these every other thread may take any step of \<open>Serving_Steps\<close>.
\<close>

section \<open>Steps\<close>

text \<open>
  Where the waiter is: about to hear, looking with the count it heard and the children it has
  found busy, or waiting with them. A lease being let go is between its two drops while its
  child is in \<open>bl_letting\<close>.
\<close>

datatype waiter = Arrives | Looks nat "nat list" | Waits nat "nat list"

record belled =
  bl_serving :: serving
  bl_waiter :: waiter
  bl_letting :: "nat multiset"

abbreviation bl_slots :: "belled \<Rightarrow> slots" where
  "bl_slots v \<equiv> sv_slots (bl_serving v)"

abbreviation set_slots :: "slots \<Rightarrow> belled \<Rightarrow> belled" where
  "set_slots s v \<equiv> v\<lparr>bl_serving := (bl_serving v)\<lparr>sv_slots := s\<rparr>\<rparr>"

text \<open>The fields of a \<open>Lease\<close> in the order they are dropped: the child's handle, then the ring.\<close>

definition handle_goes :: "nat \<Rightarrow> slots \<Rightarrow> slots" where
  "handle_goes ch s = on_heap (arc_drop ch) (s\<lparr>leases := leases s - {#ch#}\<rparr>)"

lemma lease_drop_parts: "lease_drop ch s = ring (handle_goes ch s)"
  by (simp add: lease_drop_def handle_goes_def)

inductive bell_step :: "instant \<Rightarrow> belled \<Rightarrow> belled \<Rightarrow> bool" for deadline where
  hears: "bl_waiter v = Arrives \<Longrightarrow>
    bell_step deadline v (v\<lparr>bl_waiter := Looks (rung (bl_slots v)) []\<rparr>)"
| finds_busy: "bl_waiter v = Looks heard found \<Longrightarrow> held_in (bl_slots v) i = Some x \<Longrightarrow>
    busy (heap_of (bl_slots v)) (s_child x) \<Longrightarrow>
    bell_step deadline v (v\<lparr>bl_waiter := Looks heard (s_child x # found)\<rparr>)"
| is_served: "bl_waiter v = Looks heard found \<Longrightarrow>
    bell_step deadline v (v\<lparr>bl_waiter := Arrives\<rparr>)"
| waits: "bl_waiter v = Looks heard found \<Longrightarrow>
    bell_step deadline v (v\<lparr>bl_waiter := Waits heard found\<rparr>)"
| wakes: "bl_waiter v = Waits heard found \<Longrightarrow> wait_ends (rung (bl_slots v)) heard deadline now \<Longrightarrow>
    bell_step deadline v (v\<lparr>bl_waiter := Arrives\<rparr>)"
| lets_go: "ch \<in># leases (bl_slots v) \<Longrightarrow>
    bell_step deadline v
      ((set_slots (handle_goes ch (bl_slots v)) v)\<lparr>bl_letting := add_mset ch (bl_letting v)\<rparr>)"
| rings: "ch \<in># bl_letting v \<Longrightarrow>
    bell_step deadline v
      ((set_slots (ring (bl_slots v)) v)\<lparr>bl_letting := bl_letting v - {#ch#}\<rparr>)"
| others_act: "serves (bl_serving v) v' \<Longrightarrow> bell_step deadline v (v\<lparr>bl_serving := v'\<rparr>)"

inductive bell_until :: "instant \<Rightarrow> serving \<Rightarrow> belled \<Rightarrow> bool" for deadline v0 where
  bell_starts: "bell_until deadline v0 \<lparr>bl_serving = v0, bl_waiter = Arrives, bl_letting = {#}\<rparr>"
| bell_on: "bell_until deadline v0 v \<Longrightarrow> bell_step deadline v v' \<Longrightarrow> bell_until deadline v0 v'"

lemma ok_ring [simp]: "slots_ok (ring s) = slots_ok s"
  by (simp add: slots_ok_def in_slot_def ring_def held_in_def)

section \<open>The count never falls, and a lease goes with a ring\<close>

lemma rung_others: "others c s s' \<Longrightarrow> rung s \<le> rung s'"
proof (induction rule: others.induct)
  case (fast_path e s now)
  show ?case by (rule fast.rings)
next
  case (reap_exited s i)
  show ?case using fewer_swept [OF taker_exited, of s "[i]"] by (simp add: only_fewer_def del: swept.simps)
next
  case (reap_idle e s now d)
  show ?case using fewer_swept [OF taker_stale [of now d], of s "[e_id e]"] by (simp add: only_fewer_def del: swept.simps)
next
  case (on_request s i)
  show ?case by (rule letting.rings)
qed simp_all

lemma rung_step: "step c w w' \<Longrightarrow> rung (fst w) \<le> rung (fst w')"
proof (induction rule: step.induct)
  case (asks a now s s')
  then show ?case using fast.rings [of s "a_entry a" now] by simp
next
  case (unloads i s s' a ls gone rest)
  then show ?case using unloading.rings [of s "[i]"] by simp
next
  case (blocked i s s' a ls gone rest)
  then show ?case using unloading.rings [of s "[i]"] by simp
next
  case (loads s new a ls gone)
  show ?case by (auto simp: insert_child_def Let_def split: option.splits)
qed (use rung_others in auto)

lemma rung_clear [simp]: "rung (clear order s) = rung s"
  by (simp add: clear_def Let_def)

lemma leases_others:
  "others c s s' \<Longrightarrow> slots_ok s \<Longrightarrow> ch \<in># leases s \<Longrightarrow> ch \<in># leases s' \<or> rung s < rung s'"
proof (induction rule: others.induct)
  case (fast_path e s now)
  obtain s' r where run: "running e now s = (s', r)" by fastforce
  then have "ch \<in># leases s'" by (cases rule: running_cases) (use fast_path in auto)
  with run show ?case by simp
next
  case (release d s)
  then show ?case by (simp add: lease_drop_def ring_def)
next
  case (stamp s i now)
  then show ?case by (auto simp: touch_def split: option.split)
next
  case (reap_exited s i)
  then show ?case using removed_swept [OF taker_exited, of s "[i]"] by (simp add: removed_from_def)
next
  case (reap_idle e s now d)
  then show ?case using removed_swept [OF taker_stale [of now d], of s "[e_id e]"] by (simp add: removed_from_def)
next
  case (on_request s i)
  then show ?case by (simp add: letting.keeps_leases)
qed simp_all

lemma leases_step:
  "step c w w' \<Longrightarrow> slots_ok (fst w) \<Longrightarrow> ch \<in># leases (fst w) \<Longrightarrow>
    ch \<in># leases (fst w') \<or> rung (fst w) < rung (fst w')"
proof (induction rule: step.induct)
  case (other s s' h)
  then show ?case using leases_others by simp
next
  case (resynced s)
  then show ?case by (simp add: reload.keeps_leases)
next
  case (asks a now s s')
  then show ?case by (elim running_cases) auto
next
  case (unloads i s s' a ls gone rest)
  then show ?case using unloading.keeps_leases [of "[i]" s] by simp
next
  case (blocked i s s' a ls gone rest)
  then show ?case using unloading.keeps_leases [of "[i]" s] by simp
next
  case (loads s new a ls gone)
  then show ?case by (simp add: insert_frames)
qed simp_all

definition lease_or_ring :: "slots \<Rightarrow> slots \<Rightarrow> bool" where
  "lease_or_ring s s' =
     (rung s \<le> rung s' \<and> (\<forall>ch. ch \<in># leases s \<longrightarrow> ch \<in># leases s' \<or> rung s < rung s'))"

lemma lease_or_ring_serves:
  assumes "serves v v'" and "steady (at_work v)"
  shows "lease_or_ring (sv_slots v) (sv_slots v')"
  using assms
proof (induction rule: serves_cases)
  case proceeds
  then show ?case
  proof (induction rule: proceeds.induct)
    case (acts c v s)
    then show ?case using rung_others leases_others by (simp add: lease_or_ring_def steady_def)
  next
    case (admits v c a now s)
    then have "step c (at_work v) (s, Looking a (c_entries c) [])" by (intro admits_step)
    with admits show ?case
      using rung_step [of c "at_work v"] leases_step [of c "at_work v"]
      by (fastforce simp: lease_or_ring_def steady_def)
  next
    case (works v s h)
    then show ?case
      using rung_step [OF works(2)] leases_step [OF works(2)] by (simp add: lease_or_ring_def steady_def)
  next
    case (replaces v c)
    show ?case using reload.rings by (simp add: lease_or_ring_def reload.keeps_leases)
  qed
next
  case (stops order)
  then show ?case by (simp add: lease_or_ring_def)
qed

section \<open>The invariant\<close>

text \<open>
  A child the waiter found busy is read from still, or its reader is between letting it go and
  ringing, or the bell rang since the waiter heard it.
\<close>

fun noted :: "waiter \<Rightarrow> (nat \<times> nat list) option" where
  "noted Arrives = None"
| "noted (Looks heard found) = Some (heard, found)"
| "noted (Waits heard found) = Some (heard, found)"

definition waiter_ok :: "slots \<Rightarrow> nat multiset \<Rightarrow> waiter \<Rightarrow> bool" where
  "waiter_ok s letting w =
     (\<forall>heard found. noted w = Some (heard, found) \<longrightarrow>
        heard \<le> rung s \<and> (\<forall>ch \<in> set found. ch \<in># leases s \<or> ch \<in># letting \<or> heard < rung s))"

definition bell_ok :: "belled \<Rightarrow> bool" where
  "bell_ok v = (steady (at_work (bl_serving v)) \<and> waiter_ok (bl_slots v) (bl_letting v) (bl_waiter v))"

lemma waiter_ok_moves:
  assumes "waiter_ok s letting w" and "rung s \<le> rung s'"
    and "\<And>ch. ch \<in># leases s \<Longrightarrow> ch \<in># leases s' \<or> ch \<in># letting' \<or> rung s < rung s'"
    and "\<And>ch. ch \<in># letting \<Longrightarrow> ch \<in># letting' \<or> rung s < rung s'"
  shows "waiter_ok s' letting' w"
  unfolding waiter_ok_def
proof (intro allI impI conjI ballI)
  fix heard found
  assume w: "noted w = Some (heard, found)"
  with assms(1,2) show "heard \<le> rung s'" unfolding waiter_ok_def by (meson le_trans)
  fix ch
  assume "ch \<in> set found"
  with w assms(1) have "heard \<le> rung s" "ch \<in># leases s \<or> ch \<in># letting \<or> heard < rung s"
    unfolding waiter_ok_def by blast+
  then show "ch \<in># leases s' \<or> ch \<in># letting' \<or> heard < rung s'"
    using assms(2) assms(3,4) [of ch] by (meson le_less_trans less_le_trans)
qed

lemma steady_handle:
  assumes "steady (at_work v)" and "ch \<in># leases (sv_slots v)"
  shows "steady (at_work (v\<lparr>sv_slots := handle_goes ch (sv_slots v)\<rparr>))"
proof -
  have "slots_ok (handle_goes ch (sv_slots v))"
    using ok_lease_drop [of "sv_slots v" ch] assms by (simp add: steady_def lease_drop_parts)
  with assms(1) show ?thesis by (simp add: steady_def handle_goes_def)
qed

lemma bell_ok_step: "bell_step deadline v v' \<Longrightarrow> bell_ok v \<Longrightarrow> bell_ok v'"
proof (induction rule: bell_step.induct)
  case (finds_busy v heard found i x)
  then have "s_child x \<in># leases (bl_slots v)"
    using ok_busy [of "bl_slots v" i x] by (simp add: bell_ok_def steady_def)
  with finds_busy show ?case by (simp add: bell_ok_def waiter_ok_def)
next
  case (lets_go ch v)
  have "waiter_ok (handle_goes ch (bl_slots v)) (add_mset ch (bl_letting v)) (bl_waiter v)"
    by (rule waiter_ok_moves [of "bl_slots v" "bl_letting v"])
      (use lets_go in \<open>auto simp: bell_ok_def handle_goes_def in_diff_count\<close>)
  with lets_go steady_handle show ?case by (simp add: bell_ok_def)
next
  case (rings ch v)
  have "waiter_ok (ring (bl_slots v)) (bl_letting v - {#ch#}) (bl_waiter v)"
    by (rule waiter_ok_moves [of "bl_slots v" "bl_letting v"])
      (use rings in \<open>auto simp: bell_ok_def\<close>)
  moreover have "steady (at_work ((bl_serving v)\<lparr>sv_slots := ring (bl_slots v)\<rparr>))"
    using rings by (simp add: bell_ok_def steady_def)
  ultimately show ?case by (simp add: bell_ok_def)
next
  case (others_act v v')
  have "waiter_ok (sv_slots v') (bl_letting v) (bl_waiter v)"
    by (rule waiter_ok_moves [of "bl_slots v" "bl_letting v"])
      (use others_act lease_or_ring_serves [OF others_act(1)] in \<open>auto simp: bell_ok_def lease_or_ring_def\<close>)
  with others_act steady_serves show ?case by (simp add: bell_ok_def)
qed (simp_all add: bell_ok_def waiter_ok_def)

lemma bell_ok_until: "bell_until deadline v0 v \<Longrightarrow> steady (at_work v0) \<Longrightarrow> bell_ok v"
  by (induction rule: bell_until.induct) (simp add: bell_ok_def waiter_ok_def, blast intro: bell_ok_step)

section \<open>The property\<close>

text \<open>C17: A model let go is never slept through. A waiting request hears the bell's count before
  it looks at the slots, and a reader's handle goes before the bell rings: so, whatever every
  other thread does at any point between these, a request that waits because it found a child
  busy has its wait ended as soon as nobody reads from that child any more and whoever let it go
  has rung; and by then no slot's child that nobody reads counts as busy, so the next look finds
  it free.\<close>

theorem letting_go_ends_the_wait:
  assumes "serves_until c b w v0" and "bell_until deadline v0 v"
    and "bl_waiter v = Waits heard found" and "ch \<in> set found"
    and "ch \<notin># leases (bl_slots v)" and "ch \<notin># bl_letting v"
  shows "wait_ends (rung (bl_slots v)) heard deadline now \<and>
    bell_step deadline v (v\<lparr>bl_waiter := Arrives\<rparr>) \<and>
    (held_in (bl_slots v) i = Some x \<and> s_child x = ch \<longrightarrow> \<not> busy (heap_of (bl_slots v)) ch)"
proof -
  have ok: "bell_ok v" using bell_ok_until [OF assms(2) steady_serves_until [OF assms(1)]] .
  then have ends: "wait_ends (rung (bl_slots v)) heard deadline now" for now
    using assms(3-6) by (fastforce simp: bell_ok_def waiter_ok_def wait_ends_def)
  moreover have "\<not> busy (heap_of (bl_slots v)) ch" if "held_in (bl_slots v) i = Some x" "s_child x = ch"
    using ok_busy [of "bl_slots v" i x] ok that assms(5) by (simp add: bell_ok_def steady_def)
  ultimately show ?thesis using wakes [OF assms(3) ends] by blast
qed

text \<open>The model of the demonstration is found busy, waited for, and let go.\<close>

definition demo_waits :: belled where
  "demo_waits = \<lparr>bl_serving = demo_served, bl_waiter = Waits (rung (sv_slots demo_served)) [7],
     bl_letting = {#}\<rparr>"

definition demo_let_go :: belled where
  "demo_let_go = set_slots (ring (handle_goes 7 (bl_slots demo_waits))) demo_waits"

lemma demo_served_busy:
  "held_in (sv_slots demo_served) ''m'' = Some demo_child"
  "busy (heap_of (sv_slots demo_served)) 7" "leases (sv_slots demo_served) = {#7#}"
proof -
  show held: "held_in (sv_slots demo_served) ''m'' = Some demo_child"
    and lease: "leases (sv_slots demo_served) = {#7#}"
    by (simp_all add: demo_served_def)
  have "slots_ok (sv_slots demo_served)"
    using steady_serves_until [OF demo_serves] by (simp add: steady_def)
  from ok_busy [OF this held] lease show "busy (heap_of (sv_slots demo_served)) 7"
    by (simp add: demo_child_def)
qed

lemma demo_waited: "bell_until 100 demo_served demo_waits"
proof -
  let ?at = "\<lambda>w. \<lparr>bl_serving = demo_served, bl_waiter = w, bl_letting = {#}\<rparr>"
  let ?n = "rung (sv_slots demo_served)"
  have "bell_step 100 (?at Arrives) (?at (Looks ?n []))"
    using hears [of "?at Arrives" 100] by simp
  then have "bell_until 100 demo_served (?at (Looks ?n []))" by (rule bell_on [OF bell_starts])
  moreover have "bell_step 100 (?at (Looks ?n [])) (?at (Looks ?n [7]))"
    using finds_busy [of "?at (Looks ?n [])" ?n "[]" "''m''" demo_child 100] demo_served_busy
    by (simp add: demo_child_def)
  ultimately have "bell_until 100 demo_served (?at (Looks ?n [7]))" by (rule bell_on)
  moreover have "bell_step 100 (?at (Looks ?n [7])) demo_waits"
    using waits [of "?at (Looks ?n [7])" ?n "[7]" 100] by (simp add: demo_waits_def)
  ultimately show ?thesis by (rule bell_on)
qed

lemma demo_goes: "bell_until 100 demo_served demo_let_go"
proof -
  let ?v = "(set_slots (handle_goes 7 (bl_slots demo_waits)) demo_waits)\<lparr>bl_letting := {#7#}\<rparr>"
  have "bell_step 100 demo_waits ?v"
    using lets_go [of 7 demo_waits 100] demo_served_busy by (simp add: demo_waits_def)
  with demo_waited have "bell_until 100 demo_served ?v" by (rule bell_on)
  moreover have "bell_step 100 ?v demo_let_go"
    using rings [of 7 ?v 100] by (simp add: demo_let_go_def demo_waits_def)
  ultimately show ?thesis by (rule bell_on)
qed

theorem letting_go_ends_the_wait_witness:
  "wait_ends (rung (bl_slots demo_let_go)) (rung (sv_slots demo_served)) 100 0 \<and>
   \<not> busy (heap_of (bl_slots demo_let_go)) 7"
proof -
  have "bl_waiter demo_let_go = Waits (rung (sv_slots demo_served)) [7]" "bl_letting demo_let_go = {#}"
    "leases (bl_slots demo_let_go) = {#}" "held_in (bl_slots demo_let_go) ''m'' = Some demo_child"
    using demo_served_busy by (simp_all add: demo_let_go_def demo_waits_def handle_goes_def)
  from letting_go_ends_the_wait [OF demo_serves demo_goes this(1), of 7 0 "''m''" demo_child] this
  show ?thesis by (simp add: demo_child_def)
qed

end
