(* ===== verification/Http_Request.thy ===== *)
theory Http_Request
  imports Slot_Table Utf8
begin

text \<open>
  A request as the router reads it: the causes and refusals of \<open>proxy/refusal.rs\<close>, the
  endpoint a path addresses (\<open>proxy/endpoint.rs\<close>), the head of \<open>proxy/head/parsed.rs\<close> and
  how it is read off a connection within bounds (\<open>proxy/head/read.rs\<close>). A connection is the
  bytes that arrive and how they end: closed, stalled past the deadline, or broken.
\<close>

section \<open>Refusals\<close>

datatype cause =
    MalformedRequest | HeadTooLarge | RequestTimeout | PathNotFound | ModelNotFound
  | MethodNotAllowed string | ChunkedBody | MalformedLength | UnknownRoom | LengthRequired
  | BodyTooLarge | BodyIncomplete | BodyNotJson | ModelMissing | ChildUnavailable
  | StartupTimeout | RoomContended | NoRoom | ModelBusy | CatalogUnreadable
  | Unauthorized | OriginNotAllowed

fun describe :: "cause \<Rightarrow> nat \<times> string" where
  "describe MalformedRequest = (400, ''malformed_request'')"
| "describe HeadTooLarge = (431, ''request_head_too_large'')"
| "describe RequestTimeout = (408, ''request_timeout'')"
| "describe PathNotFound = (404, ''path_not_found'')"
| "describe ModelNotFound = (404, ''model_not_found'')"
| "describe (MethodNotAllowed _) = (405, ''method_not_allowed'')"
| "describe ChunkedBody = (501, ''chunked_body_not_implemented'')"
| "describe MalformedLength = (400, ''malformed_content_length'')"
| "describe UnknownRoom = (400, ''unknown_room'')"
| "describe LengthRequired = (411, ''content_length_required'')"
| "describe BodyTooLarge = (413, ''body_too_large'')"
| "describe BodyIncomplete = (400, ''body_incomplete'')"
| "describe BodyNotJson = (400, ''body_not_json'')"
| "describe ModelMissing = (400, ''model_missing'')"
| "describe ChildUnavailable = (502, ''child_unavailable'')"
| "describe StartupTimeout = (504, ''startup_timeout'')"
| "describe RoomContended = (503, ''room_contended'')"
| "describe NoRoom = (503, ''insufficient_room'')"
| "describe ModelBusy = (409, ''model_busy'')"
| "describe CatalogUnreadable = (400, ''catalog_unreadable'')"
| "describe Unauthorized = (401, ''invalid_api_key'')"
| "describe OriginNotAllowed = (403, ''origin_not_allowed'')"

definition status_of :: "cause \<Rightarrow> nat" where
  "status_of c = fst (describe c)"

definition code_of :: "cause \<Rightarrow> string" where
  "code_of c = snd (describe c)"

definition retry_after_seconds :: "cause \<Rightarrow> nat option" where
  "retry_after_seconds c = (if c = RoomContended then Some 1 else None)"

definition family :: "cause \<Rightarrow> string" where
  "family c = (if status_of c < 500 then ''invalid_request_error'' else ''server_error'')"

record request_refusal =
  rf_cause :: cause
  rf_message :: string

definition refusal_new :: "cause \<Rightarrow> string \<Rightarrow> request_refusal" where
  "refusal_new c m = \<lparr>rf_cause = c, rf_message = m\<rparr>"

definition refusal_from :: "failure \<Rightarrow> request_refusal" where
  "refusal_from f =
     refusal_new
       (case f of NotReady _ \<Rightarrow> StartupTimeout | Unavailable _ \<Rightarrow> ChildUnavailable
        | Contended _ \<Rightarrow> RoomContended | Refused _ \<Rightarrow> NoRoom)
       (failure_text f)"

section \<open>Endpoints\<close>

datatype endpoint =
    Dedicated string string
  | Generic string
  | Listing | Catalogue | Properties | Metrics | Reload | Load | UnloadModel

definition trim_slashes :: "string \<Rightarrow> string" where
  "trim_slashes s = rev (dropWhile (\<lambda>c. c = CHR ''/'') (rev s))"

definition dedicated_text :: "string \<Rightarrow> string" where
  "dedicated_text path = quoted path
     @ '' names a model with nothing after it: the shape is /models/<model>/<path>''"

definition endpoint_of :: "string \<Rightarrow> request_refusal + endpoint" where
  "endpoint_of path =
     (let bare = trim_slashes path in
      if bare = ''/models'' then Inr Catalogue
      else if bare = ''/props'' then Inr Properties
      else if bare = ''/metrics'' then Inr Metrics
      else if bare = ''/reload'' then Inr Reload
      else if bare = ''/models/load'' then Inr Load
      else if bare = ''/models/unload'' then Inr UnloadModel
      else
        (case strip_prefix ''/models/'' path of
           Some rest \<Rightarrow>
             (case split_once (CHR ''/'') rest of
                Some (i, suffix) \<Rightarrow>
                  (if i \<noteq> [] \<and> suffix \<noteq> [] then Inr (Dedicated i (''/'' @ suffix))
                   else Inl (refusal_new PathNotFound (dedicated_text path)))
              | None \<Rightarrow> Inl (refusal_new PathNotFound (dedicated_text path)))
         | None \<Rightarrow>
             (if trim_slashes (hd (split_on (CHR ''?'') path)) = ''/v1/models'' then Inr Listing
              else if starts_with ''/v1/'' path then Inr (Generic path)
              else Inl (refusal_new PathNotFound (quoted path
                @ '' is not a path this router serves: the shapes are ''
                @ ''/models/<model>/<path> and /v1/<path>'')))))"

fun allowed :: "endpoint \<Rightarrow> string" where
  "allowed (Dedicated _ _) = ''GET, POST, OPTIONS''"
| "allowed (Generic _) = ''GET, POST, OPTIONS''"
| "allowed Listing = ''GET, HEAD, OPTIONS''"
| "allowed Catalogue = ''GET, HEAD, OPTIONS''"
| "allowed Properties = ''GET, HEAD, OPTIONS''"
| "allowed Metrics = ''GET, HEAD, OPTIONS''"
| "allowed Reload = ''POST, OPTIONS''"
| "allowed Load = ''POST, OPTIONS''"
| "allowed UnloadModel = ''POST, OPTIONS''"

text \<open>\<open>str::split\<close> on the two bytes of a comma and a space.\<close>

fun split_comma_space :: "string \<Rightarrow> string list" where
  "split_comma_space [] = [[]]"
| "split_comma_space (x # xs) =
     (case xs of
        y # ys \<Rightarrow>
          (if x = CHR '','' \<and> y = CHR '' '' then [] # split_comma_space ys
           else (case split_comma_space xs of
                   [] \<Rightarrow> [[x]] | w # ws \<Rightarrow> (x # w) # ws))
      | [] \<Rightarrow> [[x]])"

definition allows :: "endpoint \<Rightarrow> string \<Rightarrow> bool" where
  "allows e m = (m \<in> set (split_comma_space (allowed e)))"

fun suffix_of :: "endpoint \<Rightarrow> string" where
  "suffix_of (Dedicated _ suffix) = suffix"
| "suffix_of (Generic suffix) = suffix"
| "suffix_of Listing = ''/v1/models''"
| "suffix_of Catalogue = ''/models''"
| "suffix_of Properties = ''/props''"
| "suffix_of Metrics = ''/metrics''"
| "suffix_of Reload = ''/reload''"
| "suffix_of Load = ''/models/load''"
| "suffix_of UnloadModel = ''/models/unload''"

section \<open>The head\<close>

datatype length_header = Absent | Given nat | Malformed string

definition ROOM_HEADER :: string where
  "ROOM_HEADER = ''X-Model-Router-Room''"

record head =
  h_method :: string
  h_endpoint :: endpoint
  h_headers :: "(string \<times> string) list"
  h_length :: length_header
  h_chunked :: bool
  h_expects_continue :: bool
  h_room :: "request_refusal + allowed_room"

definition allowed_room_of :: "string \<Rightarrow> request_refusal + allowed_room" where
  "allowed_room_of v =
     (if v = ''free'' then Inr Free
      else Inl (refusal_new UnknownRoom
        (quoted (ROOM_HEADER @ '': '' @ v) @ '' is not a room this router knows: send ''
          @ quoted (ROOM_HEADER @ '': free'') @ '' to load a model only into room nothing holds, or ''
          @ ''no such header to let an idle model be unloaded to make room'')))"

text \<open>What one header line adds; a line without a colon is skipped.\<close>

definition header_step :: "head \<Rightarrow> string \<Rightarrow> head" where
  "header_step h text =
     (case split_once (CHR '':'') text of
        None \<Rightarrow> h
      | Some (n, v) \<Rightarrow>
          (let name = trim n; val = trim v in
           h\<lparr>h_length := (if eq_ignore_case name ''content-length''
                 then (case parse_unsigned (2 ^ 64) val of
                         None \<Rightarrow> Malformed val | Some k \<Rightarrow> Given k)
                 else h_length h),
             h_chunked := (h_chunked h \<or> (eq_ignore_case name ''transfer-encoding'' \<and>
                 contains_text ''chunked'' (ascii_lower val))),
             h_expects_continue := (h_expects_continue h \<or> (eq_ignore_case name ''expect'' \<and>
                 eq_ignore_case val ''100-continue'')),
             h_room := (if eq_ignore_case name ROOM_HEADER
                 then (case h_room h of Inl r \<Rightarrow> Inl r | Inr _ \<Rightarrow> allowed_room_of val)
                 else h_room h),
             h_headers := h_headers h @ [(name, val)]\<rparr>))"

definition head_parse :: "string list \<Rightarrow> request_refusal + head" where
  "head_parse lines =
     (case lines of
        [] \<Rightarrow> Inl (refusal_new MalformedRequest ''a request with no request line'')
      | first # rest \<Rightarrow>
          (case split_whitespace first of
             [] \<Rightarrow> Inl (refusal_new MalformedRequest ''a request line with no method'')
           | [_] \<Rightarrow> Inl (refusal_new MalformedRequest ''a request line with no path'')
           | method # path # _ \<Rightarrow>
               (case endpoint_of path of
                  Inl r \<Rightarrow> Inl r
                | Inr e \<Rightarrow>
                    Inr (foldl header_step
                      \<lparr>h_method = method, h_endpoint = e, h_headers = [], h_length = Absent,
                       h_chunked = False, h_expects_continue = False, h_room = Inr Any\<rparr> rest))))"

definition body_bytes :: "head \<Rightarrow> nat" where
  "body_bytes h = (case h_length h of Given n \<Rightarrow> n | _ \<Rightarrow> 0)"

definition answered_header :: "string \<Rightarrow> bool" where
  "answered_header name =
     (eq_ignore_case name ''host'' \<or> eq_ignore_case name ''connection'' \<or>
      eq_ignore_case name ''expect'')"

definition rewrite :: "head \<Rightarrow> string \<Rightarrow> string" where
  "rewrite h upstream =
     h_method h @ '' '' @ suffix_of (h_endpoint h) @ '' HTTP/1.1'' @ crlf
     @ ''Host: '' @ upstream @ crlf @ ''Connection: close'' @ crlf
     @ concat (map (\<lambda>(name, val). if answered_header name then []
                    else name @ '': '' @ val @ crlf) (h_headers h))
     @ crlf"

section \<open>Reading it\<close>

datatype stream_end = Closed | Stalled | Broken string

record input =
  i_bytes :: string
  i_end :: stream_end

definition MAX_HEAD_BYTES :: nat where "MAX_HEAD_BYTES = 64 * 1024"
definition MAX_HEADERS :: nat where "MAX_HEADERS = 100"

text \<open>
  \<open>take(n).read_line\<close>: up to and including a line feed, never more than \<open>n\<close> bytes, or what
  there is when the peer closed; a peer that stalls or breaks first is an error, and so is
  text that is not UTF-8.
\<close>

datatype read_error = TimedOut | NotText | OtherError string

definition read_line :: "nat \<Rightarrow> input \<Rightarrow> (read_error + string) \<times> input" where
  "read_line n inp =
     (let got = until_newline (take n (i_bytes inp));
          rest = inp\<lparr>i_bytes := drop (length got) (i_bytes inp)\<rparr> in
      if length got < n \<and> (got = [] \<or> last got \<noteq> CHR 0x0A) \<and> i_end inp \<noteq> Closed then
        (Inl (case i_end inp of Stalled \<Rightarrow> TimedOut | Broken e \<Rightarrow> OtherError e | Closed \<Rightarrow> TimedOut),
         rest)
      else if \<not> utf8_valid got then (Inl NotText, rest)
      else (Inr got, rest))"

definition unread :: "cause \<Rightarrow> string \<Rightarrow> request_refusal" where
  "unread c reason = refusal_new c (''the request head is '' @ reason)"

text \<open>\<open>err\<close> is the text of an I/O error as it is printed.\<close>

function head_read_loop ::
    "(read_error \<Rightarrow> string) \<Rightarrow> string list \<Rightarrow> nat \<Rightarrow> input \<Rightarrow> (request_refusal + string list) \<times> input" where
  "head_read_loop err lines seen inp =
     (if MAX_HEAD_BYTES \<le> seen then
        (Inl (unread HeadTooLarge (''longer than '' @ dec MAX_HEAD_BYTES @ '' bytes'')), inp)
      else
        (case read_line (MAX_HEAD_BYTES - seen) inp of
           (Inl e, inp') \<Rightarrow>
             (Inl (unread (if e = TimedOut then RequestTimeout else MalformedRequest)
                (''unreadable: '' @ err e)), inp')
         | (Inr got, inp') \<Rightarrow>
             (if got = [] then (Inl (unread MalformedRequest ''ended before its blank line''), inp')
              else
                (let trimmed = drop_line_end got in
                 if trimmed = [] then (Inr lines, inp')
                 else if MAX_HEADERS \<le> length lines then
                   (Inl (unread HeadTooLarge (''more than '' @ dec MAX_HEADERS @ '' lines'')), inp')
                 else head_read_loop err (lines @ [trimmed]) (seen + length got) inp'))))"
  by pat_completeness auto
termination
  by (relation "measure (\<lambda>(err, lines, seen, inp). MAX_HEAD_BYTES - seen)")
    (auto intro!: diff_less_mono2)

declare head_read_loop.simps [simp del]

definition head_read :: "(read_error \<Rightarrow> string) \<Rightarrow> input \<Rightarrow> (request_refusal + string list) \<times> input" where
  "head_read err inp = head_read_loop err [] 0 inp"

end
