(* ===== verification/Http_Relay.thy ===== *)
theory Http_Relay
  imports Http_Request
begin

text \<open>
  The body, read for the model it names (\<open>proxy/body.rs\<close>) or forwarded as it is, and the copy
  of the response between the child and the caller (\<open>proxy/relay.rs\<close>). A read hands over some
  of what has arrived: how much is chosen by an argument, one number for each read. The two
  threads of a relay and how they end each other are in \<open>Relay_Threads\<close>.
\<close>

section \<open>A body the router reads\<close>

definition MAX_BODY_BYTES :: nat where "MAX_BODY_BYTES = 8 * 1024 * 1024"

text \<open>\<open>read_exact\<close> on a connection: all of it, or why it ended first.\<close>

definition take_exact :: "nat \<Rightarrow> input \<Rightarrow> (read_error + string) \<times> input" where
  "take_exact n inp =
     (if n \<le> length (i_bytes inp) then
        (Inr (take n (i_bytes inp)), inp\<lparr>i_bytes := drop n (i_bytes inp)\<rparr>)
      else
        (Inl (case i_end inp of
            Closed \<Rightarrow> OtherError ''failed to fill whole buffer''
          | Stalled \<Rightarrow> TimedOut
          | Broken e \<Rightarrow> OtherError e), inp\<lparr>i_bytes := []\<rparr>))"

text \<open>
  \<open>model_of\<close> is the JSON library reading a text: why it is no JSON, or the string its top-level
  \<open>model\<close> holds when it holds one.
\<close>

definition missing_model_text :: string where
  "missing_model_text =
     ''the generic endpoint routes on the '' @ quoted ''model'' @ '' field of the request body, ''
       @ ''and this request carries none; name a model there, or address a model directly at ''
       @ ''/models/<model>/<path>''"

definition body_read ::
    "(read_error \<Rightarrow> string) \<Rightarrow> (string \<Rightarrow> string + string option) \<Rightarrow> nat \<Rightarrow> input \<Rightarrow>
     (request_refusal + string \<times> string) \<times> input" where
  "body_read err model_of n inp =
     (case take_exact n inp of
        (Inl e, rest) \<Rightarrow>
          (Inl (refusal_new (if e = TimedOut then RequestTimeout else BodyIncomplete)
             (''a request body declaring '' @ dec n @ '' bytes ended early: '' @ err e)), rest)
      | (Inr bytes, rest) \<Rightarrow>
          (case model_of bytes of
             Inl e \<Rightarrow> (Inl (refusal_new BodyNotJson (''a request body that is not JSON: '' @ e)), rest)
           | Inr None \<Rightarrow> (Inl (refusal_new ModelMissing missing_model_text), rest)
           | Inr (Some model) \<Rightarrow> (Inr (bytes, model), rest)))"

section \<open>A body that is forwarded\<close>

definition BUFFER :: nat where "BUFFER = 8 * 1024"

text \<open>One read of at most \<open>want\<close> bytes, as large as the choice allows: none only at the end.\<close>

definition read_some :: "nat \<Rightarrow> nat \<Rightarrow> input \<Rightarrow> (read_error + string) \<times> input" where
  "read_some choice want inp =
     (if i_bytes inp = [] then
        ((case i_end inp of Closed \<Rightarrow> Inr [] | Stalled \<Rightarrow> Inl TimedOut | Broken e \<Rightarrow> Inl (OtherError e)),
         inp)
      else
        (let k = min (max 1 choice) want in
         (Inr (take k (i_bytes inp)), inp\<lparr>i_bytes := drop k (i_bytes inp)\<rparr>)))"

text \<open>
  The connection to the child: one that cannot be made, one that breaks once the child took so
  many bytes, or one that takes all it is sent. A write of everything writes what is taken and
  fails when that is not all.
\<close>

datatype upstream = Refuses | BreaksAfter nat | TakesAll

definition up_write :: "upstream \<Rightarrow> string \<Rightarrow> string \<Rightarrow> bool \<times> string" where
  "up_write up sent bytes =
     (case up of
        TakesAll \<Rightarrow> (True, sent @ bytes)
      | BreaksAfter n \<Rightarrow>
          if length sent + length bytes \<le> n then (True, sent @ bytes)
          else (False, take n (sent @ bytes))
      | Refuses \<Rightarrow> (False, sent))"

datatype forward_error = ReadFailed read_error | WriteFailed

text \<open>Each read is written before the next: an error of either ends the forwarding.\<close>

function forward_loop ::
    "upstream \<Rightarrow> (nat \<Rightarrow> nat) \<Rightarrow> nat \<Rightarrow> nat \<Rightarrow> string \<Rightarrow> input \<Rightarrow>
     (forward_error option \<times> string) \<times> input" where
  "forward_loop up chunk k remaining sent inp =
     (if remaining = 0 then ((None, sent), inp)
      else
        (case read_some (chunk k) (min remaining BUFFER) inp of
           (Inl e, rest) \<Rightarrow> ((Some (ReadFailed e), sent), rest)
         | (Inr bytes, rest) \<Rightarrow>
             (if bytes = [] then ((None, sent), rest)
              else
                (case up_write up sent bytes of
                   (False, sent') \<Rightarrow> ((Some WriteFailed, sent'), rest)
                 | (True, sent') \<Rightarrow>
                     forward_loop up chunk (Suc k) (remaining - length bytes) sent' rest))))"
  by pat_completeness auto
termination
  by (relation "measure (\<lambda>(up, chunk, k, remaining, sent, inp). remaining)") auto

declare forward_loop.simps [simp del]

text \<open>\<open>sent\<close> is what the child has been sent before the body.\<close>

definition forward_body ::
    "upstream \<Rightarrow> (nat \<Rightarrow> nat) \<Rightarrow> head \<Rightarrow> string \<Rightarrow> input \<Rightarrow> (forward_error option \<times> string) \<times> input" where
  "forward_body up chunk h sent inp = forward_loop up chunk 0 (body_bytes h) sent inp"

section \<open>The response\<close>

text \<open>What the child's side hands over, read by read, until it ends or breaks.\<close>

text \<open>Each read is written before the next; the first write that fails ends the copy.\<close>

fun relay_response :: "string list \<Rightarrow> bool list \<Rightarrow> string list" where
  "relay_response [] oks = []"
| "relay_response (r # rs) oks =
     (if r = [] then []
      else
        (case oks of
           [] \<Rightarrow> []
         | ok # oks' \<Rightarrow> if ok then r # relay_response rs oks' else []))"

text \<open>
  What the child is sent: the rewritten head and then the body, read already or forwarded now.
  A child that cannot be reached is sent nothing, and once a write fails nothing more is read of
  the body or written.
\<close>

definition relay_request ::
    "upstream \<Rightarrow> (nat \<Rightarrow> nat) \<Rightarrow> head \<Rightarrow> string \<Rightarrow> string option \<Rightarrow> input \<Rightarrow>
     (bool \<times> string) \<times> input" where
  "relay_request up chunk h endpoint body inp =
     (if up = Refuses then ((False, []), inp)
      else
        (case up_write up [] (rewrite h endpoint) of
           (False, sent) \<Rightarrow> ((False, sent), inp)
         | (True, sent) \<Rightarrow>
             (case body of
                Some bytes \<Rightarrow> (up_write up sent bytes, inp)
              | None \<Rightarrow>
                  (case forward_body up chunk h sent inp of
                     ((e, sent'), rest) \<Rightarrow> ((e = None, sent'), rest)))))"

end
