(* ===== verification/Relay_Threads.thy ===== *)
theory Relay_Threads
  imports Http_Relay "HOL-Library.Sublist"
begin

text \<open>
  The two threads of a relay (\<open>copy_response\<close> of \<open>proxy/relay.rs\<close>): one copies what the child
  says to the caller, the other watches the caller and closes the child's side when the caller
  leaves. They share a flag and the two connections. A step is one read, one write, one look at
  the flag or one shutdown; the child and the caller act in between. \<open>relay_step\<close> computes what
  an event leaves, and nothing when the event cannot happen there.
\<close>

section \<open>State\<close>

text \<open>
  Where the copy is: in its loop, about to read, in a read or with bytes to write; out of it; with
  the flag lowered; with the caller's reading half shut, when the scope waits for the watch.
\<close>

datatype copying = Reading | Awaiting | Writing string | Returned | Lowered | Copied

text \<open>
  Where the watch is: about to look at the flag, about to read a byte, out of its loop and about
  to look once more, or over -- which it is from the start when no read timeout could be set.
\<close>

datatype watching = Looking_up | Listening | Leaving | Over

datatype child_end = Speaking | Hung_up | Lost

text \<open>
  \<open>r_wakes\<close> is the platform's: whether a shutdown wakes a read blocked on the connection, as on
  Linux and macOS and not on Windows. \<open>r_asleep\<close> is a read that a shutdown did not wake.
\<close>

record relay =
  r_said :: string
  r_arrived :: string
  r_child :: child_end
  r_shut :: bool
  r_given :: string
  r_reads :: "string list"
  r_wrote :: "bool list"
  r_extra :: nat
  r_gone :: bool
  r_caller_shut :: bool
  r_relaying :: bool
  r_copy :: copying
  r_watch :: watching
  r_wakes :: bool
  r_asleep :: bool

definition relay_start :: "bool \<Rightarrow> bool \<Rightarrow> relay" where
  "relay_start wakes timeout_set =
     \<lparr>r_said = [], r_arrived = [], r_child = Speaking, r_shut = False, r_given = [], r_reads = [],
      r_wrote = [], r_extra = 0, r_gone = False, r_caller_shut = False, r_relaying = True,
      r_copy = Reading, r_watch = (if timeout_set then Looking_up else Over),
      r_wakes = wakes, r_asleep = False\<rparr>"

section \<open>Steps\<close>

datatype heard = HeardEnd | HeardByte | HeardNothing | HeardError

datatype outside_event = ChildSays string | ChildHangsUp | ChildLost | CallerSays | CallerLeaves

datatype copy_event = Begins | Reads nat | ReadEnds | Writes | WriteFails nat | Lowers | ShutsCaller

datatype watch_event = LooksUp | Hears heard | Decides

datatype relay_event = Outside outside_event | Copy copy_event | Watch watch_event

text \<open>
  The child and the caller. A caller that leaves closed its end or its connection broke; what it
  sent after its request may still be unread.
\<close>

fun outside_step :: "outside_event \<Rightarrow> relay \<Rightarrow> relay option" where
  "outside_step (ChildSays bs) r =
     (if r_child r = Speaking
      then Some (r\<lparr>r_said := r_said r @ bs, r_arrived := r_arrived r @ bs\<rparr>) else None)"
| "outside_step ChildHangsUp r =
     (if r_child r = Speaking then Some (r\<lparr>r_child := Hung_up\<rparr>) else None)"
| "outside_step ChildLost r = Some (r\<lparr>r_child := Lost\<rparr>)"
| "outside_step CallerSays r = (if r_gone r then None else Some (r\<lparr>r_extra := r_extra r + 1\<rparr>))"
| "outside_step CallerLeaves r = Some (r\<lparr>r_gone := True\<rparr>)"

text \<open>
  The copy: a read hands over at most the buffer; it ends when the child's side ended and nothing
  is left of what it said, when the connection broke, or when that side was shut down, unless the
  read was under way by then and the platform did not wake it. A write may fail at any time, with
  some of the bytes across.
\<close>

fun copy_step :: "copy_event \<Rightarrow> relay \<Rightarrow> relay option" where
  "copy_step Begins r =
     (if r_copy r = Reading then Some (r\<lparr>r_copy := Awaiting, r_asleep := False\<rparr>) else None)"
| "copy_step (Reads n) r =
     (if r_copy r = Awaiting \<and> r_arrived r \<noteq> [] then
        (let bytes = take (min (max 1 n) BUFFER) (r_arrived r) in
         Some (r\<lparr>r_copy := Writing bytes, r_reads := r_reads r @ [bytes],
                 r_arrived := drop (length bytes) (r_arrived r)\<rparr>))
      else None)"
| "copy_step ReadEnds r =
     (if r_copy r = Awaiting \<and>
         (r_child r = Lost \<or> r_shut r \<and> \<not> r_asleep r \<or> r_child r = Hung_up \<and> r_arrived r = [])
      then Some (r\<lparr>r_copy := Returned\<rparr>) else None)"
| "copy_step Writes r =
     (case r_copy r of
        Writing bytes \<Rightarrow>
          Some (r\<lparr>r_copy := Reading, r_given := r_given r @ bytes, r_wrote := r_wrote r @ [True]\<rparr>)
      | _ \<Rightarrow> None)"
| "copy_step (WriteFails n) r =
     (case r_copy r of
        Writing bytes \<Rightarrow>
          Some (r\<lparr>r_copy := Returned, r_given := r_given r @ take n bytes,
                  r_wrote := r_wrote r @ [False]\<rparr>)
      | _ \<Rightarrow> None)"
| "copy_step Lowers r =
     (if r_copy r = Returned then Some (r\<lparr>r_copy := Lowered, r_relaying := False\<rparr>) else None)"
| "copy_step ShutsCaller r =
     (if r_copy r = Lowered then Some (r\<lparr>r_copy := Copied, r_caller_shut := True\<rparr>) else None)"

text \<open>
  The watch: a read of a byte ends when the caller left and none of its bytes is unread, or when
  the copy shut the caller's reading half; otherwise it hears a byte, or nothing in its time.
\<close>

fun watch_step :: "watch_event \<Rightarrow> relay \<Rightarrow> relay option" where
  "watch_step LooksUp r =
     (if r_watch r = Looking_up
      then Some (r\<lparr>r_watch := (if r_relaying r then Listening else Leaving)\<rparr>) else None)"
| "watch_step (Hears h) r =
     (if r_watch r \<noteq> Listening then None
      else
        (case h of
           HeardEnd \<Rightarrow>
             if r_gone r \<and> r_extra r = 0 \<or> r_caller_shut r then Some (r\<lparr>r_watch := Leaving\<rparr>) else None
         | HeardError \<Rightarrow>
             if r_gone r \<or> r_caller_shut r then Some (r\<lparr>r_watch := Leaving\<rparr>) else None
         | HeardByte \<Rightarrow>
             if r_extra r > 0 then Some (r\<lparr>r_watch := Looking_up, r_extra := r_extra r - 1\<rparr>) else None
         | HeardNothing \<Rightarrow> Some (r\<lparr>r_watch := Looking_up\<rparr>)))"
| "watch_step Decides r =
     (if r_watch r = Leaving
      then Some (r\<lparr>r_watch := Over, r_shut := (r_shut r \<or> r_relaying r),
                   r_asleep := (r_asleep r \<or> r_relaying r \<and> r_copy r = Awaiting \<and> \<not> r_wakes r)\<rparr>)
      else None)"

fun relay_step :: "relay_event \<Rightarrow> relay \<Rightarrow> relay option" where
  "relay_step (Outside e) r = outside_step e r"
| "relay_step (Copy e) r = copy_step e r"
| "relay_step (Watch e) r = watch_step e r"

fun relay_run :: "relay_event list \<Rightarrow> relay \<Rightarrow> relay option" where
  "relay_run [] r = Some r"
| "relay_run (e # es) r = (case relay_step e r of None \<Rightarrow> None | Some r' \<Rightarrow> relay_run es r')"

text \<open>What every step of a kind keeps, a run of such steps keeps.\<close>

lemma relay_run_keeps:
  assumes "relay_run es r = Some r'" and "P r"
    and "\<And>e s t. e \<in> set es \<Longrightarrow> relay_step e s = Some t \<Longrightarrow> P s \<Longrightarrow> P t"
  shows "P r'"
  using assms
proof (induction es arbitrary: r)
  case Nil
  then show ?case by simp
next
  case (Cons e es)
  then obtain r1 where r1: "relay_step e r = Some r1" "relay_run es r1 = Some r'"
    by (auto split: option.splits)
  have "P r1" using Cons.prems(3) [OF _ r1(1) Cons.prems(2)] by simp
  with r1(2) show ?case using Cons.IH Cons.prems(3) by (meson list.set_intros(2))
qed

text \<open>What a step of each kind leaves as it is.\<close>

lemma outside_frames:
  assumes "outside_step e r = Some r'"
  shows "r_watch r' = r_watch r \<and> r_copy r' = r_copy r \<and> r_shut r' = r_shut r \<and>
     r_relaying r' = r_relaying r \<and> r_caller_shut r' = r_caller_shut r \<and>
     (r_gone r \<longrightarrow> r_gone r' \<and> r_extra r' = r_extra r)" (is "?P r'")
proof -
  have "pred_option ?P (outside_step e r)" by (cases e) simp_all
  with assms show ?thesis by simp
qed

lemma copy_frames:
  assumes "copy_step e r = Some r'"
  shows "r_watch r' = r_watch r \<and> r_gone r' = r_gone r \<and> r_shut r' = r_shut r \<and>
     r_extra r' = r_extra r \<and> (r_relaying r' \<longrightarrow> r_relaying r)" (is "?P r'")
proof -
  have "pred_option ?P (copy_step e r)" by (cases e) (simp_all add: Let_def split: copying.split)
  with assms show ?thesis by simp
qed

lemma watch_frames:
  assumes "watch_step e r = Some r'"
  shows "r_said r' = r_said r \<and> r_arrived r' = r_arrived r \<and> r_child r' = r_child r \<and>
     r_given r' = r_given r \<and> r_reads r' = r_reads r \<and> r_wrote r' = r_wrote r \<and>
     r_gone r' = r_gone r \<and> r_caller_shut r' = r_caller_shut r \<and> r_relaying r' = r_relaying r \<and>
     r_copy r' = r_copy r \<and> (r_shut r \<longrightarrow> r_shut r')" (is "?P r'")
proof -
  have "pred_option ?P (watch_step e r)" by (cases e) (simp_all split: heard.split)
  with assms show ?thesis by simp
qed

section \<open>What the copy gives the caller\<close>

text \<open>
  Everything read was written whole, but the read being written; what was given and what was
  read and not written, and what arrived and was not read, is what the child said.
\<close>

definition whole :: "string list \<Rightarrow> string \<Rightarrow> bool list \<Rightarrow> bool" where
  "whole reads given wrote = (given = concat reads \<and> wrote = replicate (length reads) True)"

definition cut_short :: "string list \<Rightarrow> string \<Rightarrow> bool list \<Rightarrow> bool" where
  "cut_short reads given wrote =
     (\<exists>rs bytes n. reads = rs @ [bytes] \<and> given = concat rs @ take n bytes \<and>
        wrote = replicate (length rs) True @ [False])"

definition copied_ok_between :: "relay \<Rightarrow> bool" where
  "copied_ok_between r =
     (r_said r = r_given r @ r_arrived r \<and> whole (r_reads r) (r_given r) (r_wrote r))"

fun copied_ok :: "copying \<Rightarrow> relay \<Rightarrow> bool" where
  "copied_ok Reading r = copied_ok_between r"
| "copied_ok Awaiting r = copied_ok_between r"
| "copied_ok (Writing bytes) r =
     (r_said r = r_given r @ bytes @ r_arrived r \<and>
      (\<exists>rs. r_reads r = rs @ [bytes] \<and> whole rs (r_given r) (r_wrote r)))"
| "copied_ok _ r =
     (prefix (r_given r) (r_said r) \<and>
      (whole (r_reads r) (r_given r) (r_wrote r) \<and>
         (r_child r = Lost \<or> r_shut r \<or> (r_child r = Hung_up \<and> r_said r = r_given r)) \<or>
       cut_short (r_reads r) (r_given r) (r_wrote r)))"

declare copied_ok_between_def [simp]

definition copy_ok :: "relay \<Rightarrow> bool" where
  "copy_ok r = ([] \<notin> set (r_reads r) \<and> copied_ok (r_copy r) r)"

lemma copy_ok_outside:
  assumes "outside_step e r = Some r'" and "copy_ok r"
  shows "copy_ok r'"
proof -
  have "pred_option copy_ok (outside_step e r)"
    using assms(2) by (cases e; cases "r_copy r") (simp_all add: copy_ok_def, auto)
  with assms(1) show ?thesis by simp
qed

lemma copy_ok_watch: "watch_step e r = Some r' \<Longrightarrow> copy_ok r \<Longrightarrow> copy_ok r'"
  using watch_frames [of e r r'] by (cases "r_copy r") (auto simp: copy_ok_def)

lemma whole_append: "whole reads given wrote \<Longrightarrow> whole (reads @ [bytes]) (given @ bytes) (wrote @ [True])"
  by (simp add: whole_def replicate_append_same)

lemma whole_cut:
  "whole reads given wrote \<Longrightarrow> cut_short (reads @ [bytes]) (given @ take n bytes) (wrote @ [False])"
  unfolding whole_def cut_short_def by (intro exI [of _ reads] exI [of _ bytes] exI [of _ n]) simp

lemma copy_ok_copy:
  assumes "copy_step e r = Some r'" and "copy_ok r"
  shows "copy_ok r'"
proof (cases e)
  case Begins
  then show ?thesis using assms by (auto simp: copy_ok_def split: if_splits)
next
  case (Reads n)
  define m where "m = min (max 1 n) BUFFER"
  have m: "0 < m" by (simp add: m_def BUFFER_def)
  have cut: "take m bs @ drop (length (take m bs)) bs = bs" for bs :: string
    by (cases "m \<le> length bs") (auto simp: min_def)
  have "r_copy r = Awaiting" "r_arrived r \<noteq> []"
      "r' = r\<lparr>r_copy := Writing (take m (r_arrived r)), r_reads := r_reads r @ [take m (r_arrived r)],
              r_arrived := drop (length (take m (r_arrived r))) (r_arrived r)\<rparr>"
    using assms(1) Reads by (auto simp: m_def Let_def split: if_splits)
  then show ?thesis using assms(2) m cut [of "r_arrived r"] by (auto simp: copy_ok_def)
next
  case ReadEnds
  then show ?thesis using assms by (auto simp: copy_ok_def split: if_splits)
next
  case Writes
  then show ?thesis using assms by (auto simp: copy_ok_def whole_append split: copying.splits)
next
  case (WriteFails n)
  have "prefix (given @ take n bytes) (given @ bytes @ rest)" for given bytes rest :: string
    by (simp add: take_is_prefix prefix_append [THEN iffD2] prefix_prefix)
  then show ?thesis
    using assms WriteFails by (auto simp: copy_ok_def whole_cut split: copying.splits)
next
  case Lowers
  then show ?thesis using assms by (auto simp: copy_ok_def split: if_splits)
next
  case ShutsCaller
  then show ?thesis using assms by (auto simp: copy_ok_def split: if_splits)
qed

section \<open>What the watch does\<close>

text \<open>The flag is lowered once the copy is over, and only then is the caller's half shut.\<close>

definition flags_ok :: "relay \<Rightarrow> bool" where
  "flags_ok r =
     (r_relaying r = (r_copy r \<noteq> Lowered \<and> r_copy r \<noteq> Copied) \<and>
      r_caller_shut r = (r_copy r = Copied))"

text \<open>The watch leaves its loop while the flag is up only when the caller left.\<close>

fun watching_ok :: "bool \<Rightarrow> watching \<Rightarrow> relay \<Rightarrow> bool" where
  "watching_ok w Leaving r = (w \<and> (r_relaying r \<longrightarrow> r_gone r))"
| "watching_ok w Over r = (w \<and> r_relaying r \<longrightarrow> r_shut r)"
| "watching_ok w _ r = w"

definition watch_ok :: "bool \<Rightarrow> relay \<Rightarrow> bool" where
  "watch_ok w r =
     (flags_ok r \<and> (r_shut r \<longrightarrow> r_gone r \<and> w) \<and> watching_ok w (r_watch r) r)"

lemma watch_ok_outside:
  assumes "outside_step e r = Some r'" and "watch_ok w r"
  shows "watch_ok w r'"
  using outside_frames [OF assms(1)] assms(2)
  by (cases "r_watch r") (auto simp: watch_ok_def flags_ok_def)

lemma flags_ok_copy:
  assumes "copy_step e r = Some r'" and "flags_ok r"
  shows "flags_ok r'"
proof -
  have "pred_option flags_ok (copy_step e r)"
    using assms(2) by (cases e) (simp_all add: flags_ok_def Let_def split: copying.split)
  with assms(1) show ?thesis by simp
qed

lemma watch_ok_copy:
  assumes "copy_step e r = Some r'" and "watch_ok w r"
  shows "watch_ok w r'"
  using copy_frames [OF assms(1)] flags_ok_copy [OF assms(1)] assms(2)
  by (cases "r_watch r") (auto simp: watch_ok_def)

lemma watch_ok_watch:
  assumes "watch_step e r = Some r'" and "watch_ok w r"
  shows "watch_ok w r'"
proof -
  have "watching_ok w (r_watch r) r" "flags_ok r" using assms(2) by (simp_all add: watch_ok_def)
  then have "pred_option (\<lambda>r'. watching_ok w (r_watch r') r') (watch_step e r)"
    by (cases e; cases "r_watch r") (auto simp: flags_ok_def split: heard.split)
  moreover have "pred_option (\<lambda>r'. r_shut r' \<longrightarrow> r_gone r' \<and> w) (watch_step e r)"
    using assms(2) by (cases e) (auto simp: watch_ok_def split: heard.split)
  ultimately show ?thesis
    using assms watch_frames [OF assms(1)] by (simp add: watch_ok_def flags_ok_def)
qed

lemma relay_start_ok: "copy_ok (relay_start wakes w)" "watch_ok w (relay_start wakes w)"
  by (simp_all add: relay_start_def copy_ok_def watch_ok_def flags_ok_def whole_def)

lemma relay_run_ok:
  assumes "relay_run es (relay_start wakes w) = Some r"
  shows "copy_ok r" and "watch_ok w r"
proof -
  have "copy_ok t" if "relay_step e s = Some t" "copy_ok s" for e s t
    using that copy_ok_outside copy_ok_copy copy_ok_watch by (cases e) auto
  then show "copy_ok r" using relay_run_keeps [OF assms, of copy_ok] relay_start_ok(1) by blast
  have "watch_ok w t" if "relay_step e s = Some t" "watch_ok w s" for e s t
    using that watch_ok_outside watch_ok_copy watch_ok_watch by (cases e) auto
  then show "watch_ok w r" using relay_run_keeps [OF assms, of "watch_ok w"] relay_start_ok(2) by blast
qed

section \<open>How it ends\<close>

fun by_thread :: "relay_event \<Rightarrow> bool" where
  "by_thread (Outside _) = False"
| "by_thread _ = True"

fun copy_left :: "copying \<Rightarrow> nat" where
  "copy_left Returned = 2"
| "copy_left Lowered = 1"
| "copy_left _ = 0"

fun watch_left :: "watching \<Rightarrow> nat" where
  "watch_left Listening = 3"
| "watch_left Looking_up = 2"
| "watch_left Leaving = 1"
| "watch_left Over = 0"

lemma watch_left_le: "watch_left w \<le> 3"
  by (cases w) auto

text \<open>Once the flag is lowered, each step of a thread takes it nearer its end.\<close>

lemma lowered_step:
  assumes "relay_step e r = Some r'" and "r_copy r \<in> {Lowered, Copied}" and "\<not> r_relaying r"
  shows "r_copy r' \<in> {Lowered, Copied} \<and> \<not> r_relaying r' \<and>
    copy_left (r_copy r') + watch_left (r_watch r') + (if by_thread e then 1 else 0)
      \<le> copy_left (r_copy r) + watch_left (r_watch r)"
proof (cases e)
  case (Outside f)
  with assms show ?thesis using outside_frames [of f r r'] by auto
next
  case (Copy f)
  with assms show ?thesis by (cases f) (auto split: if_splits)
next
  case (Watch f)
  have "pred_option (\<lambda>r'. watch_left (r_watch r') + 1 \<le> watch_left (r_watch r)) (watch_step f r)"
    using assms(3) by (cases f; cases "r_watch r") (simp_all split: heard.split)
  with Watch assms show ?thesis using watch_frames [of f r r'] by simp
qed

lemma lowered_run:
  assumes "relay_run es r = Some r'" and "r_copy r \<in> {Lowered, Copied}" and "\<not> r_relaying r"
  shows "r_copy r' \<in> {Lowered, Copied} \<and>
    length (filter by_thread es) + copy_left (r_copy r') + watch_left (r_watch r')
      \<le> copy_left (r_copy r) + watch_left (r_watch r)"
  using assms
proof (induction es arbitrary: r)
  case Nil
  then show ?case by simp
next
  case (Cons e es)
  then obtain r1 where r1: "relay_step e r = Some r1" "relay_run es r1 = Some r'"
    by (auto split: option.splits)
  show ?case using lowered_step [OF r1(1) Cons.prems(2,3)] Cons.IH [OF r1(2)] by auto
qed

lemma relay_run_append:
  "relay_run (es @ fs) r = (case relay_run es r of None \<Rightarrow> None | Some r' \<Rightarrow> relay_run fs r')"
  by (induction es arbitrary: r) (auto split: option.split)

text \<open>The watch hears the end of a caller that left after what it sent is read.\<close>

fun notice_left :: "watching \<Rightarrow> nat \<Rightarrow> nat" where
  "notice_left Over n = 0"
| "notice_left Leaving n = 1"
| "notice_left Listening n = 2 + 2 * n"
| "notice_left Looking_up n = 3 + 2 * n"

lemma gone_step:
  assumes "relay_step e r = Some r'" and "r_gone r" and "e \<noteq> Watch (Hears HeardNothing)"
  shows "r_gone r' \<and>
    notice_left (r_watch r') (r_extra r') + (case e of Watch _ \<Rightarrow> 1 | _ \<Rightarrow> 0)
      \<le> notice_left (r_watch r) (r_extra r)"
proof (cases e)
  case (Outside f)
  with assms show ?thesis using outside_frames [of f r r'] by simp
next
  case (Copy f)
  with assms show ?thesis using copy_frames [of f r r'] by simp
next
  case (Watch f)
  have "pred_option (\<lambda>r'. notice_left (r_watch r') (r_extra r') + 1 \<le> notice_left (r_watch r) (r_extra r))
      (watch_step f r)"
    using assms(2,3) Watch by (cases f; cases "r_watch r") (auto split: heard.split)
  with Watch assms show ?thesis using watch_frames [of f r r'] by simp
qed

lemma gone_run:
  assumes "relay_run es r = Some r'" and "r_gone r" and "Watch (Hears HeardNothing) \<notin> set es"
  shows "r_gone r' \<and>
    length (filter (\<lambda>e. \<exists>f. e = Watch f) es) + notice_left (r_watch r') (r_extra r')
      \<le> notice_left (r_watch r) (r_extra r)"
  using assms
proof (induction es arbitrary: r)
  case Nil
  then show ?case by simp
next
  case (Cons e es)
  then obtain r1 where r1: "relay_step e r = Some r1" "relay_run es r1 = Some r'"
    by (auto split: option.splits)
  have "e \<noteq> Watch (Hears HeardNothing)" using Cons.prems(3) by auto
  with gone_step [OF r1(1) Cons.prems(2)] Cons.IH [OF r1(2)] Cons.prems(3) show ?case
    by (cases e) auto
qed

section \<open>Properties\<close>

text \<open>C22: What a caller is given is always the beginning of what the child said, and all of it once
  the copy is over unless a write failed, the connection to the child broke, or the caller left;
  the child's side is shut down only when the caller left and a watch was running.\<close>

theorem caller_gets_what_the_child_said:
  assumes "relay_run es (relay_start wakes w) = Some r"
  shows "prefix (r_given r) (r_said r) \<and>
    (r_shut r \<longrightarrow> r_gone r \<and> w) \<and>
    (r_copy r \<in> {Returned, Lowered, Copied} \<and> False \<notin> set (r_wrote r) \<and>
       r_child r \<noteq> Lost \<and> \<not> r_gone r \<longrightarrow>
     r_given r = r_said r \<and> r_child r = Hung_up)"
  using relay_run_ok [OF assms]
  by (cases "r_copy r") (auto simp: copy_ok_def watch_ok_def cut_short_def)

theorem caller_gets_what_the_child_said_witness:
  "\<exists>r. relay_run [Outside (ChildSays ''abc''), Copy Begins, Copy (Reads 2), Copy Writes, Watch LooksUp,
       Copy Begins, Copy (Reads 2), Copy Writes, Outside ChildHangsUp, Copy Begins, Copy ReadEnds] (relay_start True True) = Some r \<and>
     r_given r = ''abc'' \<and> r_given r = r_said r"
proof -
  let ?es = "[Outside (ChildSays ''abc''), Copy Begins, Copy (Reads 2), Copy Writes, Watch LooksUp,
       Copy Begins, Copy (Reads 2), Copy Writes, Outside ChildHangsUp, Copy Begins, Copy ReadEnds]"
  obtain r where r: "relay_run ?es (relay_start True True) = Some r"
      "r_copy r = Returned" "r_wrote r = [True, True]" "r_child r = Hung_up" "\<not> r_gone r" "r_said r = ''abc''"
    by (simp add: relay_start_def BUFFER_def Let_def)
  then show ?thesis using caller_gets_what_the_child_said [OF r(1)] by auto
qed

text \<open>The writes of the copying thread come to exactly what \<open>relay_response\<close> computes from
  the reads and the fate of each write, and a part of the one that failed.\<close>

lemma relay_response_whole:
  "[] \<notin> set reads \<Longrightarrow> relay_response (reads @ rest) (replicate (length reads) True) = reads"
  by (induction reads) (auto, cases rest, auto)

lemma relay_response_cut:
  "[] \<notin> set reads \<Longrightarrow>
     relay_response (reads @ rest) (replicate (length reads) True @ [False]) = reads"
  by (induction reads) (auto, cases rest, auto)

lemma copy_gives_what_relay_response_gives:
  assumes "relay_run es (relay_start wakes w) = Some r"
  shows "\<exists>part. r_given r = concat (relay_response (r_reads r) (r_wrote r)) @ part \<and>
    (False \<notin> set (r_wrote r) \<longrightarrow> part = []) \<and> (r_reads r \<noteq> [] \<longrightarrow> prefix part (last (r_reads r)))"
proof -
  have "copy_ok r" using relay_run_ok [OF assms] by simp
  then show ?thesis
    using relay_response_whole [of "r_reads r" "[]"]
    by (cases "r_copy r")
      (auto simp: copy_ok_def whole_def cut_short_def relay_response_whole relay_response_cut
        take_is_prefix)
qed

text \<open>Once the flag is lowered the two threads end: at most four steps of theirs remain,
  and neither is ever stuck before its end.\<close>

lemma relay_threads_end:
  assumes "relay_run es (relay_start wakes w) = Some r" and "r_copy r \<in> {Lowered, Copied}"
    and "relay_run fs r = Some r'"
  shows "length (filter by_thread fs) \<le> 4 \<and>
    ((\<forall>e. by_thread e \<longrightarrow> relay_step e r' = None) \<longrightarrow> r_copy r' = Copied \<and> r_watch r' = Over)"
proof -
  have "flags_ok r" using relay_run_ok [OF assms(1)] by (simp add: watch_ok_def)
  then have low: "\<not> r_relaying r" using assms(2) by (auto simp: flags_ok_def)
  have fin: "r_copy r' \<in> {Lowered, Copied} \<and> length (filter by_thread fs) \<le>
      copy_left (r_copy r) + watch_left (r_watch r)"
    using lowered_run [OF assms(3,2) low] by auto
  have "copy_left (r_copy r) \<le> 1" "watch_left (r_watch r) \<le> 3"
    using assms(2) by (auto intro: watch_left_le)
  moreover have "r_copy r' = Copied" if "\<forall>e. by_thread e \<longrightarrow> relay_step e r' = None"
    using that [rule_format, of "Copy ShutsCaller"] fin by auto
  moreover have "r_watch r' = Over"
    if "\<forall>e. by_thread e \<longrightarrow> relay_step e r' = None"
  proof (cases "r_watch r'")
    case Looking_up
    with that [rule_format, of "Watch LooksUp"] show ?thesis by simp
  next
    case Listening
    with that [rule_format, of "Watch (Hears HeardNothing)"] show ?thesis by simp
  next
    case Leaving
    with that [rule_format, of "Watch Decides"] show ?thesis by simp
  qed
  ultimately show ?thesis using fin by simp
qed

lemma relay_threads_end_witness:
  "\<exists>r r'. relay_run [Watch LooksUp, Watch (Hears HeardNothing), Outside ChildHangsUp,
       Copy Begins, Copy ReadEnds, Copy Lowers] (relay_start True True) = Some r \<and>
     relay_run [Watch LooksUp, Copy ShutsCaller, Watch Decides] r = Some r' \<and>
     r_copy r' = Copied \<and> r_watch r' = Over \<and>
     length (filter by_thread [Watch LooksUp, Copy ShutsCaller, Watch Decides]) \<le> 4"
proof -
  let ?es = "[Watch LooksUp, Watch (Hears HeardNothing), Outside ChildHangsUp,
      Copy Begins, Copy ReadEnds, Copy Lowers]"
  let ?fs = "[Watch LooksUp, Copy ShutsCaller, Watch Decides]"
  obtain r r' where r: "relay_run ?es (relay_start True True) = Some r" "r_copy r \<in> {Lowered, Copied}"
      "relay_run ?fs r = Some r'" "r_copy r' = Copied" "r_watch r' = Over"
    by (simp add: relay_start_def)
  have "length (filter by_thread ?fs) \<le> 4"
    using relay_threads_end [OF r(1-3)] by blast
  with r show ?thesis by blast
qed

text \<open>The platform stays what it is, and only one that does not wake a read leaves one asleep.\<close>

definition platform_ok :: "bool \<Rightarrow> relay \<Rightarrow> bool" where
  "platform_ok wakes r = (r_wakes r = wakes \<and> (r_asleep r \<longrightarrow> \<not> wakes))"

lemma platform_step:
  assumes "relay_step e r = Some r'" and "platform_ok wakes r"
  shows "platform_ok wakes r'"
proof -
  have "pred_option (platform_ok wakes) (relay_step e r)"
  proof (cases e)
    case (Outside f)
    with assms(2) show ?thesis by (cases f) (simp_all add: platform_ok_def)
  next
    case (Copy f)
    with assms(2) show ?thesis
      by (cases f) (simp_all add: platform_ok_def Let_def split: copying.split)
  next
    case (Watch f)
    with assms(2) show ?thesis by (cases f) (auto simp: platform_ok_def split: heard.split)
  qed
  with assms(1) show ?thesis by simp
qed

lemma platform_run: "relay_run es (relay_start wakes w) = Some r \<Longrightarrow> platform_ok wakes r"
  by (rule relay_run_keeps [where P = "platform_ok wakes"])
    (auto simp: relay_start_def platform_ok_def dest: platform_step [unfolded platform_ok_def])

text \<open>C38: Provided the watch was started -- the caller's socket took a read timeout -- a caller that
  leaves is noticed: from then on, as long as no read of the watch's times out with nothing heard,
  the watch ends within three steps and two more for each byte the caller left unread, and the
  child's side is shut down unless the copy was over by itself. A read of the copy's begun after
  that shutdown ends. One already under way ends on a platform whose shutdown wakes a blocked
  read; elsewhere, as on Windows, once the child closes its end in turn and what it said is
  read, or its connection breaks.\<close>

theorem leaving_ends_the_relay:
  assumes "relay_run es (relay_start wakes True) = Some r" and "r_gone r"
    and "relay_run fs r = Some r'" and "Watch (Hears HeardNothing) \<notin> set fs"
  shows "length (filter (\<lambda>e. \<exists>f. e = Watch f) fs) \<le> 3 + 2 * r_extra r \<and>
    ((\<forall>f. f \<noteq> Hears HeardNothing \<longrightarrow> relay_step (Watch f) r' = None) \<longrightarrow>
      r_watch r' = Over \<and> (r_relaying r' \<longrightarrow> r_shut r')) \<and>
    (r_shut r' \<and> r_copy r' = Reading \<longrightarrow> relay_run [Copy Begins, Copy ReadEnds] r' \<noteq> None) \<and>
    (r_shut r' \<and> r_copy r' = Awaiting \<and>
        (wakes \<or> r_child r' = Lost \<or> r_child r' = Hung_up \<and> r_arrived r' = []) \<longrightarrow>
      relay_step (Copy ReadEnds) r' \<noteq> None)"
proof -
  have run: "relay_run (es @ fs) (relay_start wakes True) = Some r'"
    using assms(1,3) by (simp add: relay_run_append)
  have gone: "r_gone r' \<and> length (filter (\<lambda>e. \<exists>f. e = Watch f) fs) + notice_left (r_watch r') (r_extra r')
      \<le> notice_left (r_watch r) (r_extra r)"
    using gone_run [OF assms(3,2,4)] .
  have "notice_left (r_watch r) (r_extra r) \<le> 3 + 2 * r_extra r" by (cases "r_watch r") auto
  moreover have "r_watch r' = Over"
    if stuck: "\<forall>f. f \<noteq> Hears HeardNothing \<longrightarrow> relay_step (Watch f) r' = None"
  proof (cases "r_watch r'")
    case Looking_up
    with stuck [rule_format, of LooksUp] show ?thesis by simp
  next
    case Listening
    with stuck [rule_format, of "Hears HeardError"] gone show ?thesis by simp
  next
    case Leaving
    with stuck [rule_format, of Decides] show ?thesis by simp
  qed
  moreover have "r_watch r' = Over \<Longrightarrow> r_relaying r' \<longrightarrow> r_shut r'"
    using relay_run_ok(2) [OF run] by (simp add: watch_ok_def)
  ultimately show ?thesis using gone platform_run [OF run] by (auto simp: platform_ok_def)
qed

theorem leaving_ends_the_relay_witness:
  "\<exists>r r'. relay_run [Outside CallerSays, Outside CallerLeaves] (relay_start True True) = Some r \<and>
     relay_run [Watch LooksUp, Watch (Hears HeardByte), Watch LooksUp, Watch (Hears HeardEnd),
       Watch Decides] r = Some r' \<and> 5 \<le> 3 + 2 * r_extra r \<and> r_shut r'"
proof -
  let ?es = "[Outside CallerSays, Outside CallerLeaves]"
  let ?fs = "[Watch LooksUp, Watch (Hears HeardByte), Watch LooksUp, Watch (Hears HeardEnd),
       Watch Decides]"
  obtain r r' where r: "relay_run ?es (relay_start True True) = Some r" "r_gone r"
      "relay_run ?fs r = Some r'" "r_shut r'"
    by (simp add: relay_start_def)
  have "length (filter (\<lambda>e. \<exists>f. e = Watch f) ?fs) \<le> 3 + 2 * r_extra r"
    using leaving_ends_the_relay [OF r(1-3)] by auto
  with r show ?thesis by auto
qed

end
