(* ===== verification/Gguf.thy ===== *)
theory Gguf
  imports Utf8
begin

text \<open>
  What a model file says about itself: \<open>gguf/bytes.rs\<close>, \<open>gguf/fault.rs\<close> and
  \<open>gguf/metadata.rs\<close>. A file is its bytes and the position read up to; a seek may leave the
  position past the end, and only a read notices. A fault is what stopped the reading, a
  constructor for each message the code writes.
\<close>

section \<open>Bytes\<close>

datatype fault =
    CannotOpen | EndsInside | ImpossibleLength | UndefinedType nat | NoMagic | BadVersion nat
  | TooManyPairs nat | LongKey | NestedArray string | TooManyLayers string nat | EndsBefore

record reader =
  g_bytes :: string
  g_pos :: nat

text \<open>\<open>?\<close>: the rest runs on what was read, unless reading failed.\<close>

definition attempt_read :: "'e + 'a \<Rightarrow> ('a \<Rightarrow> 'e + 'b) \<Rightarrow> 'e + 'b" where
  "attempt_read r f = (case r of Inl e \<Rightarrow> Inl e | Inr x \<Rightarrow> f x)"

lemma attempt_read_simps [simp]:
  "attempt_read (Inl e) f = Inl e"
  "attempt_read (Inr x) f = f x"
  by (simp_all add: attempt_read_def)

lemma attempt_read_Inr: "attempt_read r f = Inr y \<longleftrightarrow> (\<exists>x. r = Inr x \<and> f x = Inr y)"
  by (cases r) simp_all

definition read_exact :: "nat \<Rightarrow> reader \<Rightarrow> fault + string \<times> reader" where
  "read_exact n r =
     (if n = 0 then Inr ([], r)
      else if g_pos r + n \<le> length (g_bytes r) then
        Inr (take n (drop (g_pos r) (g_bytes r)), r\<lparr>g_pos := g_pos r + n\<rparr>)
      else Inl EndsInside)"

fun le_nat :: "string \<Rightarrow> nat" where
  "le_nat [] = 0"
| "le_nat (c # cs) = of_char c + 256 * le_nat cs"

definition u32_at :: "reader \<Rightarrow> fault + nat \<times> reader" where
  "u32_at r = attempt_read (read_exact 4 r) (\<lambda>(bs, r'). Inr (le_nat bs, r'))"

definition u64_at :: "reader \<Rightarrow> fault + nat \<times> reader" where
  "u64_at r = attempt_read (read_exact 8 r) (\<lambda>(bs, r'). Inr (le_nat bs, r'))"

definition width :: "nat \<Rightarrow> fault + nat" where
  "width kind =
     (if kind \<in> {0, 1, 7} then Inr 1
      else if kind \<in> {2, 3} then Inr 2
      else if kind \<in> {4, 5, 6} then Inr 4
      else if kind \<in> {10, 11, 12} then Inr 8
      else Inl (UndefinedType kind))"

text \<open>The integer a scalar's bytes spell; a signed one below zero spells none, nor does a float.\<close>

definition unsigned_scalar :: "nat \<Rightarrow> string \<Rightarrow> nat option" where
  "unsigned_scalar kind bs =
     (if kind \<in> {0, 2, 4, 10} then Some (le_nat bs)
      else if kind = 7 then Some (if le_nat bs = 0 then 0 else 1)
      else if kind \<in> {1, 3, 5, 11} then
        (if 2 * le_nat bs < 256 ^ length bs then Some (le_nat bs) else None)
      else None)"

definition scalar_at :: "reader \<Rightarrow> nat \<Rightarrow> fault + nat option \<times> reader" where
  "scalar_at r kind =
     attempt_read (width kind) (\<lambda>w.
       attempt_read (read_exact w r) (\<lambda>(bs, r'). Inr (unsigned_scalar kind bs, r')))"

text \<open>Stepping over bytes; an offset past what the system can seek to is an I/O error.\<close>

definition skip_bytes :: "reader \<Rightarrow> nat \<Rightarrow> fault + reader" where
  "skip_bytes r n =
     (if 2 ^ 63 \<le> n then Inl ImpossibleLength
      else if 2 ^ 63 \<le> g_pos r + n then Inl EndsInside
      else Inr (r\<lparr>g_pos := g_pos r + n\<rparr>))"

definition text_at :: "reader \<Rightarrow> nat \<Rightarrow> fault + string option \<times> reader" where
  "text_at r keep =
     attempt_read (u64_at r) (\<lambda>(len, r').
       if keep < len then attempt_read (skip_bytes r' len) (\<lambda>r''. Inr (None, r''))
       else attempt_read (read_exact len r') (\<lambda>(bs, r''). Inr (Some (utf8_lossy bs), r'')))"

section \<open>Metadata\<close>

definition MAX_PAIRS :: nat where "MAX_PAIRS = 2 ^ 16"
definition MAX_KEY_BYTES :: nat where "MAX_KEY_BYTES = 1024"
definition MAX_KEPT_TEXT_BYTES :: nat where "MAX_KEPT_TEXT_BYTES = 256"
definition MAX_LAYER_ARRAY :: nat where "MAX_LAYER_ARRAY = 2 ^ 20"

record metadata =
  m_architecture :: "string option"
  m_numbers :: "nat tree"
  m_layers :: "nat list tree"

definition metadata_new :: metadata where
  "metadata_new = \<lparr>m_architecture = None, m_numbers = [], m_layers = []\<rparr>"

definition number :: "metadata \<Rightarrow> string \<Rightarrow> nat option" where
  "number m key = map_of (m_numbers m) key"

definition of_model :: "metadata \<Rightarrow> string \<Rightarrow> nat option" where
  "of_model m suffix =
     (case m_architecture m of None \<Rightarrow> None | Some a \<Rightarrow> number m (a @ ''.'' @ suffix))"

definition per_layer :: "metadata \<Rightarrow> string \<Rightarrow> nat list option" where
  "per_layer m suffix =
     (case m_architecture m of None \<Rightarrow> None | Some a \<Rightarrow> map_of (m_layers m) (a @ ''.'' @ suffix))"

definition split_count :: "metadata \<Rightarrow> nat option" where
  "split_count m = number m ''split.count''"

definition is_per_layer :: "string \<Rightarrow> bool" where
  "is_per_layer key =
     (ends_with ''.attention.head_count_kv'' key \<or> ends_with ''.attention.head_count'' key \<or>
      ends_with ''.attention.sliding_window_pattern'' key)"

text \<open>The elements of an array, and the arrays of strings that are stepped over.\<close>

fun scalars_at :: "nat \<Rightarrow> reader \<Rightarrow> nat \<Rightarrow> fault + nat option list \<times> reader" where
  "scalars_at kind r 0 = Inr ([], r)"
| "scalars_at kind r (Suc n) =
     attempt_read (scalar_at r kind) (\<lambda>(x, r').
       attempt_read (scalars_at kind r' n) (\<lambda>(xs, r''). Inr (x # xs, r'')))"

fun skip_texts :: "reader \<Rightarrow> nat \<Rightarrow> fault + reader" where
  "skip_texts r 0 = Inr r"
| "skip_texts r (Suc n) = attempt_read (text_at r 0) (\<lambda>(_, r'). skip_texts r' n)"

text \<open>\<open>Option::max\<close>, where nothing is the least.\<close>

definition max_option :: "nat option \<Rightarrow> nat option \<Rightarrow> nat option" where
  "max_option a b =
     (case a of None \<Rightarrow> b | Some m \<Rightarrow> (case b of None \<Rightarrow> a | Some n \<Rightarrow> Some (max m n)))"

definition largest :: "nat option list \<Rightarrow> nat option" where
  "largest xs = foldl max_option None xs"

definition layer_array :: "metadata \<Rightarrow> reader \<Rightarrow> string \<Rightarrow> nat \<Rightarrow> nat \<Rightarrow> fault + metadata \<times> reader" where
  "layer_array m r key kind cnt =
     (if MAX_LAYER_ARRAY < cnt then Inl (TooManyLayers key cnt)
      else attempt_read (scalars_at kind r cnt) (\<lambda>(xs, r').
        (let elements = List.map_filter id xs;
             m1 = (case largest xs of None \<Rightarrow> m
                   | Some n \<Rightarrow> m\<lparr>m_numbers := tree_insert key n (m_numbers m)\<rparr>);
             m2 = (if elements = [] then m1
                   else m1\<lparr>m_layers := tree_insert key elements (m_layers m1)\<rparr>) in
         Inr (m2, r'))))"

definition array_at :: "metadata \<Rightarrow> reader \<Rightarrow> string \<Rightarrow> fault + metadata \<times> reader" where
  "array_at m r key =
     attempt_read (u32_at r) (\<lambda>(kind, r1).
       attempt_read (u64_at r1) (\<lambda>(cnt, r2).
         if is_per_layer key \<and> kind \<noteq> 8 \<and> kind \<noteq> 9 then layer_array m r2 key kind cnt
         else if kind = 8 then attempt_read (skip_texts r2 cnt) (\<lambda>r3. Inr (m, r3))
         else if kind = 9 then Inl (NestedArray key)
         else attempt_read (width kind) (\<lambda>w.
           if 2 ^ 64 \<le> cnt * w then Inl ImpossibleLength
           else attempt_read (skip_bytes r2 (cnt * w)) (\<lambda>r3. Inr (m, r3)))))"

definition value_at :: "metadata \<Rightarrow> reader \<Rightarrow> string \<Rightarrow> nat \<Rightarrow> fault + metadata \<times> reader" where
  "value_at m r key kind =
     (if kind = 8 then
        attempt_read (text_at r MAX_KEPT_TEXT_BYTES) (\<lambda>(kept, r').
          Inr (if key = ''general.architecture'' then m\<lparr>m_architecture := kept\<rparr> else m, r'))
      else if kind = 9 then array_at m r key
      else
        attempt_read (scalar_at r kind) (\<lambda>(x, r').
          Inr (case x of
                 Some n \<Rightarrow>
                   if starts_with ''tokenizer.'' key then m
                   else m\<lparr>m_numbers := tree_insert key n (m_numbers m)\<rparr>
               | None \<Rightarrow> m, r')))"

fun pairs_at :: "metadata \<Rightarrow> reader \<Rightarrow> nat \<Rightarrow> fault + metadata \<times> reader" where
  "pairs_at m r 0 = Inr (m, r)"
| "pairs_at m r (Suc n) =
     attempt_read (text_at r MAX_KEY_BYTES) (\<lambda>(key, r1).
       case key of
         None \<Rightarrow> Inl LongKey
       | Some k \<Rightarrow>
           attempt_read (u32_at r1) (\<lambda>(kind, r2).
             attempt_read (value_at m r2 k kind) (\<lambda>(m', r3). pairs_at m' r3 n)))"

definition fill :: "reader \<Rightarrow> fault + metadata" where
  "fill r =
     attempt_read (read_exact 4 r) (\<lambda>(magic, r1).
       if magic \<noteq> ''GGUF'' then Inl NoMagic
       else attempt_read (u32_at r1) (\<lambda>(version, r2).
         if version < 2 \<or> 3 < version then Inl (BadVersion version)
         else attempt_read (u64_at r2) (\<lambda>(tensors, r3).
           attempt_read (u64_at r3) (\<lambda>(pairs, r4).
             if MAX_PAIRS < pairs then Inl (TooManyPairs pairs)
             else attempt_read (pairs_at metadata_new r4 pairs) (\<lambda>(m, r5).
               if length (g_bytes r) < g_pos r5 then Inl EndsBefore else Inr m)))))"

definition metadata_read :: "string option \<Rightarrow> fault + metadata" where
  "metadata_read file =
     (case file of
        None \<Rightarrow> Inl CannotOpen
      | Some bytes \<Rightarrow> fill \<lparr>g_bytes = bytes, g_pos = 0\<rparr>)"

end
