(* ===== verification/Estimate.thy ===== *)
theory Estimate
  imports Gguf Catalog_Entry
begin

text \<open>
  What loading an entry is expected to cost: \<open>catalog/estimate/shard.rs\<close>,
  \<open>catalog/estimate/served.rs\<close>, \<open>catalog/estimate/cache.rs\<close> and
  \<open>catalog/estimate/derived.rs\<close>. The file system is an argument, a path's contents when it is
  a file. Sizes are 64-bit and the sum is 128-bit, and both wrap as they do in a release build.
\<close>

type_synonym u128 = "128 word"
type_synonym contents = "string \<Rightarrow> string option"

section \<open>Paths\<close>

text \<open>
  \<open>Path::file_name\<close> and \<open>with_file_name\<close> on text: separators and dots at the end do not count,
  and a path that ends in two dots names no file.
\<close>

definition path_segments :: "string \<Rightarrow> string list" where
  "path_segments p = dropWhile (\<lambda>s. s = [] \<or> s = ''.'') (rev (split_on (CHR ''/'') p))"

definition file_name :: "string \<Rightarrow> string option" where
  "file_name p =
     (case path_segments p of [] \<Rightarrow> None | s # _ \<Rightarrow> if s = ''..'' then None else Some s)"

definition with_file_name :: "string \<Rightarrow> string \<Rightarrow> string" where
  "with_file_name p name =
     (case dropWhile (\<lambda>s. s = []) (tl (path_segments p)) of
        [] \<Rightarrow> (if starts_with ''/'' p then ''/'' @ name else name)
      | segs \<Rightarrow> join ''/'' (rev segs) @ ''/'' @ name)"

section \<open>Shards\<close>

text \<open>\<open>rsplit_once\<close>: around the last occurrence of a non-empty pattern.\<close>

fun rsplit_once :: "string \<Rightarrow> string \<Rightarrow> (string \<times> string) option" where
  "rsplit_once p [] = None"
| "rsplit_once p (c # s) =
     (case rsplit_once p s of
        Some (a, b) \<Rightarrow> Some (c # a, b)
      | None \<Rightarrow> if starts_with p (c # s) then Some ([], drop (length p) (c # s)) else None)"

record shard =
  sh_stem :: string
  sh_index :: nat
  sh_total :: string
  sh_extension :: string

definition shard_of :: "string \<Rightarrow> shard option" where
  "shard_of name =
     (case rsplit_once ''.'' name of
        None \<Rightarrow> None
      | Some (rest, extension) \<Rightarrow>
          (case rsplit_once ''-of-'' rest of
             None \<Rightarrow> None
           | Some (front, whole) \<Rightarrow>
               (case rsplit_once ''-'' front of
                  None \<Rightarrow> None
                | Some (stem, index) \<Rightarrow>
                    (if whole = [] \<or> \<not> list_all is_digit whole then None
                     else if length index \<noteq> length whole \<or> \<not> list_all is_digit index then None
                     else
                       (case parse_unsigned (2 ^ 64) index of
                          None \<Rightarrow> None
                        | Some n \<Rightarrow>
                            Some \<lparr>sh_stem = stem, sh_index = n, sh_total = whole,
                                 sh_extension = extension\<rparr>)))))"

definition zero_padded :: "nat \<Rightarrow> nat \<Rightarrow> string" where
  "zero_padded w n = replicate (w - length (dec n)) (CHR ''0'') @ dec n"

definition shard_name :: "shard \<Rightarrow> nat \<Rightarrow> string" where
  "shard_name s i =
     sh_stem s @ ''-'' @ zero_padded (length (sh_total s)) i @ ''-of-'' @ sh_total s @ ''.''
     @ sh_extension s"

definition sibling :: "shard \<Rightarrow> string \<Rightarrow> nat \<Rightarrow> string" where
  "sibling s model i = with_file_name model (shard_name s i)"

section \<open>How an entry is served\<close>

definition flag_first :: "string tree \<Rightarrow> string list \<Rightarrow> string option" where
  "flag_first flags names =
     (case List.map_filter (map_of flags) names of [] \<Rightarrow> None | v # _ \<Rightarrow> Some v)"

definition keeps_no_cache :: "string tree \<Rightarrow> bool" where
  "keeps_no_cache flags =
     (case flag_first flags [''embeddings'', ''embedding'', ''reranking'', ''rerank''] of
        None \<Rightarrow> False | Some v \<Rightarrow> ascii_lower (trim v) \<notin> {''false'', ''0''})"

definition runs_on_processor :: "string tree \<Rightarrow> bool" where
  "runs_on_processor flags =
     (case flag_first flags [''n-gpu-layers'', ''gpu-layers'', ''ngl''] of
        None \<Rightarrow> False | Some v \<Rightarrow> trim v = ''0'')"

definition predicts_tokens :: "string tree \<Rightarrow> bool" where
  "predicts_tokens flags =
     (case flag_first flags [''spec-type'', ''speculative-type''] of
        None \<Rightarrow> False | Some v \<Rightarrow> contains_text ''mtp'' (ascii_lower (trim v)))"

section \<open>The cache\<close>

definition F16 :: nat where "F16 = 32"
definition F32 :: nat where "F32 = 64"
definition Q8_0 :: nat where "Q8_0 = 17"
definition Q4_0 :: nat where "Q4_0 = 9"

definition sixteenths :: "string tree \<Rightarrow> string list \<Rightarrow> nat" where
  "sixteenths flags names =
     (let spelling = (case flag_first flags names of None \<Rightarrow> ''f16'' | Some v \<Rightarrow> v) in
      if spelling = ''f32'' then F32
      else if spelling = ''q8_0'' then Q8_0
      else if spelling = ''q4_0'' then Q4_0
      else F16)"

definition caching_layers :: "metadata \<Rightarrow> nat option" where
  "caching_layers m =
     (case of_model m ''block_count'' of
        None \<Rightarrow> None
      | Some layers \<Rightarrow>
          (case of_model m ''full_attention_interval'' of
             Some interval \<Rightarrow> if 1 < interval then Some (layers div interval) else Some layers
           | None \<Rightarrow> Some layers))"

definition assumed_pattern :: "metadata \<Rightarrow> nat list option" where
  "assumed_pattern m =
     (if m_architecture m = Some ''gemma3'' then
        (case of_model m ''block_count'' of
           None \<Rightarrow> None
         | Some layers \<Rightarrow> Some (map (\<lambda>layer. if layer mod 6 \<noteq> 5 then 1 else 0) [0..<layers]))
      else None)"

definition key_length_of :: "metadata \<Rightarrow> nat option" where
  "key_length_of m =
     (case of_model m ''attention.key_length'' of
        Some l \<Rightarrow> Some l
      | None \<Rightarrow>
          (case (of_model m ''embedding_length'', of_model m ''attention.head_count'') of
             (Some emb, Some heads) \<Rightarrow> if heads = 0 then None else Some (emb div heads)
           | _ \<Rightarrow> None))"

text \<open>One layer's keys and values over a span of tokens, in sixteenths of a byte.\<close>

definition span_cost :: "nat \<Rightarrow> nat \<Rightarrow> nat \<Rightarrow> nat \<Rightarrow> nat \<Rightarrow> nat \<Rightarrow> u128" where
  "span_cost span heads key keys val values =
     of_nat span * of_nat heads * (of_nat key * of_nat keys + of_nat val * of_nat values)"

definition cache_bytes :: "metadata \<Rightarrow> nat \<Rightarrow> nat \<Rightarrow> nat \<Rightarrow> u128 option" where
  "cache_bytes m context keys values =
     (case (caching_layers m,
            or_else (of_model m ''attention.head_count_kv'') (of_model m ''attention.head_count''),
            key_length_of m) of
        (Some layers, Some kv_heads, Some key_length) \<Rightarrow>
          (let value_length = (case of_model m ''attention.value_length'' of
                 None \<Rightarrow> key_length | Some l \<Rightarrow> l) in
           case (or_else (per_layer m ''attention.sliding_window_pattern'') (assumed_pattern m),
                 of_model m ''attention.sliding_window'') of
             (Some pattern, Some window) \<Rightarrow>
               (let swa_keys = (case of_model m ''attention.key_length_swa'' of
                      None \<Rightarrow> key_length | Some l \<Rightarrow> l);
                    swa_values = (case of_model m ''attention.value_length_swa'' of
                      None \<Rightarrow> swa_keys | Some l \<Rightarrow> l);
                    by_layer = per_layer m ''attention.head_count_kv'';
                    windowed = min context window;
                    heads_of = (\<lambda>layer. case by_layer of
                        None \<Rightarrow> kv_heads
                      | Some hs \<Rightarrow> if layer < length hs then hs ! layer else kv_heads) in
                Some (sum_list (map (\<lambda>(layer, slides).
                    if slides = 0 then span_cost context (heads_of layer) key_length keys value_length values
                    else span_cost windowed (heads_of layer) swa_keys keys swa_values values)
                  (enumerate 0 pattern)) div 16))
           | _ \<Rightarrow>
               Some (of_nat layers * of_nat context
                 * (of_nat kv_heads * (of_nat key_length * of_nat keys + of_nat value_length * of_nat values))
                 div 16))
      | _ \<Rightarrow> None)"

section \<open>The estimate\<close>

definition MIB :: nat where "MIB = 1024 * 1024"
definition OVERHEAD_BYTES :: nat where "OVERHEAD_BYTES = 1024 * MIB"

datatype basis = FromMetadata | FromSize

record derived =
  d_mib :: u32
  d_basis :: basis

definition size_of :: "contents \<Rightarrow> string \<Rightarrow> u64 option" where
  "size_of fs p = map_option (\<lambda>s. of_nat (length s)) (fs p)"

definition sized :: "contents \<Rightarrow> string \<Rightarrow> u64" where
  "sized fs p = (case size_of fs p of None \<Rightarrow> 0 | Some n \<Rightarrow> n)"

definition other_shards :: "shard \<Rightarrow> nat \<Rightarrow> nat list" where
  "other_shards s shards = filter (\<lambda>i. i \<noteq> sh_index s) [1..<Suc shards]"

definition weights_of :: "contents \<Rightarrow> string \<Rightarrow> metadata option \<Rightarrow> string + u64" where
  "weights_of fs model m =
     (case size_of fs model of
        None \<Rightarrow> Inl (''no model file at '' @ quoted model)
      | Some own \<Rightarrow>
          (let shards = (case m of None \<Rightarrow> 1 | Some m' \<Rightarrow>
                 (case split_count m' of None \<Rightarrow> 1 | Some n \<Rightarrow> n)) in
           case (case file_name model of None \<Rightarrow> None | Some name \<Rightarrow> shard_of name) of
             None \<Rightarrow> Inr own
           | Some s \<Rightarrow> Inr (own + sum_list (map (\<lambda>i. sized fs (sibling s model i)) (other_shards s shards)))))"

definition result_option :: "'e + 'a \<Rightarrow> 'a option" where
  "result_option r = (case r of Inl _ \<Rightarrow> None | Inr x \<Rightarrow> Some x)"

text \<open>The draft's weights, and its cache unless it is a head on the model beside it.\<close>

definition draft_weights :: "contents \<Rightarrow> string \<Rightarrow> entry \<Rightarrow> u64" where
  "draft_weights fs root e =
     (case e_draft_path e of None \<Rightarrow> 0 | Some p \<Rightarrow> sized fs (resolve p root))"

definition draft_cache :: "contents \<Rightarrow> string \<Rightarrow> entry \<Rightarrow> u128" where
  "draft_cache fs root e =
     (case e_draft_path e of
        None \<Rightarrow> 0
      | Some p \<Rightarrow>
          (if predicts_tokens (e_flags e) then 0
           else
             (case metadata_read (fs (resolve p root)) of
                Inl _ \<Rightarrow> 0
              | Inr m \<Rightarrow>
                  (case cache_bytes m (unat (e_context_size e))
                      (sixteenths (e_flags e) [''ctkd'', ''cache-type-k-draft''])
                      (sixteenths (e_flags e) [''ctvd'', ''cache-type-v-draft'']) of
                     None \<Rightarrow> 0 | Some c \<Rightarrow> c))))"

definition projector_weights :: "contents \<Rightarrow> string \<Rightarrow> entry \<Rightarrow> u64" where
  "projector_weights fs root e =
     (case e_projector_path e of None \<Rightarrow> 0 | Some p \<Rightarrow> sized fs (resolve p root))"

text \<open>\<open>div_ceil\<close> and the conversion that saturates.\<close>

definition to_mib :: "u128 \<Rightarrow> u32" where
  "to_mib bytes =
     (let q = bytes div of_nat MIB; mib = unat q + (if bytes mod of_nat MIB = 0 then 0 else 1) in
      if mib < 2 ^ 32 then of_nat mib else - 1)"

definition derive :: "contents \<Rightarrow> string \<Rightarrow> entry \<Rightarrow> string + derived" where
  "derive fs root e =
     (let model = resolve (e_path e) root;
          m = result_option (metadata_read (fs model)) in
      case weights_of fs model m of
        Inl reason \<Rightarrow> Inl reason
      | Inr own \<Rightarrow>
          (let flags = e_flags e;
               all_weights = own + draft_weights fs root e + projector_weights fs root e;
               keys = sixteenths flags [''ctk'', ''cache-type-k''];
               values = sixteenths flags [''ctv'', ''cache-type-v''];
               on_processor = runs_on_processor flags;
               cache = (if on_processor then 0 else draft_cache fs root e);
               weights = (if on_processor then 0 else ucast all_weights :: u128);
               overhead = of_nat OVERHEAD_BYTES in
           Inr (case (case m of None \<Rightarrow> None
                      | Some m' \<Rightarrow> cache_bytes m' (unat (e_context_size e)) keys values) of
                  Some model_cache \<Rightarrow>
                    \<lparr>d_mib = to_mib (weights
                        + (if keeps_no_cache flags \<or> on_processor then 0 else model_cache)
                        + cache + weights * 5 div 100 + overhead),
                     d_basis = FromMetadata\<rparr>
                | None \<Rightarrow>
                    \<lparr>d_mib = to_mib (weights + weights div 4 + overhead), d_basis = FromSize\<rparr>)))"

end
