(* ===== verification/Memory_Tools.thy ===== *)
theory Memory_Tools
  imports Memory_Figures Launch Windows Estimate Turn_Loop
begin

text \<open>
  Asking the platform's own tools, \<open>memory/command.rs\<close> and \<open>memory/probe.rs\<close>: where the device
  tool is, how long a tool may run, and which tool answers which question on which platform.
  What a tool does when it is run is an argument. The reader of \<open>tasklist\<close>'s text
  (\<open>memory/parse.rs\<close>) is here beside the question it answers. Paths join with \<open>/\<close>, which
  Windows reads too.
\<close>

section \<open>The platform\<close>

datatype platform = Linux | Macos | WindowsOs | OtherOs

record machine_env =
  me_platform :: platform
  me_is_file :: "string \<Rightarrow> bool"
  me_search_path :: "string list option"
  me_system_root :: "string option"
  me_program_files :: "string option"

definition exe_suffix :: "platform \<Rightarrow> string" where
  "exe_suffix p = (if p = WindowsOs then ''.exe'' else [])"

definition NVIDIA_SMI :: string where "NVIDIA_SMI = ''nvidia-smi''"

definition known_locations :: "machine_env \<Rightarrow> string list" where
  "known_locations en =
     (let executable = NVIDIA_SMI @ exe_suffix (me_platform en) in
      if me_platform en = WindowsOs then
        map (\<lambda>directory. path_join directory executable)
          ((case me_system_root en of None \<Rightarrow> [] | Some root \<Rightarrow> [path_join root ''System32''])
           @ (case me_program_files en of
                None \<Rightarrow> []
              | Some programs \<Rightarrow> [path_join (path_join programs ''NVIDIA Corporation'') ''NVSMI'']))
      else [path_join ''/usr/lib/wsl/lib'' executable])"

definition nvidia_smi :: "machine_env \<Rightarrow> string option" where
  "nvidia_smi en =
     (case on_search_path (me_is_file en) (me_search_path en)
             (NVIDIA_SMI @ exe_suffix (me_platform en)) of
        Some p \<Rightarrow> Some p
      | None \<Rightarrow> find (me_is_file en) (known_locations en))"

section \<open>Running one tool\<close>

definition TOOL_TIMEOUT :: duration where "TOOL_TIMEOUT = seconds 5"
definition POLL :: duration where "POLL = millis 20"

text \<open>
  One turn of the loop: what \<open>try_wait\<close> says of the tool -- that it exited, and whether
  happily, that it is still running, or that nobody can say -- and the time read when it is
  still running. A tool that is not waited for to its end is killed and reaped. However it
  ends, the reader is joined, which is over only when nothing holds the tool's output open:
  \<open>tr_pipe_ends\<close>, which a process the tool left behind can keep from coming.
\<close>

datatype tool_state = ToolExited bool | ToolRunning | ToolLost

record tool_poll =
  tp_state :: tool_state
  tp_now :: instant

record tool_run =
  tr_spawned :: bool
  tr_started :: instant
  tr_written :: string
  tr_polls :: "tool_poll list"
  tr_pipe_ends :: bool

text \<open>What the reader hands over: \<open>read_to_string\<close> keeps nothing of text that is not UTF-8.\<close>

definition read_text :: "string \<Rightarrow> string" where
  "read_text bytes = (if utf8_valid bytes then bytes else [])"

text \<open>
  The text, if any, and whether the tool was killed; \<open>None\<close> when the turns given run out, or
  when the reader is never done.
\<close>

fun output_loop :: "instant \<Rightarrow> string \<Rightarrow> tool_poll list \<Rightarrow> (string option \<times> bool) option" where
  "output_loop deadline said [] = None"
| "output_loop deadline said (p # ps) =
     (case tp_state p of
        ToolExited happily \<Rightarrow> Some (if happily then Some said else None, False)
      | ToolRunning \<Rightarrow>
          (if tp_now p < deadline then output_loop deadline said ps else Some (None, True))
      | ToolLost \<Rightarrow> Some (None, True))"

definition tool_output :: "tool_run \<Rightarrow> (string option \<times> bool) option" where
  "tool_output t =
     (if tr_spawned t then
        (case output_loop (tr_started t + TOOL_TIMEOUT) (read_text (tr_written t)) (tr_polls t) of
           None \<Rightarrow> None
         | Some out \<Rightarrow> if tr_pipe_ends t then Some out else None)
      else Some (None, False))"

section \<open>Which tool answers what\<close>

text \<open>A machine runs a program with its arguments and comes back with what \<open>output\<close> returned.\<close>

type_synonym runs = "string \<Rightarrow> string list \<Rightarrow> string option"

definition DEVICE_QUERY :: string where
  "DEVICE_QUERY = ''--query-gpu=memory.total,memory.used''"

definition PROCESS_QUERY :: string where
  "PROCESS_QUERY = ''--query-compute-apps=pid,used_memory''"

definition query :: "runs \<Rightarrow> string \<Rightarrow> string \<Rightarrow> string option" where
  "query run tool q = run tool [q, ''--format=csv,noheader,nounits'']"

definition KIB_PER_MIB :: u64 where "KIB_PER_MIB = 1024"
definition BYTES_PER_MIB :: u64 where "BYTES_PER_MIB = 1024 * 1024"

definition system_total_mib :: "platform \<Rightarrow> string option \<Rightarrow> runs \<Rightarrow> u64 option" where
  "system_total_mib p meminfo run =
     (case p of
        Linux \<Rightarrow> Option.bind meminfo meminfo_total
      | Macos \<Rightarrow> Option.bind (run ''sysctl'' [''-n'', ''hw.memsize'']) (\<lambda>t. scaled t BYTES_PER_MIB)
      | WindowsOs \<Rightarrow>
          Option.bind (run ''powershell'' [''-NoProfile'', ''-Command'',
              ''(Get-CimInstance Win32_ComputerSystem).TotalPhysicalMemory''])
            (\<lambda>t. scaled t BYTES_PER_MIB)
      | OtherOs \<Rightarrow> None)"

definition quote2 :: string where
  "quote2 = [CHR 0x22]"

definition trim_quotes :: "string \<Rightarrow> string" where
  "trim_quotes s =
     (let drop_front = dropWhile (\<lambda>c. c = CHR 0x22) in rev (drop_front (rev (drop_front s))))"

text \<open>\<open>rsplit\<close> at the quote, comma and quote between two fields, and what is after the last.\<close>

definition last_field :: "string \<Rightarrow> string" where
  "last_field l = (case rsplit_once (quote2 @ '','' @ quote2) l of None \<Rightarrow> l | Some (_, f) \<Rightarrow> f)"

definition tasklist_rss :: "string \<Rightarrow> u64 option" where
  "tasklist_rss s =
     (case find (starts_with quote2) (text_lines s) of
        None \<Rightarrow> None
      | Some l \<Rightarrow>
          (let field = trim_quotes (trim (last_field l));
               digits = filter is_digit field in
           if digits = [] \<or> \<not> ends_with ''K'' field then None
           else map_option (\<lambda>kib. kib div KIB_PER_MIB) (parse_u64 digits)))"

definition process_resident_mib :: "platform \<Rightarrow> u32 \<Rightarrow> runs \<Rightarrow> u64 option" where
  "process_resident_mib p pid run =
     (if p = WindowsOs then
        Option.bind (run ''tasklist'' [''/FI'', ''PID eq '' @ dec (unat pid), ''/FO'', ''CSV'', ''/NH''])
          tasklist_rss
      else
        Option.bind (run ''ps'' [''-o'', ''rss='', ''-p'', dec (unat pid)])
          (\<lambda>t. scaled t KIB_PER_MIB))"

section \<open>The probe\<close>

text \<open>
  \<open>Probe::Fixed\<close> is the record \<open>probe\<close> of \<open>Memory_Figures\<close>; \<open>Probe::Machine\<close> knows where the
  device tool is and runs the tools each time it is asked.
\<close>

datatype machine_probe = Fixed probe | Machine "string option"

definition probe_detect :: "machine_env \<Rightarrow> machine_probe" where
  "probe_detect en = Machine (nvidia_smi en)"

definition probe_device :: "machine_probe \<Rightarrow> runs \<Rightarrow> device_memory option" where
  "probe_device pr run =
     (case pr of
        Fixed f \<Rightarrow> p_device f
      | Machine tool \<Rightarrow>
          Option.bind tool (\<lambda>t. Option.bind (query run t DEVICE_QUERY) parse_device))"

definition probe_system_total ::
    "machine_probe \<Rightarrow> platform \<Rightarrow> string option \<Rightarrow> runs \<Rightarrow> u64 option" where
  "probe_system_total pr p meminfo run =
     (case pr of
        Fixed f \<Rightarrow> p_system_total_mib f
      | Machine _ \<Rightarrow> system_total_mib p meminfo run)"

definition probe_measure :: "machine_probe \<Rightarrow> platform \<Rightarrow> u32 \<Rightarrow> runs \<Rightarrow> measurement" where
  "probe_measure pr p pid run =
     (case pr of
        Fixed f \<Rightarrow> p_measurement f
      | Machine tool \<Rightarrow>
          \<lparr>resident_mib = process_resident_mib p pid run,
           measured_device_mib =
             Option.bind (Option.bind tool (\<lambda>t. query run t PROCESS_QUERY))
               (\<lambda>said. compute_apps said pid)\<rparr>)"

text \<open>What a probe comes to when the machine answers the same throughout.\<close>

definition answered_by :: "machine_probe \<Rightarrow> platform \<Rightarrow> string option \<Rightarrow> u32 \<Rightarrow> runs \<Rightarrow> probe" where
  "answered_by pr p meminfo pid run =
     \<lparr>p_device = probe_device pr run, p_system_total_mib = probe_system_total pr p meminfo run,
      p_measurement = probe_measure pr p pid run\<rparr>"

section \<open>A tool's run is bounded\<close>

definition tool_turn :: "instant \<Rightarrow> string \<Rightarrow> tool_poll \<Rightarrow> unit \<Rightarrow> unit + string option \<times> bool" where
  "tool_turn deadline said p u =
     (case tp_state p of
        ToolExited happily \<Rightarrow> Inr (if happily then Some said else None, False)
      | ToolRunning \<Rightarrow> if tp_now p < deadline then Inl () else Inr (None, True)
      | ToolLost \<Rightarrow> Inr (None, True))"

interpretation tool: turn_loop "\<lambda>ps u. output_loop deadline said ps" "\<lambda>u. None" "tool_turn deadline said"
    for deadline said
  by unfold_locales (auto simp: tool_turn_def split: tool_state.split)

lemma output_loop_past:
  assumes "p \<in> set ps" and "tp_state p \<noteq> ToolRunning \<or> deadline \<le> tp_now p"
  shows "\<exists>r. output_loop deadline said ps = Some r"
  using assms(2) by (intro tool.decided [OF assms(1)]) (auto simp: tool_turn_def split: tool_state.split)

text \<open>
  How a run ends: turns that found the tool running in time, then the turn that decided, with a
  text only from a tool that exited happily, and the tool killed exactly when it had not exited.
\<close>

lemma output_loop_ends:
  assumes "output_loop deadline said ps = Some (r, killed)"
  shows "\<exists>us p vs. ps = us @ p # vs \<and>
    list_all (\<lambda>q. tp_state q = ToolRunning \<and> tp_now q < deadline) us \<and>
    (r = (if tp_state p = ToolExited True then Some said else None)) \<and>
    (killed \<longleftrightarrow> tp_state p = ToolLost \<or> (tp_state p = ToolRunning \<and> deadline \<le> tp_now p)) \<and>
    (killed \<or> (\<exists>h. tp_state p = ToolExited h))"
proof -
  let ?P = "\<lambda>us u. list_all (\<lambda>q. tp_state q = ToolRunning \<and> tp_now q < deadline) us"
  obtain us p vs u where "ps = us @ p # vs" "?P us ()" "tool_turn deadline said p u = Inr (r, killed)"
    by (rule tool.decided_by [OF assms refl, of ?P])
      (auto simp: tool_turn_def split: tool_state.splits if_splits)
  then show ?thesis
    by (intro exI [of _ us] exI [of _ p] exI [of _ vs])
      (auto simp: tool_turn_def split: tool_state.splits if_splits)
qed

text \<open>Turns a poll apart pass the timeout by their two hundred and fifty-first.\<close>

definition paced :: "instant \<Rightarrow> tool_poll list \<Rightarrow> bool" where
  "paced started ps \<longleftrightarrow> (\<forall>i < length ps. started + i * POLL \<le> tp_now (ps ! i))"

lemma turns_enough: "250 * POLL = TOOL_TIMEOUT"
  by (simp add: POLL_def TOOL_TIMEOUT_def seconds_def millis_def)

lemma paced_passes:
  assumes "paced started ps" and "250 < length ps"
  shows "\<exists>p \<in> set ps. started + TOOL_TIMEOUT \<le> tp_now p"
  using assms turns_enough unfolding paced_def by (metis nth_mem)

lemma paced_prefix: "paced started (us @ vs) \<Longrightarrow> paced started us"
  unfolding paced_def
  by (intro allI impI) (metis nth_append length_append trans_less_add1)

lemma output_loop_calls:
  assumes "paced started ps" and "250 < length ps"
  shows "\<exists>r. output_loop (started + TOOL_TIMEOUT) said ps = Some r"
proof -
  obtain p where "p \<in> set ps" "started + TOOL_TIMEOUT \<le> tp_now p"
    using paced_passes [OF assms] by blast
  then show ?thesis by (intro output_loop_past [of p]) auto
qed

text \<open>C27: A tool is asked for at most five seconds, provided that its output ends once it has
  exited or been killed, that is, nothing it leaves behind holds it open: then a run whose
  turns are a poll apart has ended by its two hundred and fifty-first, with the text of a tool
  that exited happily or with nothing, and a tool that had not exited by then is killed. While
  something does hold the output open, killing the tool does not end the run.\<close>

theorem tool_run_is_bounded:
  assumes "paced (tr_started t) (tr_polls t)" and "250 < length (tr_polls t)"
  shows "(tr_pipe_ends t \<longrightarrow> (\<exists>r killed. tool_output t = Some (r, killed) \<and> \<not> (killed \<and> r \<noteq> None) \<and>
    (tr_spawned t \<longrightarrow> (\<exists>us p vs. tr_polls t = us @ p # vs \<and> length us \<le> 250 \<and>
       list_all (\<lambda>q. tp_state q = ToolRunning) us \<and>
       r = (if tp_state p = ToolExited True then Some (read_text (tr_written t)) else None) \<and>
       (killed \<longleftrightarrow> (\<forall>h. tp_state p \<noteq> ToolExited h)))))) \<and>
    (tr_spawned t \<and> \<not> tr_pipe_ends t \<longrightarrow> tool_output t = None)"
proof (cases "tr_spawned t")
  case False
  then show ?thesis by (auto simp: tool_output_def)
next
  case True
  let ?d = "tr_started t + TOOL_TIMEOUT"
  obtain r killed where run: "output_loop ?d (read_text (tr_written t)) (tr_polls t) = Some (r, killed)"
    using output_loop_calls [OF assms] by fastforce
  obtain us p vs where ends: "tr_polls t = us @ p # vs"
    "list_all (\<lambda>q. tp_state q = ToolRunning \<and> tp_now q < ?d) us"
    "r = (if tp_state p = ToolExited True then Some (read_text (tr_written t)) else None)"
    "killed \<longleftrightarrow> tp_state p = ToolLost \<or> (tp_state p = ToolRunning \<and> ?d \<le> tp_now p)"
    "killed \<or> (\<exists>h. tp_state p = ToolExited h)"
    using output_loop_ends [OF run] by blast
  have "length us \<le> 250"
  proof (rule ccontr)
    assume "\<not> length us \<le> 250"
    then have "250 < length us" by simp
    moreover have "paced (tr_started t) us"
      using assms(1) ends(1) by (simp add: paced_prefix)
    ultimately obtain q where "q \<in> set us" "?d \<le> tp_now q"
      using paced_passes [of "tr_started t" us] by blast
    with ends(2) show False by (auto simp: list_all_iff)
  qed
  moreover have "list_all (\<lambda>q. tp_state q = ToolRunning) us"
    using ends(2) by (simp add: list_all_iff)
  moreover have "killed \<longleftrightarrow> (\<forall>h. tp_state p \<noteq> ToolExited h)"
    using ends(4,5) by (cases "tp_state p") auto
  moreover from this have "\<not> (killed \<and> r \<noteq> None)" using ends(3) by auto
  moreover have "tool_output t = (if tr_pipe_ends t then Some (r, killed) else None)"
    using True run by (simp add: tool_output_def)
  ultimately show ?thesis using ends(1,3) by (simp only: if_True if_False) auto
qed

theorem tool_run_is_bounded_witness:
  "\<exists>r killed. tool_output \<lparr>tr_spawned = True, tr_started = 7, tr_written = ''24576, 100'',
     tr_polls = map (\<lambda>i. \<lparr>tp_state = ToolRunning, tp_now = 7 + i * POLL\<rparr>) [0..<251], tr_pipe_ends = True\<rparr> = Some (r, killed)"
proof -
  let ?t = "\<lparr>tr_spawned = True, tr_started = 7, tr_written = ''24576, 100'',
     tr_polls = map (\<lambda>i. \<lparr>tp_state = ToolRunning, tp_now = 7 + i * POLL\<rparr>) [0..<251], tr_pipe_ends = True\<rparr>"
  have "paced (tr_started ?t) (tr_polls ?t)" by (simp add: paced_def)
  moreover have "250 < length (tr_polls ?t)" by simp
  moreover have "tr_pipe_ends ?t" by simp
  ultimately show ?thesis using tool_run_is_bounded [of ?t] by meson
qed

end
