(* ===== verification/Catalog_Read.thy ===== *)
theory Catalog_Read
  imports Catalog_Entry
begin

text \<open>
  Reading a catalog's text: \<open>catalog/field.rs\<close>, \<open>catalog/read.rs\<close> and \<open>Catalog::parse\<close> of
  \<open>catalog/listing.rs\<close>. The TOML library is a parameter that turns text into a table or an
  error; a table is an association list in key order, as \<open>toml::Table\<close> iterates. Every
  reader returns what it read and the problems it reports, in the order the code pushes them.
\<close>

section \<open>TOML values\<close>

datatype toml = TStr string | TInt int | TTable "(string \<times> toml) list" | TOther

type_synonym table = "(string \<times> toml) list"
type_synonym 'a noted = "'a \<times> string list"

definition dec_int :: "int \<Rightarrow> string" where
  "dec_int n = (if n < 0 then ''-'' @ dec (nat (- n)) else dec (nat n))"

section \<open>Fields\<close>

definition problem :: "string \<Rightarrow> string \<Rightarrow> string \<Rightarrow> string" where
  "problem scope field complaint = scope @ '': field '' @ quoted field @ '' '' @ complaint"

definition report_unknown :: "table \<Rightarrow> string list \<Rightarrow> string \<Rightarrow> string list" where
  "report_unknown tbl known scope =
     map (\<lambda>key. problem scope key ''is not recognised'')
       (filter (\<lambda>key. key \<notin> set known) (map fst tbl))"

definition table_at :: "table \<Rightarrow> string \<Rightarrow> string \<Rightarrow> table option noted" where
  "table_at tbl scope field =
     (case map_of tbl field of
        None \<Rightarrow> (None, [])
      | Some (TTable inner) \<Rightarrow> (Some inner, [])
      | Some _ \<Rightarrow> (None, [problem scope field ''must be a table'']))"

definition optional_field ::
    "table \<Rightarrow> string \<Rightarrow> string \<Rightarrow> (toml \<Rightarrow> string + 'a) \<Rightarrow> 'a option noted" where
  "optional_field tbl scope field conv =
     (case map_of tbl field of
        None \<Rightarrow> (None, [])
      | Some v \<Rightarrow>
          (case conv v of
             Inr x \<Rightarrow> (Some x, [])
           | Inl complaint \<Rightarrow> (None, [problem scope field complaint])))"

definition required_field ::
    "table \<Rightarrow> string \<Rightarrow> string \<Rightarrow> (toml \<Rightarrow> string + 'a) \<Rightarrow> 'a option noted" where
  "required_field tbl scope field conv =
     (if map_of tbl field = None then (None, [problem scope field ''is required''])
      else optional_field tbl scope field conv)"

definition as_text :: "toml \<Rightarrow> string + string" where
  "as_text v = (case v of TStr s \<Rightarrow> Inr s | _ \<Rightarrow> Inl ''must be a string'')"

definition as_positive :: "toml \<Rightarrow> string + u32" where
  "as_positive v =
     (case v of
        TInt n \<Rightarrow>
          (if 0 < n \<and> n < 2 ^ 32 then Inr (of_int n)
           else Inl (''must be greater than zero, but is '' @ dec_int n))
      | _ \<Rightarrow> Inl ''must be a whole number'')"

definition as_residency :: "toml \<Rightarrow> string + residency" where
  "as_residency v =
     (case as_text v of
        Inl c \<Rightarrow> Inl c
      | Inr text \<Rightarrow>
          (case residency_parse text of
             Some r \<Rightarrow> Inr r
           | None \<Rightarrow> Inl (''must be one of '' @ join '' or '' residency_names
               @ '', but is '' @ quoted text)))"

definition runtime_char :: "char \<Rightarrow> bool" where
  "runtime_char c = (is_lower c \<or> is_digit c \<or> c = CHR ''-'')"

definition as_runtime :: "toml \<Rightarrow> string + string" where
  "as_runtime v =
     (case as_text v of
        Inl c \<Rightarrow> Inl c
      | Inr text \<Rightarrow>
          (if text \<noteq> [] \<and> list_all runtime_char text then Inr text
           else Inl (''must be lowercase letters, digits and hyphens, because it names ''
             @ ''a binary beside llama-server, but is '' @ quoted text)))"

definition as_location :: "toml \<Rightarrow> string + relative_path" where
  "as_location v = (case as_text v of Inl c \<Rightarrow> Inl c | Inr text \<Rightarrow> relative_path_new text)"

text \<open>The flags table, inserted key by key into an ordered map.\<close>

fun flag_list :: "string \<Rightarrow> table \<Rightarrow> string tree \<Rightarrow> string tree noted" where
  "flag_list scope [] out = (out, [])"
| "flag_list scope ((key, v) # rest) out =
     (case as_text v of
        Inr text \<Rightarrow> flag_list scope rest (tree_insert key text out)
      | Inl _ \<Rightarrow>
          (case flag_list scope rest out of
             (out', ps) \<Rightarrow> (out', problem scope ''flags''
               (''carries '' @ quoted key @ '', which must be a string'') # ps)))"

definition flags_of :: "table \<Rightarrow> string \<Rightarrow> string tree noted" where
  "flags_of tbl scope =
     (case table_at tbl scope ''flags'' of
        (None, ps) \<Rightarrow> ([], ps)
      | (Some inner, ps) \<Rightarrow> (case flag_list scope inner [] of (out, qs) \<Rightarrow> (out, ps @ qs)))"

section \<open>Defaults\<close>

definition ENTRY_FIELDS :: "string list" where
  "ENTRY_FIELDS =
     [''path'', ''draft_path'', ''projector_path'', ''context_size'', ''residency'',
      ''memory_estimate_mib'', ''reasoning_format'', ''runtime'', ''reasoning_effort'',
      ''startup_timeout_seconds'', ''flags'']"

definition DEFAULT_FIELDS :: "string list" where
  "DEFAULT_FIELDS =
     [''context_size'', ''residency'', ''memory_estimate_mib'', ''reasoning_format'',
      ''runtime'', ''reasoning_effort'', ''startup_timeout_seconds'', ''flags'']"

definition DEFAULT_STARTUP_TIMEOUT_SECONDS :: u32 where
  "DEFAULT_STARTUP_TIMEOUT_SECONDS = 300"

definition DEFAULTS_SCOPE :: string where
  "DEFAULTS_SCOPE = ''catalog defaults''"

record defaults =
  df_context_size :: "u32 option"
  df_residency :: "residency option"
  df_memory_estimate_mib :: "u32 option"
  df_reasoning_format :: "string option"
  df_runtime :: "string option"
  df_reasoning_effort :: "string option"
  df_startup_timeout_seconds :: "u32 option"
  df_flags :: "string tree"

definition defaults_none :: defaults where
  "defaults_none =
     \<lparr>df_context_size = None, df_residency = None, df_memory_estimate_mib = None,
      df_reasoning_format = None, df_runtime = None, df_reasoning_effort = None,
      df_startup_timeout_seconds = None, df_flags = []\<rparr>"

definition version_of :: "table \<Rightarrow> u32 option noted" where
  "version_of tbl = required_field tbl ''catalog'' ''version'' as_positive"

definition defaults_of :: "table \<Rightarrow> defaults noted" where
  "defaults_of tbl =
     (case table_at tbl ''catalog'' ''defaults'' of
        (None, ps) \<Rightarrow> (defaults_none, ps)
      | (Some inner, ps) \<Rightarrow>
          (let unknown = report_unknown inner DEFAULT_FIELDS DEFAULTS_SCOPE;
               (cs, p1) = optional_field inner DEFAULTS_SCOPE ''context_size'' as_positive;
               (rs, p2) = optional_field inner DEFAULTS_SCOPE ''residency'' as_residency;
               (me, p3) = optional_field inner DEFAULTS_SCOPE ''memory_estimate_mib'' as_positive;
               (rf, p4) = optional_field inner DEFAULTS_SCOPE ''reasoning_format'' as_text;
               (rt, p5) = optional_field inner DEFAULTS_SCOPE ''runtime'' as_runtime;
               (re, p6) = optional_field inner DEFAULTS_SCOPE ''reasoning_effort'' as_text;
               (st, p7) = optional_field inner DEFAULTS_SCOPE ''startup_timeout_seconds'' as_positive;
               (fl, p8) = flags_of inner DEFAULTS_SCOPE in
           (\<lparr>df_context_size = cs, df_residency = rs, df_memory_estimate_mib = me,
             df_reasoning_format = rf, df_runtime = rt, df_reasoning_effort = re,
             df_startup_timeout_seconds = st, df_flags = fl\<rparr>,
            ps @ unknown @ p1 @ p2 @ p3 @ p4 @ p5 @ p6 @ p7 @ p8)))"

section \<open>Entries\<close>

definition settled :: "table \<Rightarrow> u32 option \<Rightarrow> string \<Rightarrow> string \<Rightarrow> string list" where
  "settled tbl v scope field =
     (if v = None \<and> map_of tbl field = None
      then [problem scope field ''is required, and no default supplies it''] else [])"

definition entry_scope :: "string \<Rightarrow> string" where
  "entry_scope i = ''entry '' @ quoted i"

record draft =
  dr_entry :: "entry option"
  dr_undeclared :: bool
  dr_problems :: "string list"

definition draft_of :: "string \<Rightarrow> toml \<Rightarrow> defaults \<Rightarrow> draft" where
  "draft_of i v df =
     (let scope = entry_scope i in
      case v of
        TTable tbl \<Rightarrow>
          (let unknown = report_unknown tbl ENTRY_FIELDS scope;
               (own, p1) = flags_of tbl scope;
               (pth, p2) = required_field tbl scope ''path'' as_location;
               (dp, p3) = optional_field tbl scope ''draft_path'' as_location;
               (pp, p4) = optional_field tbl scope ''projector_path'' as_location;
               (cs0, p5) = optional_field tbl scope ''context_size'' as_positive;
               cs = or_else cs0 (df_context_size df);
               p6 = settled tbl cs scope ''context_size'';
               (me0, p7) = optional_field tbl scope ''memory_estimate_mib'' as_positive;
               me = or_else me0 (df_memory_estimate_mib df);
               (rs0, p8) = optional_field tbl scope ''residency'' as_residency;
               (rf0, p9) = optional_field tbl scope ''reasoning_format'' as_text;
               (rt0, p10) = optional_field tbl scope ''runtime'' as_runtime;
               (re0, p11) = optional_field tbl scope ''reasoning_effort'' as_text;
               (st0, p12) = optional_field tbl scope ''startup_timeout_seconds'' as_positive in
           \<lparr>dr_entry =
              (case (pth, cs) of
                 (Some p, Some n) \<Rightarrow>
                   Some \<lparr>e_id = i, e_path = p, e_draft_path = dp, e_projector_path = pp,
                     e_context_size = n,
                     e_residency = (case or_else rs0 (df_residency df) of
                        None \<Rightarrow> OnDemand | Some r \<Rightarrow> r),
                     e_memory_estimate_mib = (case me of None \<Rightarrow> 0 | Some m \<Rightarrow> m),
                     e_reasoning_format = or_else rf0 (df_reasoning_format df),
                     e_reasoning_effort = or_else re0 (df_reasoning_effort df),
                     e_startup_timeout_seconds =
                       (case or_else st0 (df_startup_timeout_seconds df) of
                          None \<Rightarrow> DEFAULT_STARTUP_TIMEOUT_SECONDS | Some t \<Rightarrow> t),
                     e_runtime = or_else rt0 (df_runtime df),
                     e_flags = tree_extend (df_flags df) own\<rparr>
               | _ \<Rightarrow> None),
            dr_undeclared = (me = None),
            dr_problems = unknown @ p1 @ p2 @ p3 @ p4 @ p5 @ p6 @ p7 @ p8 @ p9 @ p10 @ p11 @ p12\<rparr>)
      | _ \<Rightarrow> \<lparr>dr_entry = None, dr_undeclared = False, dr_problems = [scope @ '': must be a table'']\<rparr>)"

section \<open>Catalogs\<close>

record drafts =
  ds_version :: "u32 option"
  ds_defaults :: defaults
  ds_entries :: "entry list"
  ds_undeclared :: "string list"
  ds_problems :: "string list"

definition model_drafts :: "table \<Rightarrow> defaults \<Rightarrow> (string \<times> draft) list" where
  "model_drafts models df = map (\<lambda>(i, v). (i, draft_of i v df)) models"

definition entries_of ::
    "table \<Rightarrow> defaults \<Rightarrow> entry list \<times> string list \<times> string list" where
  "entries_of tbl df =
     (if map_of tbl ''models'' = None
      then ([], [], [problem ''catalog'' ''models'' ''is required''])
      else
        (case table_at tbl ''catalog'' ''models'' of
           (None, ps) \<Rightarrow> ([], [], ps)
         | (Some models, ps) \<Rightarrow>
             (let ds = model_drafts models df in
              (List.map_filter (\<lambda>(i, d). dr_entry d) ds,
               map fst (filter (\<lambda>(i, d). dr_undeclared d) ds),
               ps @ concat (map (\<lambda>(i, d). dr_problems d) ds)))))"

definition drafts_of :: "(string \<Rightarrow> string + table) \<Rightarrow> string \<Rightarrow> string list + drafts" where
  "drafts_of toml text =
     (case toml text of
        Inl err \<Rightarrow> Inl [''the catalog is not valid TOML: '' @ err]
      | Inr tbl \<Rightarrow>
          (let (v, p1) = version_of tbl;
               (df, p2) = defaults_of tbl;
               (es, un, p3) = entries_of tbl df in
           Inr \<lparr>ds_version = v, ds_defaults = df, ds_entries = es, ds_undeclared = un,
                ds_problems = p1 @ p2 @ p3\<rparr>))"

definition undeclared_problem :: "string \<Rightarrow> string" where
  "undeclared_problem i =
     problem (entry_scope i) ''memory_estimate_mib'' ''is required, and no default supplies it''"

definition catalog_parse ::
    "(string \<Rightarrow> string + table) \<Rightarrow> string \<Rightarrow> string list + catalog" where
  "catalog_parse toml text =
     (case drafts_of toml text of
        Inl ps \<Rightarrow> Inl ps
      | Inr ds \<Rightarrow>
          (let ps = ds_problems ds @ map undeclared_problem (ds_undeclared ds) in
           if ps = [] then
             Inr \<lparr>c_version = (case ds_version ds of None \<Rightarrow> 0 | Some v \<Rightarrow> v),
                  c_entries = ds_entries ds, c_derived = {}, c_discovered = {}\<rparr>
           else Inl ps))"

text \<open>\<open>Report\<close>'s text: one problem a line.\<close>

definition report_text :: "string list \<Rightarrow> string" where
  "report_text ps = join [CHR 0x0A] ps"

end
