(* ===== verification/Bench.thy ===== *)
theory Bench
  imports Launch_Facts Memory_Tools Catalog_Read
begin

text \<open>
  The \<open>bench\<close> command, \<open>bench/measure.rs\<close>, \<open>bench/report.rs\<close> and how \<open>bench/rate.rs\<close>
  addresses an entry: one entry after another started, measured and stopped, the table of what
  was found, and the estimates it supports with the date they were measured on. Rates and load
  times arrive as the text they are printed as; \<open>Bench_Rate\<close> says where a rate comes from.
\<close>

section \<open>The date\<close>

definition leap :: "nat \<Rightarrow> bool" where
  "leap y = ((y mod 4 = 0 \<and> y mod 100 \<noteq> 0) \<or> y mod 400 = 0)"

definition year_length :: "nat \<Rightarrow> nat" where
  "year_length y = (if leap y then 366 else 365)"

function year_from :: "nat \<Rightarrow> nat \<Rightarrow> nat \<times> nat" where
  "year_from y remaining =
     (if remaining < year_length y then (y, remaining)
      else year_from (y + 1) (remaining - year_length y))"
  by pat_completeness auto
termination
  by (relation "measure snd") (auto simp: year_length_def split: if_splits)

declare year_from.simps [simp del]

definition month_lengths :: "nat \<Rightarrow> nat list" where
  "month_lengths y = [31, if leap y then 29 else 28, 31, 30, 31, 30, 31, 31, 30, 31, 30, 31]"

fun month_from :: "nat list \<Rightarrow> nat \<Rightarrow> nat \<times> nat" where
  "month_from [] remaining = (0, remaining)"
| "month_from (l # ls) remaining =
     (if remaining < l then (0, remaining)
      else case month_from ls (remaining - l) of (m, r) \<Rightarrow> (m + 1, r))"

definition civil_of :: "nat \<Rightarrow> nat \<times> nat \<times> nat" where
  "civil_of secs =
     (case year_from 1970 (secs div 86400) of
        (y, r) \<Rightarrow> (case month_from (month_lengths y) r of (m, d) \<Rightarrow> (y, m + 1, d + 1)))"

definition date_of :: "nat \<Rightarrow> string" where
  "date_of secs =
     (case civil_of secs of
        (y, m, d) \<Rightarrow> zero_padded 4 y @ ''-'' @ zero_padded 2 m @ ''-'' @ zero_padded 2 d)"

text \<open>The calendar the date is read against: the days before a date, in closed form.\<close>

definition days_before_year :: "nat \<Rightarrow> nat" where
  "days_before_year y = 365 * y + (y - 1) div 4 - (y - 1) div 100 + (y - 1) div 400"

definition valid_date :: "nat \<Rightarrow> nat \<Rightarrow> nat \<Rightarrow> bool" where
  "valid_date y m d \<longleftrightarrow> 1970 \<le> y \<and> 1 \<le> m \<and> m \<le> 12 \<and> 1 \<le> d \<and> d \<le> month_lengths y ! (m - 1)"

definition days_since_epoch :: "nat \<Rightarrow> nat \<Rightarrow> nat \<Rightarrow> nat" where
  "days_since_epoch y m d =
     days_before_year y - days_before_year 1970 + sum_list (take (m - 1) (month_lengths y)) + (d - 1)"

lemma div_step: "0 < k \<Longrightarrow> 0 < y \<Longrightarrow> (y :: nat) div k = (y - 1) div k + (if y mod k = 0 then 1 else 0)"
  by (cases y) (auto simp: div_Suc mod_Suc)

lemma days_before_next:
  assumes "0 < y"
  shows "days_before_year (y + 1) = days_before_year y + year_length y"
proof -
  define a b c where "a = (y - 1) div 4" and "b = (y - 1) div 100" and "c = (y - 1) div 400"
  have le: "b \<le> a" unfolding a_def b_def by (intro div_le_mono2) simp_all
  have steps: "y div 4 = a + (if y mod 4 = 0 then 1 else 0)"
    "y div 100 = b + (if y mod 100 = 0 then 1 else 0)"
    "y div 400 = c + (if y mod 400 = 0 then 1 else 0)"
    unfolding a_def b_def c_def using assms by (simp_all only: div_step)
  have mods: "y mod 100 = 0 \<Longrightarrow> y mod 4 = 0" "y mod 400 = 0 \<Longrightarrow> y mod 100 = 0"
    using mod_mod_cancel [of 4 100 y] mod_mod_cancel [of 100 400 y] by simp_all
  have now: "days_before_year y = 365 * y + a - b + c"
    by (simp add: days_before_year_def a_def b_def c_def)
  have "days_before_year (y + 1) = 365 * (y + 1) + y div 4 - y div 100 + y div 400"
    by (simp add: days_before_year_def)
  also have "\<dots> = 365 * y + a - b + c + year_length y"
    unfolding steps year_length_def leap_def using le mods
    by (simp split: if_split) (intro conjI impI; linarith)
  finally show ?thesis using now by simp
qed

lemma days_before_mono:
  assumes "0 < y"
  shows "days_before_year y \<le> days_before_year (y + n)"
proof (induction n)
  case (Suc n)
  then show ?case using days_before_next [of "y + n"] assms by simp
qed simp

lemma year_from_days:
  assumes "0 < y"
  shows "year_from y r = (y', r') \<Longrightarrow>
    y \<le> y' \<and> r' < year_length y' \<and> days_before_year y' + r' = days_before_year y + r"
  using assms
proof (induction y r rule: year_from.induct)
  case (1 y r)
  show ?case
  proof (cases "r < year_length y")
    case True
    with 1(2) show ?thesis by (simp add: year_from.simps [of y r])
  next
    case False
    with 1 show ?thesis
      using days_before_next [of y] by (force simp: year_from.simps [of y r])
  qed
qed

lemma year_from_back:
  assumes "0 < y" and "r < year_length (y + n)"
  shows "year_from y (days_before_year (y + n) - days_before_year y + r) = (y + n, r)"
  using assms
proof (induction n arbitrary: y)
  case 0
  then show ?case by (simp add: year_from.simps [of y])
next
  case (Suc n)
  have mono: "days_before_year (y + 1) \<le> days_before_year (y + 1 + n)"
    using days_before_mono [of "y + 1"] by simp
  let ?r = "days_before_year (y + Suc n) - days_before_year y + r"
  have eq: "?r - year_length y = days_before_year (y + 1 + n) - days_before_year (y + 1) + r"
    "\<not> ?r < year_length y"
    using mono days_before_next [OF Suc.prems(1)] by simp_all
  have "year_from (y + 1) (days_before_year (y + 1 + n) - days_before_year (y + 1) + r) = (y + 1 + n, r)"
    using Suc.prems by (intro Suc.IH) simp_all
  then show ?case using eq by (subst year_from.simps) (simp only: if_False eq add_Suc_right add_Suc add.right_neutral One_nat_def)
qed

lemma sum_month_lengths: "sum_list (month_lengths y) = year_length y"
  by (simp add: month_lengths_def year_length_def)

lemma month_from_days:
  "month_from ls r = (m, d) \<Longrightarrow> r < sum_list ls \<Longrightarrow>
     m < length ls \<and> d < ls ! m \<and> sum_list (take m ls) + d = r"
proof (induction ls r arbitrary: m d rule: month_from.induct)
  case (2 l ls r)
  then show ?case by (fastforce split: if_splits prod.splits)
qed simp

lemma month_from_back:
  "m < length ls \<Longrightarrow> d < ls ! m \<Longrightarrow> month_from ls (sum_list (take m ls) + d) = (m, d)"
proof (induction ls arbitrary: m)
  case (Cons l ls)
  then show ?case by (cases m) auto
qed simp

lemma civil_of_days:
  assumes "civil_of secs = (y, m, d)"
  shows "valid_date y m d" and "days_since_epoch y m d = secs div 86400"
proof -
  obtain r where yr: "year_from 1970 (secs div 86400) = (y, r)"
    and md: "month_from (month_lengths y) r = (m - 1, d - 1)" and pos: "1 \<le> m" "1 \<le> d"
    using assms by (auto simp: civil_of_def split: prod.splits)
  have y: "1970 \<le> y" "r < year_length y" "days_before_year y + r = days_before_year 1970 + secs div 86400"
    using year_from_days [OF _ yr] by simp_all
  have m: "m - 1 < 12" "d - 1 < month_lengths y ! (m - 1)"
    "sum_list (take (m - 1) (month_lengths y)) + (d - 1) = r"
    using month_from_days [OF md] y(2) by (simp_all add: sum_month_lengths) (simp add: month_lengths_def)
  show "valid_date y m d" using y(1) m pos by (auto simp: valid_date_def)
  have "days_before_year 1970 \<le> days_before_year y"
    using days_before_mono [of 1970 "y - 1970"] y(1) by simp
  then show "days_since_epoch y m d = secs div 86400" using y(3) m(3) by (simp add: days_since_epoch_def)
qed

lemma civil_of_back:
  assumes "valid_date y m d" and "x < 86400"
  shows "civil_of (86400 * days_since_epoch y m d + x) = (y, m, d)"
proof -
  let ?ls = "month_lengths y" and ?r = "sum_list (take (m - 1) (month_lengths y)) + (d - 1)"
  have v: "1970 \<le> y" "1 \<le> m" "m - 1 < length ?ls" "1 \<le> d" "d - 1 < ?ls ! (m - 1)"
    using assms(1) by (auto simp: valid_date_def month_lengths_def)
  have "sum_list ?ls = sum_list (take (m - 1) ?ls) + ?ls ! (m - 1) + sum_list (drop m ?ls)"
    using id_take_nth_drop [OF v(3)] v(2) by (metis Suc_diff_le add.assoc diff_Suc_1 One_nat_def
        sum_list.append sum_list.Cons)
  then have "?r < year_length y" using v(5) by (simp add: sum_month_lengths)
  then have "year_from 1970 (days_before_year y - days_before_year 1970 + ?r) = (y, ?r)"
    using year_from_back [of 1970 ?r "y - 1970"] v(1) by simp
  moreover have "month_from ?ls ?r = (m - 1, d - 1)" using v(3,5) by (rule month_from_back)
  moreover have "(86400 * days_since_epoch y m d + x) div 86400 = days_since_epoch y m d"
    using assms(2) by simp
  ultimately show ?thesis using v(2,4) by (simp add: civil_of_def days_since_epoch_def add.assoc)
qed

text \<open>The date written beside a measurement is the Gregorian date of its second: exactly the
  valid date that has as many days before it, by the calendar's closed form, as the second has.\<close>

lemma dates_are_civil:
  "(civil_of secs = (y, m, d) \<longleftrightarrow> valid_date y m d \<and> days_since_epoch y m d = secs div 86400) \<and>
   (\<exists>y m d. date_of secs = zero_padded 4 y @ ''-'' @ zero_padded 2 m @ ''-'' @ zero_padded 2 d \<and>
      valid_date y m d \<and> days_since_epoch y m d = secs div 86400)"
proof (intro conjI iffI)
  assume "valid_date y m d \<and> days_since_epoch y m d = secs div 86400"
  then show "civil_of secs = (y, m, d)"
    using civil_of_back [of y m d "secs mod 86400"] by simp
next
  obtain a b c where "civil_of secs = (a, b, c)" by (cases "civil_of secs")
  with civil_of_days [OF this] show "\<exists>y m d.
      date_of secs = zero_padded 4 y @ ''-'' @ zero_padded 2 m @ ''-'' @ zero_padded 2 d \<and>
      valid_date y m d \<and> days_since_epoch y m d = secs div 86400"
    by (auto simp: date_of_def)
qed (use civil_of_days in auto)

section \<open>What a measurement supports\<close>

definition div_ceil :: "u32 \<Rightarrow> u32 \<Rightarrow> u32" where
  "div_ceil a b = (if a mod b = 0 then a div b else a div b + 1)"

record bench_measurement =
  bm_id :: string
  bm_declared_mib :: u32
  bm_measured_mib :: "u32 option"
  bm_load :: string
  bm_throughput :: "string option"

definition recommended_mib :: "bench_measurement \<Rightarrow> u32 option" where
  "recommended_mib b =
     map_option (\<lambda>measured. div_ceil (measured + measured div 20) 256 * 256) (bm_measured_mib b)"

lemma step_above:
  fixes x q r :: nat
  assumes "x = q * 256 + r" and "r < 256"
  shows "x \<le> (q + (if r = 0 then 0 else 1)) * 256" "(q + (if r = 0 then 0 else 1)) * 256 < x + 256"
  using assms by auto

text \<open>Below the last twentieth of the type, room over it is room: no more than a step above.\<close>

lemma recommended_exact:
  assumes "bm_measured_mib b = Some m" and "unat m < 2 ^ 31"
  shows "\<exists>r. recommended_mib b = Some r \<and> unat m + unat m div 20 \<le> unat r \<and>
    unat r < unat m + unat m div 20 + 256 \<and> unat r mod 256 = 0"
proof -
  let ?w = "m + m div 20"
  have w: "unat ?w = unat m + unat m div 20"
    using assms(2) by (simp add: unat_word_ariths unat_div_distrib)
  have zero: "?w mod 256 = 0 \<longleftrightarrow> unat ?w mod 256 = 0"
    by (simp add: unat_mod_distrib flip: unat_eq_zero)
  have up: "unat (?w div 256 + 1) = unat ?w div 256 + 1"
    using w assms(2) by (simp add: unat_word_ariths unat_div_distrib)
  have steps: "unat (div_ceil ?w 256) = unat ?w div 256 + (if unat ?w mod 256 = 0 then 0 else 1)"
    using up by (simp add: div_ceil_def zero unat_div_distrib)
  have "unat (div_ceil ?w 256 * 256) = unat (div_ceil ?w 256) * 256"
    using steps w assms(2) by (simp add: unat_word_ariths)
  then have "unat (div_ceil ?w 256 * 256) = (unat ?w div 256 + (if unat ?w mod 256 = 0 then 0 else 1)) * 256"
    by (simp only: steps)
  with step_above [of "unat ?w" "unat ?w div 256" "unat ?w mod 256"] have "unat ?w \<le> unat (div_ceil ?w 256 * 256)"
    "unat (div_ceil ?w 256 * 256) < unat ?w + 256" "unat (div_ceil ?w 256 * 256) mod 256 = 0"
    by (simp_all only: div_mult_mod_eq mod_mult_self2_is_0 mod_less_divisor zero_less_numeral refl)
  with w show ?thesis using assms(1) by (simp add: recommended_mib_def)
qed

section \<open>Measuring one entry\<close>

text \<open>\<open>u64::checked_sub\<close>, and nothing gained is nothing known.\<close>

definition grown :: "u64 \<Rightarrow> u64 \<Rightarrow> u64 option" where
  "grown before after = (if before < after then Some (after - before) else None)"

text \<open>
  What measuring one entry meets: the device before the load, what starting it came to, the time
  it took, the device's figure for the process, the device after, and the rate.
\<close>

record measuring =
  mg_before :: "device_memory option"
  mg_first :: system
  mg_second :: system
  mg_load :: string
  mg_process :: "u64 option"
  mg_after :: "device_memory option"
  mg_rate :: "string option"

definition measured_by :: "measuring \<Rightarrow> u32 option" where
  "measured_by g =
     Option.bind
       (case mg_process g of
          Some mib \<Rightarrow> Some mib
        | None \<Rightarrow> Option.bind (mg_before g) (\<lambda>b. Option.bind (mg_after g) (\<lambda>a. grown (used_mib b) (used_mib a))))
       (\<lambda>mib. if unat mib < 2 ^ 32 then Some (ucast mib) else None)"

text \<open>The child is dropped when the measurement is returned, which kills and reaps it.\<close>

definition measure_entry ::
    "files \<Rightarrow> string \<Rightarrow> entry \<Rightarrow> string \<Rightarrow> measuring \<Rightarrow> nat set \<Rightarrow>
     ((failure + bench_measurement) \<times> nat set) option" where
  "measure_entry fs binary e root g procs =
     (case start fs binary e root (mg_first g) (mg_second g) procs of
        None \<Rightarrow> None
      | Some (Inl f, procs') \<Rightarrow> Some (Inl f, procs')
      | Some (Inr ch, procs') \<Rightarrow>
          Some (Inr \<lparr>bm_id = e_id e, bm_declared_mib = e_memory_estimate_mib e,
                  bm_measured_mib = measured_by g, bm_load = mg_load g, bm_throughput = mg_rate g\<rparr>,
                procs' - {ch_pid ch}))"

section \<open>The table\<close>

definition lf :: string where "lf = [CHR 0x0A]"

text \<open>A width is counted in characters: the bytes that do not continue one.\<close>

definition char_count :: "string \<Rightarrow> nat" where
  "char_count s = length (filter (\<lambda>c. \<not> continues c) s)"

definition left_in :: "nat \<Rightarrow> string \<Rightarrow> string" where
  "left_in w s = s @ replicate (w - char_count s) (CHR '' '')"

definition right_in :: "nat \<Rightarrow> string \<Rightarrow> string" where
  "right_in w s = replicate (w - char_count s) (CHR '' '') @ s"

definition header_row :: string where
  "header_row = left_in 20 ''entry'' @ '' '' @ right_in 9 ''declared'' @ '' '' @ right_in 9 ''measured''
     @ '' '' @ right_in 8 ''load'' @ '' '' @ right_in 10 ''rate'' @ lf"

definition row_start :: "entry \<Rightarrow> string" where
  "row_start e = left_in 20 (e_id e) @ '' '' @ right_in 9 (dec (unat (e_memory_estimate_mib e))) @ '' ''"

definition or_dashes :: "string option \<Rightarrow> string" where
  "or_dashes v = (case v of None \<Rightarrow> ''--'' | Some s \<Rightarrow> s)"

definition row_end :: "failure + bench_measurement \<Rightarrow> string" where
  "row_end r =
     (case r of
        Inr b \<Rightarrow> right_in 9 (or_dashes (map_option (\<lambda>m. dec (unat m)) (bm_measured_mib b))) @ '' ''
          @ right_in 7 (bm_load b) @ ''s '' @ right_in 10 (or_dashes (bm_throughput b)) @ lf
      | Inl f \<Rightarrow> right_in 9 ''--'' @ '' '' @ right_in 8 ''--'' @ '' '' @ right_in 10 ''--'' @ ''  ''
          @ failure_text f @ lf)"

definition correction :: "string \<Rightarrow> bench_measurement \<times> u32 \<Rightarrow> string" where
  "correction today c =
     (case c of (b, wants) \<Rightarrow>
        ''[models.'' @ bm_id b @ '']'' @ lf
        @ ''# Measured '' @ dec (case bm_measured_mib b of None \<Rightarrow> 0 | Some m \<Rightarrow> unat m)
        @ '' MiB resident on '' @ today @ ''; a twentieth over,'' @ lf
        @ ''# to a quarter gibibyte. Was '' @ dec (unat (bm_declared_mib b)) @ '' MiB.'' @ lf
        @ ''memory_estimate_mib = '' @ dec (unat wants) @ lf @ lf)"

definition corrections :: "bench_measurement list \<Rightarrow> (bench_measurement \<times> u32) list" where
  "corrections measured =
     filter (\<lambda>(b, wants). wants \<noteq> bm_declared_mib b)
       (List.map_filter (\<lambda>b. map_option (Pair b) (recommended_mib b)) measured)"

definition recommendations :: "string \<Rightarrow> bench_measurement list \<Rightarrow> string" where
  "recommendations today measured =
     (if corrections measured = [] then []
      else lf @ ''estimates these measurements support:'' @ lf @ lf
        @ concat (map (correction today) (corrections measured)))"

text \<open>The rows, with what was measured and the processes there are after each.\<close>

fun table_rows ::
    "files \<Rightarrow> string \<Rightarrow> string \<Rightarrow> (entry \<times> measuring) list \<Rightarrow> nat set \<Rightarrow>
     (string \<times> bench_measurement list \<times> nat set list) option" where
  "table_rows fs binary root [] procs = Some ([], [], [])"
| "table_rows fs binary root ((e, g) # rest) procs =
     (case measure_entry fs binary e root g procs of
        None \<Rightarrow> None
      | Some (r, procs') \<Rightarrow>
          (case table_rows fs binary root rest procs' of
             None \<Rightarrow> None
           | Some (rows, measured, after) \<Rightarrow>
               Some (row_start e @ row_end r @ rows,
                 (case r of Inl _ \<Rightarrow> measured | Inr b \<Rightarrow> b # measured), procs' # after)))"

definition bench_wanted :: "catalog \<Rightarrow> string option \<Rightarrow> entry list" where
  "bench_wanted c only =
     filter (\<lambda>e. case only of None \<Rightarrow> True | Some i \<Rightarrow> e_id e = i) (c_entries c)"

text \<open>
  The command: \<open>src\<close> is the catalog file read as text, \<open>root\<close> what \<open>models_root\<close> came to, and
  \<open>how\<close> what measuring each entry meets. The writer takes every line.
\<close>

definition bench_command ::
    "(string \<Rightarrow> string + table) \<Rightarrow> string \<Rightarrow> string + string \<Rightarrow> failure + string \<Rightarrow> files \<Rightarrow>
     string option \<Rightarrow> (entry \<Rightarrow> measuring) \<Rightarrow> nat \<Rightarrow> nat set \<Rightarrow>
     ((string + string) \<times> nat set) option" where
  "bench_command toml path src root fs only how now procs =
     (case src of
        Inl e \<Rightarrow> Some (Inl (''cannot read '' @ path @ '': '' @ e), procs)
      | Inr contents \<Rightarrow>
          (case catalog_parse toml contents of
             Inl problems \<Rightarrow> Some (Inl (report_text problems), procs)
           | Inr parsed \<Rightarrow>
               (case root of
                  Inl f \<Rightarrow> Some (Inl (failure_text f), procs)
                | Inr models \<Rightarrow>
                    (case located (fst fs) (snd fs) None of
                       Inl f \<Rightarrow> Some (Inl (failure_text f), procs)
                     | Inr binary \<Rightarrow>
                         (let wanted = bench_wanted parsed only in
                          if wanted = [] then
                            Some (Inl (''no entry called '' @ quoted (case only of None \<Rightarrow> [] | Some i \<Rightarrow> i)
                              @ '' in '' @ path), procs)
                          else
                            (case table_rows fs binary models (map (\<lambda>e. (e, how e)) wanted) procs of
                               None \<Rightarrow> None
                             | Some (rows, measured, after) \<Rightarrow>
                                 Some (Inr (header_row @ rows @ recommendations (date_of now) measured),
                                   last (procs # after))))))))"

section \<open>How an entry is asked\<close>

datatype answers = Completions | Embeddings | Reranking

definition flag_set :: "string tree \<Rightarrow> string \<Rightarrow> bool" where
  "flag_set flags name =
     (case map_of flags name of
        None \<Rightarrow> False | Some v \<Rightarrow> ascii_lower (trim v) \<notin> {''false'', ''0''})"

definition answers_of :: "string tree \<Rightarrow> answers" where
  "answers_of flags =
     (if flag_set flags ''reranking'' \<or> flag_set flags ''rerank'' then Reranking
      else if flag_set flags ''embeddings'' \<or> flag_set flags ''embedding'' then Embeddings
      else Completions)"

fun asked_at :: "answers \<Rightarrow> string" where
  "asked_at Completions = ''/v1/chat/completions''"
| "asked_at Embeddings = ''/v1/embeddings''"
| "asked_at Reranking = ''/v1/rerank''"

definition PROMPT :: string where
  "PROMPT = ''Write a short paragraph explaining what a memory budget is and why a program might need one.''"

definition PASSAGES :: nat where "PASSAGES = 32"

definition passages :: "string list" where
  "passages = map (\<lambda>index. ''Passage '' @ dec index @ ''. '' @ PROMPT) [0..<PASSAGES]"

definition ask_text :: "string \<Rightarrow> string \<Rightarrow> string \<Rightarrow> string" where
  "ask_text endpoint path body =
     (let eol = [CHR 0x0D, CHR 0x0A] in
      ''POST '' @ path @ '' HTTP/1.1'' @ eol @ ''Host: '' @ endpoint @ eol
      @ ''Content-Type: application/json'' @ eol @ ''Content-Length: '' @ dec (length body) @ eol
      @ ''Connection: close'' @ eol @ eol @ body)"

fun body_of :: "string \<Rightarrow> string option" where
  "body_of [] = None"
| "body_of (c # cs) =
     (if starts_with [CHR 0x0D, CHR 0x0A, CHR 0x0D, CHR 0x0A] (c # cs) then Some (drop 4 (c # cs))
      else body_of cs)"

text \<open>
  The estimator's reading of the same flags takes the first of them that is there at all, so an
  entry that says it does not embed and does rerank is costed with a cache it never keeps.
\<close>

lemma flags_read_apart:
  "answers_of [(''embeddings'', ''false''), (''reranking'', ''true'')] = Reranking"
  "\<not> keeps_no_cache [(''embeddings'', ''false''), (''reranking'', ''true'')]"
  by code_simp+

section \<open>One at a time\<close>

lemma measure_entry_processes:
  assumes "measure_entry fs binary e root g procs = Some (r, procs')"
    and "\<And>pid. y_spawn (mg_first g) = Inr pid \<or> y_spawn (mg_second g) = Inr pid \<Longrightarrow> pid \<notin> procs"
  shows "procs' = procs"
proof -
  obtain r1 p1 where one: "start fs binary e root (mg_first g) (mg_second g) procs = Some (r1, p1)"
    using assms(1) by (auto simp: measure_entry_def split: option.splits)
  have p1: "p1 = (case r1 of Inl _ \<Rightarrow> procs | Inr ch \<Rightarrow> insert (ch_pid ch) procs)"
    by (rule start_processes [OF one assms(2)])
  have "ch_pid ch \<notin> procs" if "r1 = Inr ch" for ch
    using start_spawned [of fs binary e root "mg_first g" "mg_second g" procs ch] one assms(2) that by blast
  with assms(1) one p1 show ?thesis by (auto simp: measure_entry_def split: sum.splits)
qed

lemma table_rows_processes:
  assumes "table_rows fs binary root es procs = Some (rows, measured, after)"
    and "\<And>e g y pid. (e, g) \<in> set es \<Longrightarrow> y \<in> {mg_first g, mg_second g} \<Longrightarrow> y_spawn y = Inr pid \<Longrightarrow>
      pid \<notin> procs"
  shows "after = replicate (length es) procs"
  using assms
proof (induction es arbitrary: rows measured after)
  case Nil
  then show ?case by simp
next
  case (Cons x es)
  obtain e g where x: "x = (e, g)" by (cases x)
  obtain r procs1 where one: "measure_entry fs binary e root g procs = Some (r, procs1)"
    using Cons.prems(1) by (auto simp: x split: option.splits)
  have "procs1 = procs"
    by (rule measure_entry_processes [OF one]) (use Cons.prems(2) [of e g] x in auto)
  with Cons one show ?case by (fastforce simp: x split: option.splits)
qed

end
