(* ===== verification/Http_Reply.thy ===== *)
theory Http_Reply
  imports Http_Request Turn_Loop
begin

text \<open>
  Who may use the router (\<open>access.rs\<close>, \<open>proxy/access.rs\<close>) and what it says in its own voice
  (\<open>proxy/reply.rs\<close>, \<open>proxy/metrics.rs\<close>, the listings of \<open>proxy/answer/own.rs\<close>). The JSON
  library is an argument that prints a value and reads a text; an object is an ordered map, as
  that library keeps it.
\<close>

section \<open>Access\<close>

record access =
  ac_key :: "string option"
  ac_origins :: "string list option"

definition KEY :: string where "KEY = ''MAESTRO_API_KEY''"
definition ORIGINS :: string where "ORIGINS = ''MAESTRO_ALLOWED_ORIGINS''"

definition nonempty :: "'a list \<Rightarrow> 'a list option" where
  "nonempty xs = (if xs = [] then None else Some xs)"

definition access_from_variables :: "string option \<Rightarrow> string option \<Rightarrow> access" where
  "access_from_variables key origins =
     \<lparr>ac_key = Option.bind key (\<lambda>k. nonempty (trim (utf8_lossy k))),
      ac_origins = Option.bind origins
        (\<lambda>l. nonempty (filter (\<lambda>o1. o1 \<noteq> []) (map trim (split_on (CHR '','') (utf8_lossy l)))))\<rparr>"

definition access_described :: "access \<Rightarrow> string" where
  "access_described a =
     ''access: ''
     @ (if ac_key a \<noteq> None then ''a key is required ('' @ KEY @ '')''
        else ''no key is required (set '' @ KEY @ '' to require one)'')
     @ ''; ''
     @ (case ac_origins a of
          None \<Rightarrow> ''any browser origin may call it (set '' @ ORIGINS @ '' to list them)''
        | Some os \<Rightarrow> ''browsers may call it from '' @ join '', '' os)"

definition header_value :: "head \<Rightarrow> string \<Rightarrow> string option" where
  "header_value h name = map_option snd (find (\<lambda>(n, v). eq_ignore_case n name) (h_headers h))"

text \<open>Two keys compared byte by byte without an early end.\<close>

definition same_key :: "string \<Rightarrow> string \<Rightarrow> bool" where
  "same_key carried key =
     (length carried = length key \<and>
      fold (\<lambda>(a, b) difference. or difference (xor (of_char a) (of_char b))) (zip carried key)
        (0 :: 8 word) = 0)"

definition carried_key :: "head \<Rightarrow> string option" where
  "carried_key h =
     map_option trim (Option.bind (header_value h ''authorization'') (strip_prefix ''Bearer ''))"

definition admits :: "access \<Rightarrow> head \<Rightarrow> request_refusal option" where
  "admits a h =
     (case (ac_origins a, header_value h ''origin'') of
        (Some os, Some o1) \<Rightarrow>
          (if o1 \<notin> set os
           then Some (refusal_new OriginNotAllowed
             (''the origin '' @ quoted o1 @ '' is not one this router serves''))
           else None)
      | _ \<Rightarrow> None)"

definition admits_key :: "access \<Rightarrow> head \<Rightarrow> request_refusal option" where
  "admits_key a h =
     (case ac_key a of
        None \<Rightarrow> None
      | Some key \<Rightarrow>
          (let matches = (case carried_key h of None \<Rightarrow> False | Some c \<Rightarrow> same_key c key) in
           if h_method h \<noteq> ''OPTIONS'' \<and> \<not> matches
           then Some (refusal_new Unauthorized
             (''this router requires a key: send '' @ quoted ''Authorization: Bearer <key>''
              @ '' with the value of '' @ KEY))
           else None))"

definition access_admits :: "access \<Rightarrow> head \<Rightarrow> request_refusal + unit" where
  "access_admits a h =
     (case admits a h of
        Some r \<Rightarrow> Inl r
      | None \<Rightarrow> (case admits_key a h of Some r \<Rightarrow> Inl r | None \<Rightarrow> Inr ()))"

section \<open>Replies\<close>

datatype json =
    JNull | JBool bool | JNum nat | JReal string | JStr string | JArr "json list" | JObj "(string \<times> json) list"

record codec =
  js_print :: "json \<Rightarrow> string"
  js_parse :: "string \<Rightarrow> string + json"

definition jobj :: "(string \<times> json) list \<Rightarrow> json" where
  "jobj kvs = JObj (fold (\<lambda>(k, v). tree_insert k v) kvs [])"

definition json_get :: "json \<Rightarrow> string \<Rightarrow> json option" where
  "json_get v key = (case v of JObj kvs \<Rightarrow> map_of kvs key | _ \<Rightarrow> None)"

record reply =
  rp_status :: nat
  rp_content_type :: "string option"
  rp_headers :: "(string \<times> string) list"
  rp_body :: string
  rp_head_only :: bool

definition reason :: "nat \<Rightarrow> string" where
  "reason status =
     (if status = 200 then ''OK''
      else if status = 204 then ''No Content''
      else if status = 400 then ''Bad Request''
      else if status = 404 then ''Not Found''
      else if status = 405 then ''Method Not Allowed''
      else if status = 408 then ''Request Timeout''
      else if status = 411 then ''Length Required''
      else if status = 413 then ''Content Too Large''
      else if status = 431 then ''Request Header Fields Too Large''
      else if status = 501 then ''Not Implemented''
      else if status = 502 then ''Bad Gateway''
      else if status = 503 then ''Service Unavailable''
      else ''Gateway Timeout'')"

definition header_line :: "string \<times> string \<Rightarrow> string" where
  "header_line h = fst h @ '': '' @ snd h @ crlf"

definition reply_text :: "reply \<Rightarrow> string" where
  "reply_text r =
     ''HTTP/1.1 '' @ dec (rp_status r) @ '' '' @ reason (rp_status r) @ crlf
     @ (case rp_content_type r of None \<Rightarrow> [] | Some t \<Rightarrow> ''Content-Type: '' @ t @ crlf)
     @ ''Content-Length: '' @ dec (length (rp_body r)) @ crlf
     @ concat (map header_line (rp_headers r))
     @ ''Access-Control-Allow-Origin: *'' @ crlf @ ''Connection: close'' @ crlf @ crlf
     @ (if rp_head_only r then [] else rp_body r)"

definition envelope :: "codec \<Rightarrow> request_refusal \<Rightarrow> string" where
  "envelope js r =
     js_print js (jobj [(''error'', jobj
       [(''message'', JStr (rf_message r)), (''type'', JStr (family (rf_cause r))),
        (''code'', JStr (code_of (rf_cause r)))])])"

definition refuse :: "codec \<Rightarrow> request_refusal \<Rightarrow> reply" where
  "refuse js r =
     \<lparr>rp_status = status_of (rf_cause r), rp_content_type = Some ''application/json'',
      rp_headers =
        (case retry_after_seconds (rf_cause r) of None \<Rightarrow> [] | Some n \<Rightarrow> [(''Retry-After'', dec n)])
        @ (case rf_cause r of MethodNotAllowed allow \<Rightarrow> [(''Allow'', allow)] | _ \<Rightarrow> [])
        @ (if rf_cause r = Unauthorized then [(''WWW-Authenticate'', ''Bearer'')] else []),
      rp_body = envelope js r, rp_head_only = False\<rparr>"

definition text_reply :: "string \<Rightarrow> string \<Rightarrow> bool \<Rightarrow> reply" where
  "text_reply content body head_only =
     \<lparr>rp_status = 200, rp_content_type = Some content, rp_headers = [], rp_body = body,
      rp_head_only = head_only\<rparr>"

definition json_reply :: "codec \<Rightarrow> json \<Rightarrow> bool \<Rightarrow> reply" where
  "json_reply js v head_only = text_reply ''application/json'' (js_print js v) head_only"

definition preflight :: "endpoint \<Rightarrow> reply" where
  "preflight e =
     \<lparr>rp_status = 204, rp_content_type = None,
      rp_headers = [(''Allow'', allowed e), (''Access-Control-Allow-Methods'', allowed e),
        (''Access-Control-Allow-Headers'', ''*''), (''Access-Control-Max-Age'', ''86400'')],
      rp_body = [], rp_head_only = True\<rparr>"

definition proceed_text :: string where
  "proceed_text = ''HTTP/1.1 100 Continue'' @ crlf @ crlf"

text \<open>
  After a refusal the write side is closed and what the caller still sends is read and dropped,
  for a bounded moment. A turn is the clock before a read and what the read gives: a number of
  bytes, or an error. \<open>None\<close> when the turns given run out first.
\<close>

definition LINGER :: nat where "LINGER = 1000000000"

definition LINGER_BYTES :: nat where "LINGER_BYTES = 1024 * 1024"

fun linger_loop :: "nat \<Rightarrow> nat \<Rightarrow> (nat \<times> nat option) list \<Rightarrow> nat option" where
  "linger_loop deadline drained turns =
     (if LINGER_BYTES \<le> drained then Some drained
      else
        (case turns of
           [] \<Rightarrow> None
         | (now, heard) # rest \<Rightarrow>
             (if deadline \<le> now then Some drained
              else
                (case heard of
                   None \<Rightarrow> Some drained
                 | Some n \<Rightarrow> if n = 0 then Some drained else linger_loop deadline (drained + n) rest))))"

declare linger_loop.simps [simp del]

definition linger :: "bool \<Rightarrow> bool \<Rightarrow> nat \<Rightarrow> (nat \<times> nat option) list \<Rightarrow> nat option" where
  "linger write_shut timeout_set now turns =
     (if \<not> write_shut \<or> \<not> timeout_set then Some 0 else linger_loop (now + LINGER) 0 turns)"

definition linger_turn :: "nat \<Rightarrow> nat \<times> nat option \<Rightarrow> nat \<Rightarrow> nat + nat" where
  "linger_turn deadline t drained =
     (case t of (now, heard) \<Rightarrow>
        if deadline \<le> now then Inr drained
        else
          (case heard of
             None \<Rightarrow> Inr drained
           | Some n \<Rightarrow> if n = 0 then Inr drained else Inl (drained + n)))"

interpretation lingering: turn_loop "\<lambda>turns drained. linger_loop deadline drained turns"
    "\<lambda>drained. if LINGER_BYTES \<le> drained then Some drained else None" "linger_turn deadline"
    for deadline
  by unfold_locales
    (subst linger_loop.simps, auto simp: linger_turn_def split: option.split prod.split)+

text \<open>
  It ends with the first read that is over, past the second, or past the bound, and never
  drops more than the bound and one buffer.
\<close>

lemma linger_loop_bounded:
  assumes "\<forall>t \<in> set turns. \<forall>n. snd t = Some n \<longrightarrow> n \<le> 8 * 1024"
    and "drained < LINGER_BYTES + 8 * 1024" and "linger_loop deadline drained turns = Some n"
  shows "n < LINGER_BYTES + 8 * 1024"
proof -
  let ?P = "\<lambda>us d. d < LINGER_BYTES + 8 * 1024"
  have "?P (us @ [t]) d'"
    if "t \<in> set turns" "(if LINGER_BYTES \<le> d then Some d else None) = None"
      "linger_turn deadline t d = Inl d'" for us t d d'
    using that assms(1) by (fastforce simp: linger_turn_def split: if_splits prod.splits option.splits)
  with lingering.answered [OF assms(3), of ?P "[]"] assms(2) show ?thesis
    by (auto simp: linger_turn_def split: if_splits prod.splits option.splits)
qed

lemma linger_loop_ends:
  assumes "LINGER_BYTES \<le> drained + length turns"
  shows "\<exists>n. linger_loop deadline drained turns = Some n"
  by (rule lingering.exhausted [of _ "\<lambda>d. LINGER_BYTES - d"])
    (use assms in \<open>auto simp: linger_turn_def split: if_splits prod.splits option.splits\<close>)

section \<open>What is served, in three shapes\<close>

definition listing_json :: "catalog \<Rightarrow> json" where
  "listing_json c =
     jobj [(''object'', JStr ''list''),
       (''data'', JArr (map (\<lambda>e. jobj [(''id'', JStr (e_id e)), (''object'', JStr ''model''),
          (''owned_by'', JStr ''model-router'')]) (c_entries c)))]"

definition listing_reply :: "codec \<Rightarrow> catalog \<Rightarrow> bool \<Rightarrow> reply" where
  "listing_reply js c head_only = json_reply js (listing_json c) head_only"

text \<open>The last reading of an entry's memory, as collecting pairs into a map keeps it.\<close>

definition held_memory :: "catalog \<Rightarrow> slots \<Rightarrow> string \<Rightarrow> u64 option" where
  "held_memory c s i = Option.bind (map_of (rev (memory_view c s)) i) id"

definition catalogue_json :: "catalog \<Rightarrow> slots \<Rightarrow> json" where
  "catalogue_json c s =
     jobj [(''object'', JStr ''list''),
       (''data'', JArr (map (\<lambda>e. jobj
          [(''id'', JStr (e_id e)), (''object'', JStr ''model''), (''owned_by'', JStr ''model-router''),
           (''status'', jobj [(''value'', JStr (if e_id e \<in> set (loaded_ids c s) then ''loaded'' else ''unloaded'')),
              (''failed'', JBool False)]),
           (''source'', JStr ''preset''),
           (''meta'', jobj [(''n_ctx'', JNum (unat (e_context_size e)))]),
           (''architecture'', jobj [(''input_modalities'', JArr (map JStr (accepts e)))]),
           (''memory'', jobj
              [(''declared_mib'', JNum (unat (e_memory_estimate_mib e))),
               (''held_mib'', (case held_memory c s (e_id e) of None \<Rightarrow> JNull | Some m \<Rightarrow> JNum (unat m)))])])
          (filter generates (c_entries c))))]"

definition catalogue_reply :: "codec \<Rightarrow> catalog \<Rightarrow> slots \<Rightarrow> bool \<Rightarrow> reply" where
  "catalogue_reply js c s head_only = json_reply js (catalogue_json c s) head_only"

text \<open>The release and the commit a build is told.\<close>

record build =
  bd_version :: string
  bd_commit :: string

definition properties_reply :: "codec \<Rightarrow> build \<Rightarrow> bool \<Rightarrow> reply" where
  "properties_reply js b head_only =
     json_reply js (jobj [(''models_autoload'', JBool True),
       (''build'', jobj [(''version'', JStr (bd_version b)), (''commit'', JStr (bd_commit b))])]) head_only"

section \<open>Metrics\<close>

definition TEXT_FORMAT :: string where "TEXT_FORMAT = ''text/plain; version=0.0.4''"

definition label_char :: "char \<Rightarrow> string" where
  "label_char c =
     (if c = CHR 0x5C then [CHR 0x5C, CHR 0x5C]
      else if c = CHR 0x22 then [CHR 0x5C, CHR 0x22]
      else if c = CHR 0x0A then [CHR 0x5C, CHR ''n'']
      else [c])"

definition label :: "string \<Rightarrow> string" where
  "label v = concat (map label_char v)"

definition gauge :: "string \<Rightarrow> string \<Rightarrow> (string \<times> nat) list \<Rightarrow> string" where
  "gauge name help samples =
     ''# HELP '' @ name @ '' '' @ help @ [CHR 0x0A] @ ''# TYPE '' @ name @ '' gauge'' @ [CHR 0x0A]
     @ concat (map (\<lambda>(labels, v).
         (if labels = [] then name @ '' '' @ dec v
          else name @ ''{'' @ labels @ ''} '' @ dec v) @ [CHR 0x0A]) samples)"

definition labelled :: "string \<Rightarrow> string \<Rightarrow> string" where
  "labelled name v = name @ ''='' @ [CHR 0x22] @ label v @ [CHR 0x22]"

definition metrics_text :: "build \<Rightarrow> catalog \<Rightarrow> slots \<Rightarrow> string" where
  "metrics_text b c s =
     (let model = (\<lambda>e. labelled ''model'' (e_id e)) in
      gauge ''model_router_build_info'' ''The release and commit answering, as labels.''
        [(labelled ''version'' (bd_version b) @ '','' @ labelled ''commit'' (bd_commit b), 1)]
      @ gauge ''model_router_model_loaded'' ''Whether a child is holding the entry.''
          (map (\<lambda>e. (model e, if e_id e \<in> set (loaded_ids c s) then 1 else 0)) (c_entries c))
      @ gauge ''model_router_model_declared_mib'' ''What the catalog estimates the entry holds, in MiB.''
          (map (\<lambda>e. (model e, unat (e_memory_estimate_mib e))) (c_entries c))
      @ gauge ''model_router_model_held_mib'' ''What a loaded entry was measured holding, in MiB.''
          (List.map_filter (\<lambda>e. map_option (\<lambda>m. (model e, unat m)) (held_memory c s (e_id e))) (c_entries c))
      @ gauge ''model_router_requests_waiting'' ''Requests in line for room.'' [([], in_line s)]
      @ (case limit_mib (slots_budget s) of
           None \<Rightarrow> []
         | Some l \<Rightarrow> gauge ''model_router_memory_budget_mib''
             ''The ceiling models are unloaded to stay under, in MiB.'' [([], unat l)]))"

definition metrics_reply :: "build \<Rightarrow> catalog \<Rightarrow> slots \<Rightarrow> bool \<Rightarrow> reply" where
  "metrics_reply b c s head_only = text_reply TEXT_FORMAT (metrics_text b c s) head_only"

end
