(* ===== verification/Head_Facts.thy ===== *)
theory Head_Facts
  imports Http_Relay "HOL-Library.Sublist"
begin

text \<open>
  What the router reads off a connection and what it sends on: the head it reads within its
  bounds, the head it writes for the child, and the body it forwards.
\<close>

abbreviation LF :: char where "LF \<equiv> CHR 0x0A"
abbreviation CR :: char where "CR \<equiv> CHR 0x0D"

section \<open>Lines\<close>

lemma until_newline_in: "LF \<notin> set l \<Longrightarrow> until_newline (l @ LF # s) = l @ [LF]"
  by (induction l) auto

lemma until_newline_Nil [simp]: "until_newline s = [] \<longleftrightarrow> s = []"
  by (cases s) auto

lemma until_newline_last:
  "LF \<in> set s \<Longrightarrow> last (until_newline s) = LF"
  by (induction s) auto

lemma until_newline_once: "LF \<in> set (butlast (until_newline s)) \<Longrightarrow> False"
  by (induction s) (auto split: if_splits)

lemma until_newline_all: "LF \<notin> set s \<Longrightarrow> until_newline s = s"
  by (induction s) auto

lemma split_on_append:
  "c \<notin> set a \<Longrightarrow> split_on c (a @ c # b) = a # split_on c b"
  by (induction a) (auto split: list.split)

lemma drop_line_end_crlf [simp]:
  "l = [] \<or> (last l \<noteq> CR \<and> last l \<noteq> LF) \<Longrightarrow> drop_line_end (l @ crlf) = l"
  by (cases l rule: rev_cases) (auto simp: drop_line_end_def crlf_def)

lemma drop_line_end_Nil: "drop_line_end s = [] \<longleftrightarrow> set s \<subseteq> {CR, LF}"
  by (auto simp: drop_line_end_def)

lemma utf8_valid_append: "utf8_valid s \<Longrightarrow> utf8_valid t \<Longrightarrow> utf8_valid (s @ t)"
proof (induction s rule: utf8_valid.induct)
  case 1
  then show ?case by simp
next
  case (2 a s)
  then show ?case
    by (auto simp: utf8_valid.simps(2) [of a s] utf8_valid.simps(2) [of a "s @ t"] Let_def
        split: list.splits if_splits)
qed

lemma utf8_valid_crlf: "utf8_valid s \<Longrightarrow> utf8_valid (s @ crlf)"
  by (rule utf8_valid_append) (simp_all add: crlf_def utf8_valid_ascii)

section \<open>Reading a head\<close>

definition plain_line :: "string \<Rightarrow> bool" where
  "plain_line l = (l \<noteq> [] \<and> LF \<notin> set l \<and> last l \<noteq> CR \<and> utf8_valid l)"

definition lined :: "string list \<Rightarrow> string" where
  "lined ls = concat (map (\<lambda>l. l @ crlf) ls)"

lemma lined_simps [simp]: "lined [] = []" "lined (l # ls) = l @ crlf @ lined ls"
  by (simp_all add: lined_def)

lemma read_line_crlf:
  assumes "LF \<notin> set l" and "utf8_valid l" and "length l + 2 \<le> n"
  shows "read_line n \<lparr>i_bytes = l @ crlf @ s, i_end = e\<rparr> = (Inr (l @ crlf), \<lparr>i_bytes = s, i_end = e\<rparr>)"
proof -
  have "take n (l @ crlf @ s) = (l @ [CR]) @ LF # take (n - length l - 2) s"
    using assms(3) by (simp add: crlf_def take_Cons' numeral_2_eq_2)
  moreover have "LF \<notin> set (l @ [CR])" using assms(1) by simp
  ultimately have "until_newline (take n (l @ crlf @ s)) = l @ crlf"
    using until_newline_in [of "l @ [CR]" "take (n - length l - 2) s"] by (simp add: crlf_def)
  with utf8_valid_crlf [OF assms(2)] show ?thesis by (simp add: read_line_def crlf_def)
qed

lemma head_read_lines:
  assumes "list_all plain_line ls" and "length (lined ls @ crlf) + seen \<le> MAX_HEAD_BYTES"
    and "length before + length ls \<le> MAX_HEADERS"
  shows "head_read_loop err before seen \<lparr>i_bytes = lined ls @ crlf @ body, i_end = e\<rparr> =
    (Inr (before @ ls), \<lparr>i_bytes = body, i_end = e\<rparr>)"
  using assms
proof (induction ls arbitrary: before seen)
  case Nil
  have "read_line (MAX_HEAD_BYTES - seen) \<lparr>i_bytes = [] @ crlf @ body, i_end = e\<rparr> =
      (Inr ([] @ crlf), \<lparr>i_bytes = body, i_end = e\<rparr>)"
    using Nil.prems(2) by (intro read_line_crlf) (simp_all add: crlf_def)
  moreover have "drop_line_end crlf = []" by (simp add: drop_line_end_Nil crlf_def)
  ultimately show ?case using Nil.prems(2)
    by (simp add: head_read_loop.simps [of err before seen] crlf_def)
next
  case (Cons l ls)
  have l: "l \<noteq> []" "LF \<notin> set l" "last l \<noteq> CR" "utf8_valid l"
    using Cons.prems(1) by (simp_all add: plain_line_def)
  have "last l \<noteq> LF" using l(1,2) last_in_set by metis
  with l have dropped: "drop_line_end (l @ crlf) = l" by simp
  have "read_line (MAX_HEAD_BYTES - seen) \<lparr>i_bytes = l @ crlf @ lined ls @ crlf @ body, i_end = e\<rparr> =
      (Inr (l @ crlf), \<lparr>i_bytes = lined ls @ crlf @ body, i_end = e\<rparr>)"
    using Cons.prems(2) l by (intro read_line_crlf) (simp_all add: crlf_def)
  moreover have "head_read_loop err (before @ [l]) (seen + length (l @ crlf))
      \<lparr>i_bytes = lined ls @ crlf @ body, i_end = e\<rparr> = (Inr ((before @ [l]) @ ls), \<lparr>i_bytes = body, i_end = e\<rparr>)"
    using Cons.prems by (intro Cons.IH) simp_all
  ultimately show ?case using Cons.prems(2,3) dropped l(1)
    by (simp add: head_read_loop.simps [of err before seen] crlf_def)
qed

text \<open>What is read: whole lines, each counted, up to a blank one.\<close>

lemma read_line_Inr:
  assumes "read_line n inp = (Inr got, rest)"
  shows "i_bytes inp = got @ i_bytes rest" and "i_end rest = i_end inp" and "length got \<le> n"
    and "LF \<notin> set (butlast got)"
    and "got \<noteq> [] \<Longrightarrow> last got \<noteq> LF \<Longrightarrow> length got = n \<or> (i_bytes rest = [] \<and> i_end inp = Closed)"
    and "got = [] \<Longrightarrow> n = 0 \<or> i_bytes inp = []"
proof -
  have got: "got = until_newline (take n (i_bytes inp))"
    and rest: "rest = inp\<lparr>i_bytes := drop (length got) (i_bytes inp)\<rparr>"
    and closed: "length got < n \<Longrightarrow> got = [] \<or> last got \<noteq> LF \<Longrightarrow> i_end inp = Closed"
    using assms by (auto simp: read_line_def Let_def split: if_splits)
  have len: "length got \<le> n"
    using length_until_newline [of "take n (i_bytes inp)"] by (simp add: got)
  have pre: "got = take (length got) (i_bytes inp)"
    using until_newline_prefix [of "take n (i_bytes inp)"] len by (simp add: got min_absorb1)
  then show "i_bytes inp = got @ i_bytes rest" 
    using append_take_drop_id [of "length got" "i_bytes inp"] by (simp add: rest)
  show "i_end rest = i_end inp" by (simp add: rest)
  show "length got \<le> n" by (rule len)
  show "LF \<notin> set (butlast got)" using until_newline_once got by blast
  show "got = [] \<Longrightarrow> n = 0 \<or> i_bytes inp = []" by (auto simp: got)
  assume g: "got \<noteq> []" "last got \<noteq> LF"
  then have "LF \<notin> set (take n (i_bytes inp))" using until_newline_last got by blast
  then have whole: "got = take n (i_bytes inp)" by (simp add: got until_newline_all)
  show "length got = n \<or> (i_bytes rest = [] \<and> i_end inp = Closed)"
  proof (cases "length got < n")
    case True
    with whole have "got = i_bytes inp" by simp
    with True closed g rest show ?thesis by simp
  qed (use len in simp)
qed


text \<open>A whole line ends with its only line feed and is not blank.\<close>

definition whole_line :: "string \<Rightarrow> bool" where
  "whole_line r = (r \<noteq> [] \<and> last r = LF \<and> LF \<notin> set (butlast r) \<and> drop_line_end r \<noteq> [])"

definition blank_line :: "string \<Rightarrow> bool" where
  "blank_line r = (r \<noteq> [] \<and> set r \<subseteq> {CR, LF} \<and> LF \<notin> set (butlast r))"

lemma head_read_loop_Inr:
  assumes "head_read_loop err before seen inp = (Inr lines, rest)" and "length before \<le> MAX_HEADERS"
  shows "\<exists>raws blank. i_bytes inp = concat raws @ blank @ i_bytes rest \<and> list_all whole_line raws \<and>
    lines = before @ map drop_line_end raws \<and> length lines \<le> MAX_HEADERS \<and> blank_line blank \<and>
    seen + length (concat raws @ blank) \<le> MAX_HEAD_BYTES \<and>
    (last blank = LF \<or> seen + length (concat raws @ blank) = MAX_HEAD_BYTES \<or>
      (i_bytes rest = [] \<and> i_end inp = Closed))"
  using assms
proof (induction err before seen inp rule: head_read_loop.induct)
  case (1 err before seen inp)
  have room: "seen < MAX_HEAD_BYTES"
    using 1(2) by (subst (asm) head_read_loop.simps) (auto split: if_splits)
  obtain got onward where read: "read_line (MAX_HEAD_BYTES - seen) inp = (Inr got, onward)"
    using 1(2) room by (subst (asm) head_read_loop.simps) (auto split: if_splits prod.splits sum.splits)
  note facts = read_line_Inr [OF read]
  have some: "got \<noteq> []"
    using 1(2) room read by (subst (asm) head_read_loop.simps) (auto split: if_splits)
  show ?case
  proof (cases "drop_line_end got = []")
    case True
    then have "lines = before" "rest = onward"
      using 1(2) room read some by (subst (asm) head_read_loop.simps; simp)+
    moreover have "blank_line got" using some True facts(4) by (simp add: blank_line_def drop_line_end_Nil)
    ultimately show ?thesis using facts(1,3,5) some room 1(3)
      by (intro exI [of _ "[]"] exI [of _ got]) auto
  next
    case False
    have few: "length before < MAX_HEADERS"
      and rec: "head_read_loop err (before @ [drop_line_end got]) (seen + length got) onward = (Inr lines, rest)"
      using 1(2) room read some False by (subst (asm) head_read_loop.simps; simp split: if_splits)+
    have "last got = LF"
    proof (rule ccontr)
      assume "last got \<noteq> LF"
      with facts(5) some consider "length got = MAX_HEAD_BYTES - seen" | "i_bytes onward = []" by blast
      then show False
      proof cases
        case 1
        with rec room show False by (subst (asm) head_read_loop.simps) simp
      next
        case 2
        then have "fst (read_line n onward) = Inr [] \<or> (\<exists>e. fst (read_line n onward) = Inl e)" for n
          by (auto simp: read_line_def Let_def)
        with rec show False
          by (subst (asm) head_read_loop.simps)
            (auto split: if_splits prod.splits sum.splits, (metis fst_conv sum.distinct(1) sum.inject(2))+)
      qed
    qed
    with some facts(4) False have whole: "whole_line got" by (simp add: whole_line_def)
    from "1.IH" [OF _ read [symmetric] refl _ refl] rec few some False room
    obtain raws blank where IH: "i_bytes onward = concat raws @ blank @ i_bytes rest"
        "list_all whole_line raws" "lines = (before @ [drop_line_end got]) @ map drop_line_end raws"
        "length lines \<le> MAX_HEADERS" "blank_line blank"
        "seen + length got + length (concat raws @ blank) \<le> MAX_HEAD_BYTES"
        "last blank = LF \<or> seen + length got + length (concat raws @ blank) = MAX_HEAD_BYTES \<or>
         (i_bytes rest = [] \<and> i_end onward = Closed)"
      by auto
    with whole facts(1,2) show ?thesis
      by (intro exI [of _ "got # raws"] exI [of _ blank]) auto
  qed
qed


section \<open>A head as it is parsed\<close>

lemma drop_lead_settled: "drop_lead ws s = [] \<or> lead ws (drop_lead ws s) = 0"
proof (induction ws s rule: drop_lead.induct)
  case (1 ws s)
  then show ?case
    by (cases "lead ws s = 0 \<or> s = []") (auto simp: drop_lead.simps [of ws s])
qed

lemma set_drop_lead: "set (drop_lead ws s) \<subseteq> set s"
proof (induction ws s rule: drop_lead.induct)
  case (1 ws s)
  then show ?case
    by (cases "lead ws s = 0 \<or> s = []")
      (auto simp: drop_lead.simps [of ws s] dest!: in_set_dropD subsetD)
qed

lemma set_trim: "set (trim s) \<subseteq> set s"
  using set_drop_lead [of white_rev "rev (trim_start s)"] set_drop_lead [of white_chars s]
  by (auto simp: trim_def trim_end_def trim_start_def)

lemma last_trim: "trim s \<noteq> [] \<Longrightarrow> last (trim s) \<noteq> CR"
proof -
  let ?r = "drop_lead white_rev (rev (trim_start s))"
  assume "trim s \<noteq> []"
  then have r: "?r \<noteq> []" by (simp add: trim_def trim_end_def)
  with drop_lead_settled [of white_rev] have "lead white_rev ?r = 0" by blast
  moreover have "lead white_rev (CR # x) \<noteq> 0" for x by (simp add: white_rev_def white_chars_def)
  ultimately have "hd ?r \<noteq> CR" using r by (metis list.collapse)
  with r show ?thesis by (simp add: trim_def trim_end_def last_rev)
qed

lemma words_from_sub: "w \<in> set (words_from k acc s) \<Longrightarrow> w \<noteq> [] \<and> set w \<subseteq> set acc \<union> set s"
proof (induction k acc s rule: words_from.induct)
  case (3 acc x xs)
  then show ?case
    by (cases "lead white_chars (x # xs) = 0") (fastforce simp: Let_def split: if_splits)+
qed (auto split: if_splits)

lemma split_whitespace_sub: "w \<in> set (split_whitespace s) \<Longrightarrow> w \<noteq> [] \<and> set w \<subseteq> set s"
  using words_from_sub [of w 0 "[]" s] by (simp add: split_whitespace_def)

text \<open>The headers of a head's lines: the ones with a colon, trimmed, in order.\<close>

definition header_of :: "string \<Rightarrow> (string \<times> string) option" where
  "header_of l = map_option (\<lambda>(n, v). (trim n, trim v)) (split_once (CHR '':'') l)"

definition headers_of :: "string list \<Rightarrow> (string \<times> string) list" where
  "headers_of ls = List.map_filter header_of ls"

lemma header_step_keeps:
  "h_method (header_step h l) = h_method h" "h_endpoint (header_step h l) = h_endpoint h"
  "h_headers (header_step h l) = h_headers h @ headers_of [l]"
  by (auto simp: header_step_def headers_of_def header_of_def List.map_filter_simps Let_def
      split: option.split)

lemma header_steps:
  "h_method (foldl header_step h ls) = h_method h" "h_endpoint (foldl header_step h ls) = h_endpoint h"
  "h_headers (foldl header_step h ls) = h_headers h @ headers_of ls"
proof (induction ls arbitrary: h)
  case (Cons l ls)
  { case 1 show ?case by (simp add: Cons header_step_keeps)
  next
    case 2 show ?case by (simp add: Cons header_step_keeps)
  next
    case 3
    have "headers_of (l # ls) = headers_of [l] @ headers_of ls"
      by (simp add: headers_of_def List.map_filter_def)
    then show ?case by (simp add: Cons header_step_keeps)
  }
qed (simp_all add: headers_of_def List.map_filter_simps)

lemma endpoint_suffix: "endpoint_of path = Inr e \<Longrightarrow> LF \<notin> set path \<Longrightarrow> LF \<notin> set (suffix_of e)"
  by (auto simp: endpoint_of_def Let_def strip_prefix_Some split_once_Some
      split: if_splits option.splits prod.splits)

lemma parsed:
  assumes "head_parse lines = Inr h"
  obtains first rest path words where "lines = first # rest"
    and "split_whitespace first = h_method h # path # words" and "endpoint_of path = Inr (h_endpoint h)"
    and "h_headers h = headers_of rest"
  using assms
  by (auto simp: head_parse_def header_steps split: list.splits sum.splits)

lemma headers_of_sub:
  assumes "(n, v) \<in> set (headers_of ls)"
  shows "\<exists>l \<in> set ls. set n \<subseteq> set l \<and> set v \<subseteq> set l \<and> (v = [] \<or> last v \<noteq> CR)"
proof -
  obtain l a b where l: "l \<in> set ls" "split_once (CHR '':'') l = Some (a, b)" "n = trim a" "v = trim b"
    using assms by (auto simp: headers_of_def List.map_filter_def header_of_def)
  then have "set a \<subseteq> set l" "set b \<subseteq> set l" by (auto simp: split_once_Some)
  with l set_trim [of a] set_trim [of b] last_trim [of b] show ?thesis by blast
qed

lemma drop_line_end_sub: "set (drop_line_end s) \<subseteq> set s"
  by (auto simp: drop_line_end_def dest: set_dropWhileD)

lemma read_lines_plain:
  assumes "head_read err inp = (Inr lines, rest)"
  shows "\<forall>l \<in> set lines. LF \<notin> set l \<and> l \<noteq> []"
proof -
  obtain raws where raws: "list_all whole_line raws" "lines = map drop_line_end raws"
    using head_read_loop_Inr [of err "[]" 0 inp lines rest] assms by (auto simp: head_read_def)
  have "LF \<notin> set (drop_line_end r)" if "whole_line r" for r
  proof -
    have q: "r = butlast r @ [LF]" "LF \<notin> set (butlast r)"
      using that append_butlast_last_id [of r] by (simp_all add: whole_line_def)
    have "drop_line_end (x @ [LF]) = drop_line_end x" for x by (simp add: drop_line_end_def)
    then have "drop_line_end r = drop_line_end (butlast r)" using q(1) by metis
    with q(2) drop_line_end_sub show ?thesis by fastforce
  qed
  with raws show ?thesis by (auto simp: list_all_iff whole_line_def)
qed

lemma split_on_lines:
  "\<forall>l \<in> set ls. LF \<notin> set l \<Longrightarrow> split_on LF (lined ls @ s) = map (\<lambda>l. l @ [CR]) ls @ split_on LF s"
proof (induction ls)
  case (Cons l ls)
  then have "LF \<notin> set (l @ [CR])" by simp
  from split_on_append [OF this] Cons show ?case by (simp add: crlf_def)
qed simp

section \<open>Keys\<close>

lemma of_char_word_inj: "(of_char a :: 8 word) = of_char b \<longleftrightarrow> a = b"
proof -
  have "(of_char c :: 8 word) = of_nat (of_char c)" for c by (simp add: of_nat_of_char)
  then have "unat (of_char c :: 8 word) = of_char c" for c
    using nat_of_char_less_256 [of c] by (simp only: unat_of_nat) simp
  then show ?thesis by (metis of_char_eq_iff)
qed

lemma xor_zero: "xor x y = 0 \<longleftrightarrow> x = (y :: 8 word)"
  by (metis xor_self_eq xor.assoc xor.right_neutral)

lemma fold_difference:
  "fold (\<lambda>(a, b) d. or d (xor (of_char a) (of_char b))) ps d = (0 :: 8 word) \<longleftrightarrow>
     d = 0 \<and> (\<forall>(a, b) \<in> set ps. a = b)"
proof (induction ps arbitrary: d)
  case (Cons p ps)
  have "or d (xor x y) = 0 \<longleftrightarrow> d = 0 \<and> x = y" for d x y :: "8 word"
    by (simp add: or_eq_0_iff xor_zero)
  with Cons show ?case by (cases p) (simp add: of_char_word_inj)
qed simp

section \<open>A forwarded body\<close>

text \<open>A connection that takes as many bytes as are to be sent.\<close>

definition takes_enough :: "upstream \<Rightarrow> nat \<Rightarrow> bool" where
  "takes_enough up n =
     (case up of TakesAll \<Rightarrow> True | BreaksAfter k \<Rightarrow> n \<le> k | Refuses \<Rightarrow> False)"

lemma takes_enough_less: "takes_enough up n \<Longrightarrow> m \<le> n \<Longrightarrow> takes_enough up m"
  by (auto simp: takes_enough_def split: upstream.splits)

lemma up_write_enough:
  "takes_enough up (length sent + length bytes) \<Longrightarrow> up_write up sent bytes = (True, sent @ bytes)"
  by (auto simp: takes_enough_def up_write_def split: upstream.splits)

lemma up_write_prefix:
  assumes "up_write up sent bytes = (ok, sent')"
  shows "prefix sent' (sent @ bytes)" and "ok \<Longrightarrow> sent' = sent @ bytes"
  using assms
  by (auto simp: up_write_def take_is_prefix simp del: take_append split: upstream.splits if_splits)

lemma forward_loop_exact:
  assumes "takes_enough up (length sent + n)"
  shows "forward_loop up chunk k n sent inp =
     ((if n \<le> length (i_bytes inp) then None
       else (case i_end inp of Closed \<Rightarrow> None | Stalled \<Rightarrow> Some (ReadFailed TimedOut)
         | Broken e \<Rightarrow> Some (ReadFailed (OtherError e))),
       sent @ take n (i_bytes inp)),
      inp\<lparr>i_bytes := drop n (i_bytes inp)\<rparr>)"
  using assms
proof (induction up chunk k n sent inp rule: forward_loop.induct)
  case (1 up chunk k n sent inp)
  show ?case
  proof (cases "n = 0 \<or> i_bytes inp = []")
    case True
    then show ?thesis
      by (subst forward_loop.simps) (auto simp: read_some_def split: stream_end.split)
  next
    case False
    define m where "m = min (max 1 (chunk k)) (min n BUFFER)"
    let ?b = "take m (i_bytes inp)"
    let ?inp = "inp\<lparr>i_bytes := drop m (i_bytes inp)\<rparr>"
    have m: "0 < m" "m \<le> n" using False by (simp_all add: m_def BUFFER_def)
    have read: "read_some (chunk k) (min n BUFFER) inp = (Inr ?b, ?inp)"
      using False by (simp add: read_some_def Let_def m_def)
    have b: "?b \<noteq> []" using False m by simp
    have up: "up_write up sent ?b = (True, sent @ ?b)"
      using "1.prems" m(2) by (intro up_write_enough) (auto elim!: takes_enough_less)
    have enough: "takes_enough up (length (sent @ ?b) + (n - length ?b))"
      using "1.prems" m(2) by (auto elim!: takes_enough_less)
    have IH: "forward_loop up chunk (Suc k) (n - length ?b) (sent @ ?b) ?inp =
        ((if n - length ?b \<le> length (i_bytes ?inp) then None
          else (case i_end ?inp of Closed \<Rightarrow> None | Stalled \<Rightarrow> Some (ReadFailed TimedOut)
            | Broken e \<Rightarrow> Some (ReadFailed (OtherError e))),
          (sent @ ?b) @ take (n - length ?b) (i_bytes ?inp)),
         ?inp\<lparr>i_bytes := drop (n - length ?b) (i_bytes ?inp)\<rparr>)"
      using "1.IH" [OF _ read [symmetric] refl b up [symmetric] refl enough] False by simp
    have "forward_loop up chunk k n sent inp =
        forward_loop up chunk (Suc k) (n - length ?b) (sent @ ?b) ?inp"
      using False read b up by (subst forward_loop.simps) simp
    moreover have "take m xs @ take (n - min (length xs) m) (drop m xs) = take n xs" for xs :: string
      using m(2) by (cases "m \<le> length xs") (simp_all add: take_add [symmetric] min_absorb2)
    moreover have "drop (n - min (length xs) m) (drop m xs) = drop n xs" for xs :: string
      using m(2) by (cases "m \<le> length xs") simp_all
    ultimately show ?thesis unfolding IH using m(2) by auto
  qed
qed

text \<open>Whatever breaks, what went out is the beginning of what should have.\<close>

lemma forward_loop_prefix:
  "prefix (snd (fst (forward_loop up chunk k n sent inp))) (sent @ take n (i_bytes inp))"
proof (induction up chunk k n sent inp rule: forward_loop.induct)
  case (1 up chunk k n sent inp)
  show ?case
  proof (cases "n = 0 \<or> i_bytes inp = []")
    case True
    then show ?thesis
      by (subst forward_loop.simps) (auto simp: read_some_def split: stream_end.split)
  next
    case False
    define m where "m = min (max 1 (chunk k)) (min n BUFFER)"
    let ?b = "take m (i_bytes inp)"
    let ?inp = "inp\<lparr>i_bytes := drop m (i_bytes inp)\<rparr>"
    have m: "0 < m" "m \<le> n" using False by (simp_all add: m_def BUFFER_def)
    have read: "read_some (chunk k) (min n BUFFER) inp = (Inr ?b, ?inp)"
      using False by (simp add: read_some_def Let_def m_def)
    have b: "?b \<noteq> []" using False m by simp
    have whole: "?b @ take (n - length ?b) (drop m (i_bytes inp)) = take n (i_bytes inp)"
      using m(2) by (cases "m \<le> length (i_bytes inp)") (simp_all add: take_add [symmetric] min_absorb2)
    obtain ok sent' where up: "up_write up sent ?b = (ok, sent')" by fastforce
    show ?thesis
    proof (cases ok)
      case True
      then have sent': "sent' = sent @ ?b" using up_write_prefix(2) [OF up] by simp
      have "prefix (snd (fst (forward_loop up chunk (Suc k) (n - length ?b) sent' ?inp)))
          (sent' @ take (n - length ?b) (i_bytes ?inp))"
        using "1.IH" [OF _ read [symmetric] refl b up [symmetric]] True False by simp
      moreover have "forward_loop up chunk k n sent inp =
          forward_loop up chunk (Suc k) (n - length ?b) sent' ?inp"
        using False read b up True by (subst forward_loop.simps) simp
      ultimately show ?thesis using sent' whole by simp
    next
      case no: False
      have "forward_loop up chunk k n sent inp = ((Some WriteFailed, sent'), ?inp)"
        using False read b up no by (subst forward_loop.simps) simp
      moreover have "prefix sent' (sent @ take n (i_bytes inp))"
        using up_write_prefix(1) [OF up] whole by (metis append.assoc prefixI prefix_order.trans)
      ultimately show ?thesis by simp
    qed
  qed
qed

section \<open>What a header line adds\<close>

text \<open>A header the router gives no meaning to, but for the length.\<close>

definition unread_name :: "string \<Rightarrow> bool" where
  "unread_name n =
     (\<not> eq_ignore_case n ''transfer-encoding'' \<and> \<not> eq_ignore_case n ''expect'' \<and>
      \<not> eq_ignore_case n ROOM_HEADER)"

definition length_name :: "string \<Rightarrow> bool" where
  "length_name n = eq_ignore_case n ''content-length''"

lemma header_step_plain:
  assumes "split_once (CHR '':'') l = Some (n, v)" and "unread_name (trim n)"
  shows "header_step h l =
    h\<lparr>h_length := (if length_name (trim n)
         then (case parse_unsigned (2 ^ 64) (trim v) of None \<Rightarrow> Malformed (trim v) | Some k \<Rightarrow> Given k)
         else h_length h),
      h_headers := h_headers h @ [(trim n, trim v)]\<rparr>"
  using assms by (cases h) (simp add: header_step_def unread_name_def length_name_def Let_def)

lemma header_step_named:
  assumes "split_once (CHR '':'') l = Some (n, v)" and "trim n = n" and "unread_name n"
    and "\<not> length_name n"
  shows "header_step h l = h\<lparr>h_headers := h_headers h @ [(n, trim v)]\<rparr>"
  using header_step_plain [OF assms(1)] assms(2-4) by simp

lemma lead_space: "lead white_chars (CHR '' '' # s) = 1"
  by (simp add: white_chars_def)

lemma trim_after_space: "trim (CHR '' '' # s) = trim s"
  unfolding trim_def trim_start_def
  by (subst drop_lead.simps) (simp add: lead_space del: lead.simps)

lemma plain_ascii:
  assumes "l \<noteq> []" and "list_all (\<lambda>c. (of_char c :: nat) < 128) l" and "LF \<notin> set l" and "last l \<noteq> CR"
  shows "plain_line l"
  using assms by (simp add: plain_line_def utf8_valid_ascii)

lemma visible_ascii: "visible c \<Longrightarrow> (of_char c :: nat) < 128 \<and> c \<noteq> LF \<and> c \<noteq> CR"
  by (auto simp: visible_def)

end
