(* ===== verification/Bench_Rate.thy ===== *)
theory Bench_Rate
  imports Bench Http_Reply Head_Facts
begin

text \<open>
  How fast an entry answers (\<open>bench/rate.rs\<close>): the measuring request of each kind of entry, the
  reply it gets and the figure read out of it. The JSON library, the floating point numbers and
  the server asked are arguments: \<open>serve\<close> is what sending a text to the endpoint comes to, an
  error or everything that came back until the connection was closed.
\<close>

section \<open>Throughput\<close>

datatype 'f throughput = Generated 'f | Scored 'f

fun parts :: "'f throughput \<Rightarrow> 'f \<times> string" where
  "parts (Generated rate) = (rate, ''tok/s'')"
| "parts (Scored rate) = (rate, ''seq/s'')"

text \<open>
  A JSON number as a float, a number of things by a time in nanoseconds, and a float as it is
  printed to one place.
\<close>

record 'f floats =
  as_f64 :: "json \<Rightarrow> 'f option"
  per_second :: "nat \<Rightarrow> duration \<Rightarrow> 'f"
  to_one_place :: "'f \<Rightarrow> string"

definition rate_shown :: "'f floats \<Rightarrow> 'f throughput \<Rightarrow> string" where
  "rate_shown fl t = (case parts t of (figure, unit) \<Rightarrow> to_one_place fl figure @ '' '' @ unit)"

section \<open>The requests\<close>

definition TOKENS :: nat where "TOKENS = 128"

definition generated_body :: "codec \<Rightarrow> string \<Rightarrow> string" where
  "generated_body js i =
     js_print js (jobj
       [(''model'', JStr i),
        (''messages'', JArr [jobj [(''role'', JStr ''user''), (''content'', JStr PROMPT)]]),
        (''max_tokens'', JNum TOKENS), (''stream'', JBool False), (''temperature'', JReal ''0.0'')])"

definition embeddings_body :: "codec \<Rightarrow> string \<Rightarrow> string" where
  "embeddings_body js i =
     js_print js (jobj [(''model'', JStr i), (''input'', JArr (map JStr passages))])"

definition reranking_body :: "codec \<Rightarrow> string \<Rightarrow> string" where
  "reranking_body js i =
     js_print js (jobj [(''model'', JStr i), (''query'', JStr ''what is a memory budget''),
       (''documents'', JArr (map JStr passages))])"

text \<open>A reply that is not text is an error like any other of the connection.\<close>

definition ask :: "(string \<Rightarrow> string + string) \<Rightarrow> string \<Rightarrow> string \<Rightarrow> string \<Rightarrow> string option" where
  "ask serve endpoint path body =
     (case serve (ask_text endpoint path body) of
        Inl e \<Rightarrow> None
      | Inr reply \<Rightarrow> if utf8_valid reply then Some reply else None)"

definition replied :: "codec \<Rightarrow> string \<Rightarrow> json option" where
  "replied js reply =
     Option.bind (body_of reply) (\<lambda>b. case js_parse js b of Inl e \<Rightarrow> None | Inr v \<Rightarrow> Some v)"

section \<open>The rate\<close>

definition generated ::
    "'f floats \<Rightarrow> codec \<Rightarrow> (string \<Rightarrow> string + string) \<Rightarrow> string \<Rightarrow> string \<Rightarrow> 'f throughput option" where
  "generated fl js serve endpoint i =
     Option.bind (ask serve endpoint (asked_at Completions) (generated_body js i)) (\<lambda>reply.
     Option.bind (replied js reply) (\<lambda>v.
     Option.bind (json_get v ''timings'') (\<lambda>timings.
     Option.bind (json_get timings ''predicted_per_second'') (\<lambda>rate.
     map_option Generated (as_f64 fl rate)))))"

definition scored ::
    "'f floats \<Rightarrow> codec \<Rightarrow> (string \<Rightarrow> string + string) \<Rightarrow> string \<Rightarrow> string \<Rightarrow> string \<Rightarrow> duration \<Rightarrow>
     'f throughput option" where
  "scored fl js serve endpoint path body elapsed =
     Option.bind (ask serve endpoint path body) (\<lambda>reply.
     Option.bind (replied js reply) (\<lambda>v.
     if json_get v ''error'' \<noteq> None then None
     else if 0 < elapsed then Some (Scored (per_second fl PASSAGES elapsed)) else None))"

definition rate_of ::
    "'f floats \<Rightarrow> codec \<Rightarrow> (string \<Rightarrow> string + string) \<Rightarrow> string \<Rightarrow> entry \<Rightarrow> duration \<Rightarrow>
     'f throughput option" where
  "rate_of fl js serve endpoint e elapsed =
     (case answers_of (e_flags e) of
        Completions \<Rightarrow> generated fl js serve endpoint (e_id e)
      | Embeddings \<Rightarrow>
          scored fl js serve endpoint (asked_at Embeddings) (embeddings_body js (e_id e)) elapsed
      | Reranking \<Rightarrow>
          scored fl js serve endpoint (asked_at Reranking) (reranking_body js (e_id e)) elapsed)"

text \<open>What measuring one entry meets when the entry's own server is asked for its rate.\<close>

definition rated ::
    "'f floats \<Rightarrow> codec \<Rightarrow> (string \<Rightarrow> string + string) \<Rightarrow> string \<Rightarrow> duration \<Rightarrow> entry \<Rightarrow> measuring \<Rightarrow>
     measuring" where
  "rated fl js serve endpoint elapsed e g =
     g\<lparr>mg_rate := map_option (rate_shown fl) (rate_of fl js serve endpoint e elapsed)\<rparr>"

section \<open>The request is one the router itself would read\<close>

definition ask_lines :: "string \<Rightarrow> string \<Rightarrow> string \<Rightarrow> string list" where
  "ask_lines endpoint path body =
     [''POST '' @ path @ '' HTTP/1.1'', ''Host: '' @ endpoint, ''Content-Type: application/json'',
      ''Content-Length: '' @ dec (length body), ''Connection: close'']"

lemma ask_text_lines: "ask_text endpoint path body = lined (ask_lines endpoint path body) @ crlf @ body"
  by (simp add: ask_text_def ask_lines_def crlf_def Let_def)

lemma body_of_skip: "CR \<notin> set l \<Longrightarrow> body_of (l @ s) = body_of s"
  by (induction l) (auto simp: starts_with_def)

lemma body_of_head:
  assumes "\<forall>l \<in> set ls. CR \<notin> set l \<and> l \<noteq> []" and "ls \<noteq> []"
  shows "body_of (lined ls @ crlf @ body) = Some body"
  using assms
proof (induction ls)
  case Nil
  then show ?case by simp
next
  case (Cons l ls)
  have l: "CR \<notin> set l" using Cons.prems(1) by simp
  show ?case
  proof (cases ls)
    case Nil
    then show ?thesis by (simp add: body_of_skip [OF l]) (simp add: crlf_def starts_with_def)
  next
    case (Cons k ks)
    with Cons.prems(1) obtain x xs where k: "k = x # xs" "x \<noteq> CR" by (cases k) auto
    have "body_of (lined (l # ls) @ crlf @ body) = body_of (crlf @ lined ls @ crlf @ body)"
      by (simp add: body_of_skip [OF l])
    also have "\<dots> = body_of (lined ls @ crlf @ body)"
      using k by (simp add: Cons crlf_def starts_with_def)
    also have "\<dots> = Some body" using Cons.IH Cons.prems(1) Cons by simp
    finally show ?thesis .
  qed
qed

text \<open>What is read as JSON is all that follows the reply's head, however long either is.\<close>

lemma replied_body:
  assumes "\<forall>l \<in> set ls. CR \<notin> set l \<and> l \<noteq> []" and "ls \<noteq> []"
  shows "replied js (lined ls @ crlf @ body) =
    (case js_parse js body of Inl e \<Rightarrow> None | Inr v \<Rightarrow> Some v)"
  using body_of_head [OF assms] by (simp add: replied_def)

definition ask_head :: "string \<Rightarrow> string \<Rightarrow> string \<Rightarrow> head" where
  "ask_head endpoint path body =
     \<lparr>h_method = ''POST'', h_endpoint = Generic path,
      h_headers = [(''Host'', trim ('' '' @ endpoint)), (''Content-Type'', ''application/json''),
        (''Content-Length'', dec (length body)), (''Connection'', ''close'')],
      h_length = Given (length body), h_chunked = False, h_expects_continue = False,
      h_room = Inr Any\<rparr>"

lemma ask_names:
  "trim ''Host'' = ''Host''" "trim ''Content-Type'' = ''Content-Type''"
  "trim ''Content-Length'' = ''Content-Length''" "trim ''Connection'' = ''Connection''"
  "trim '' application/json'' = ''application/json''" "trim '' close'' = ''close''"
  by code_simp+

lemma ask_names_read:
  "unread_name ''Host''" "unread_name ''Content-Type''" "unread_name ''Content-Length''"
  "unread_name ''Connection''" "length_name ''Content-Length''" "\<not> length_name ''Host''"
  "\<not> length_name ''Content-Type''" "\<not> length_name ''Connection''"
  by code_simp+

lemma asked_words:
  "split_whitespace ''POST /v1/chat/completions HTTP/1.1'' = [''POST'', ''/v1/chat/completions'', ''HTTP/1.1'']"
  "split_whitespace ''POST /v1/embeddings HTTP/1.1'' = [''POST'', ''/v1/embeddings'', ''HTTP/1.1'']"
  "split_whitespace ''POST /v1/rerank HTTP/1.1'' = [''POST'', ''/v1/rerank'', ''HTTP/1.1'']"
  by code_simp+

lemma asked_endpoints:
  "endpoint_of ''/v1/chat/completions'' = Inr (Generic ''/v1/chat/completions'')"
  "endpoint_of ''/v1/embeddings'' = Inr (Generic ''/v1/embeddings'')"
  "endpoint_of ''/v1/rerank'' = Inr (Generic ''/v1/rerank'')"
  by code_simp+

lemma asked_at_words:
  "split_whitespace (''POST '' @ asked_at k @ '' HTTP/1.1'') = [''POST'', asked_at k, ''HTTP/1.1'']"
  "endpoint_of (asked_at k) = Inr (Generic (asked_at k))"
  by (cases k; simp only: asked_at.simps append.simps asked_words asked_endpoints)+

lemma ask_head_parsed:
  assumes "length body < 2 ^ 64"
  shows "head_parse (ask_lines endpoint (asked_at k) body) = Inr (ask_head endpoint (asked_at k) body)"
proof -
  have "header_step h (''Content-Length: '' @ dec (length body)) =
      h\<lparr>h_length := Given (length body), h_headers := h_headers h @ [(''Content-Length'', dec (length body))]\<rparr>"
    for h
  proof -
    have "split_once (CHR '':'') (''Content-Length: '' @ dec (length body)) =
        Some (''Content-Length'', CHR '' '' # dec (length body))"
      by simp
    from header_step_plain [OF this] show ?thesis
      using assms parse_dec [of "length body" "2 ^ 64"] ask_names ask_names_read
      by (simp only: ask_names trim_after_space trim_dec if_True option.case)
  qed
  moreover have "header_step h (''Host: '' @ endpoint) =
      h\<lparr>h_headers := h_headers h @ [(''Host'', trim ('' '' @ endpoint))]\<rparr>" for h
    using ask_names ask_names_read by (intro header_step_named) simp_all
  moreover have "header_step h ''Content-Type: application/json'' =
      h\<lparr>h_headers := h_headers h @ [(''Content-Type'', ''application/json'')]\<rparr>" for h
    using header_step_named [of "''Content-Type: application/json''" "''Content-Type''" "'' application/json''"]
      ask_names ask_names_read by simp
  moreover have "header_step h ''Connection: close'' = h\<lparr>h_headers := h_headers h @ [(''Connection'', ''close'')]\<rparr>"
    for h
    using header_step_named [of "''Connection: close''" "''Connection''" "'' close''"]
      ask_names ask_names_read by simp
  ultimately show ?thesis
    using asked_at_words [of k] unfolding head_parse_def ask_lines_def ask_head_def
    by (simp only: list.case sum.case foldl_Cons foldl_Nil) simp
qed

lemma ask_lines_plain:
  assumes "list_all visible endpoint" and "endpoint \<noteq> []"
  shows "list_all plain_line (ask_lines endpoint (asked_at k) body)"
proof -
  have path: "list_all visible (asked_at k)" by (cases k) (simp_all add: visible_def)
  have digits: "list_all visible (dec (length body))" "dec (length body) \<noteq> []"
    using dec_digits [of "length body"] visible_digit by (auto simp: list_all_iff)
  have plain: "plain_line (pre @ l @ post)"
    if "l \<noteq> []" "list_all visible l" "list_all (\<lambda>c. visible c \<or> c = CHR '' '') (pre @ post)" for pre l post
  proof (rule plain_ascii)
    have all: "(of_char c :: nat) < 128 \<and> c \<noteq> LF \<and> c \<noteq> CR" if c: "c \<in> set (pre @ l @ post)" for c
    proof -
      have "visible c \<or> c = CHR '' ''" using c \<open>list_all visible l\<close>
          \<open>list_all (\<lambda>c. visible c \<or> c = CHR '' '') (pre @ post)\<close>
        by (auto simp: list_all_iff)
      then show ?thesis by (elim disjE) (simp_all add: visible_ascii)
    qed
    then show "list_all (\<lambda>c. (of_char c :: nat) < 128) (pre @ l @ post)" by (simp add: list_all_iff)
    show "LF \<notin> set (pre @ l @ post)" using all by blast
    have "last (pre @ l @ post) \<in> set (pre @ l @ post)" using that(1) by (intro last_in_set) simp
    then show "last (pre @ l @ post) \<noteq> CR" using all by blast
  qed (use that(1) in simp)
  have "plain_line (''POST '' @ asked_at k @ '' HTTP/1.1'')"
  proof (rule plain [OF _ path])
    show "asked_at k \<noteq> []" by (cases k) simp_all
  qed (simp add: visible_def)
  moreover have "plain_line (''Host: '' @ endpoint)"
    using plain [OF assms(2,1), of "''Host: ''" "[]"] by (simp add: visible_def)
  moreover have "plain_line (''Content-Length: '' @ dec (length body))"
    using plain [OF digits(2,1), of "''Content-Length: ''" "[]"] by (simp add: visible_def)
  moreover have "plain_line ''Content-Type: application/json''" "plain_line ''Connection: close''"
    by (simp_all add: plain_line_def utf8_valid_ascii)
  ultimately show ?thesis unfolding ask_lines_def by (simp only: list.pred_inject simp_thms)
qed

text \<open>The request a measurement sends is read back as it was meant by the router's own reader:
  the endpoint its kind of entry answers on, and the body whole, whatever is in it.\<close>

lemma measuring_request_is_read_back:
  assumes "list_all visible endpoint" and "endpoint \<noteq> []" and "length endpoint \<le> 256"
    and "length body < 2 ^ 64"
  shows "\<exists>lines h. head_read err \<lparr>i_bytes = ask_text endpoint (asked_at k) body, i_end = e\<rparr> =
      (Inr lines, \<lparr>i_bytes = body, i_end = e\<rparr>) \<and>
    head_parse lines = Inr h \<and> h_method h = ''POST'' \<and> h_endpoint h = Generic (asked_at k) \<and>
    \<not> h_chunked h \<and> fst (forward_body TakesAll chunk h [] \<lparr>i_bytes = body, i_end = e\<rparr>) = (None, body)"
proof -
  let ?lines = "ask_lines endpoint (asked_at k) body" and ?h = "ask_head endpoint (asked_at k) body"
  have "length (dec (length body)) \<le> 20" using length_dec [of 20 "length body"] assms(4) by simp
  moreover have "length (asked_at k) \<le> 20" by (cases k) simp_all
  ultimately have "length (lined ?lines @ crlf) \<le> MAX_HEAD_BYTES" "length ?lines \<le> MAX_HEADERS"
    using assms(3) by (simp_all add: ask_lines_def crlf_def MAX_HEAD_BYTES_def MAX_HEADERS_def)
  then have "head_read err \<lparr>i_bytes = ask_text endpoint (asked_at k) body, i_end = e\<rparr> =
      (Inr ?lines, \<lparr>i_bytes = body, i_end = e\<rparr>)"
    using head_read_lines [of ?lines 0 "[]" err body e] ask_lines_plain [OF assms(1,2)]
    by (simp add: head_read_def ask_text_lines)
  moreover have "fst (forward_body TakesAll chunk ?h [] \<lparr>i_bytes = body, i_end = e\<rparr>) = (None, body)"
    by (simp add: forward_body_def forward_loop_exact takes_enough_def ask_head_def body_bytes_def)
  ultimately show ?thesis
    using ask_head_parsed [OF assms(4)] by (intro exI [of _ ?lines] exI [of _ ?h]) (simp add: ask_head_def)
qed

lemma measuring_request_is_read_back_witness:
  "\<exists>lines h. head_read (\<lambda>_. []) \<lparr>i_bytes = ask_text ''127.0.0.1:9'' (asked_at Embeddings) ''x'', i_end = Closed\<rparr> =
      (Inr lines, \<lparr>i_bytes = ''x'', i_end = Closed\<rparr>) \<and> head_parse lines = Inr h \<and>
    h_endpoint h = Generic ''/v1/embeddings''"
proof -
  have "list_all visible ''127.0.0.1:9''" by (simp add: visible_def)
  from measuring_request_is_read_back [OF this, of "''x''" "\<lambda>_. []" Embeddings Closed "\<lambda>_. 1"]
  show ?thesis by (simp only: asked_at.simps) (auto simp only: list.size char.inject, fastforce)
qed

end
