(* ===== verification/Router_State.thy ===== *)
theory Router_State
  imports Slot_Room Catalog_Read Http_Reply
begin

text \<open>
  What every connection shares: \<open>proxy/shared.rs\<close> (the catalog being served and its reload, the
  child for an entry), \<open>proxy/router.rs\<close>, the residents loaded at startup
  (\<open>proxy/residents.rs\<close>), the reaper's turns (\<open>proxy/reaper.rs\<close>), the connections answered at
  once (\<open>proxy/permits.rs\<close>) and the addresses listened on (\<open>proxy/listen.rs\<close>). What other
  threads do between two of an operation's own steps is an argument.
\<close>

section \<open>What is shared\<close>

record router =
  rt_catalog :: catalog
  rt_source :: string
  rt_root :: string
  rt_slots :: slots
  rt_failures :: "string list"
  rt_window :: idle_window
  rt_access :: access
  rt_stopped :: bool

definition on_slots :: "(slots \<Rightarrow> slots) \<Rightarrow> router \<Rightarrow> router" where
  "on_slots f r = r\<lparr>rt_slots := f (rt_slots r)\<rparr>"

record limits =
  lm_budget :: budget
  lm_idle_window :: idle_window
  lm_wait :: wait
  lm_access :: access
  lm_stall :: duration
  lm_connections :: nat

definition STALL :: duration where "STALL = seconds 60"
definition CONNECTIONS :: nat where "CONNECTIONS = 256"

definition limits_new :: "budget \<Rightarrow> idle_window \<Rightarrow> wait \<Rightarrow> limits" where
  "limits_new b i w =
     \<lparr>lm_budget = b, lm_idle_window = i, lm_wait = w,
      lm_access = \<lparr>ac_key = None, ac_origins = None\<rparr>, lm_stall = STALL, lm_connections = CONNECTIONS\<rparr>"

definition with_access :: "access \<Rightarrow> limits \<Rightarrow> limits" where
  "with_access a l = l\<lparr>lm_access := a\<rparr>"

definition with_stall :: "duration \<Rightarrow> limits \<Rightarrow> limits" where
  "with_stall d l = l\<lparr>lm_stall := d\<rparr>"

definition with_connections :: "nat \<Rightarrow> limits \<Rightarrow> limits" where
  "with_connections n l = l\<lparr>lm_connections := n\<rparr>"

definition router_new :: "catalog \<Rightarrow> string \<Rightarrow> string \<Rightarrow> limits \<Rightarrow> router" where
  "router_new c source root l =
     \<lparr>rt_catalog = c, rt_source = source, rt_root = root,
      rt_slots = slots_new c (lm_budget l) (lm_wait l), rt_failures = [],
      rt_window = lm_idle_window l, rt_access = lm_access l, rt_stopped = False\<rparr>"

definition router_loaded :: "router \<Rightarrow> string list" where
  "router_loaded r = loaded_ids (rt_catalog r) (rt_slots r)"

definition router_waiting :: "router \<Rightarrow> nat" where
  "router_waiting r = in_line (rt_slots r)"

text \<open>\<open>order\<close> is the order the table of slots is iterated in.\<close>

definition router_stop :: "string list \<Rightarrow> router \<Rightarrow> router" where
  "router_stop order r = (on_slots (clear order) r)\<lparr>rt_stopped := True\<rparr>"

definition known_text :: "catalog \<Rightarrow> string" where
  "known_text c = join '', '' (ids_of c)"

section \<open>The child for an entry\<close>

text \<open>
  What a call meets: the router before the call reads the catalog, the clock and the others on
  the way to the admission lock, the turns of the wait, the load, and the catalog served when
  the call returns.
\<close>

record calling =
  cl_between :: "router \<Rightarrow> router"
  cl_now :: instant
  cl_race :: "slots \<Rightarrow> slots"
  cl_admitted :: instant
  cl_turns :: "turn list"
  cl_loading :: loading
  cl_served :: "catalog \<Rightarrow> catalog"

definition shared_child ::
    "files \<Rightarrow> asked \<Rightarrow> calling \<Rightarrow> router \<Rightarrow> (router \<times> (failure + nat)) option" where
  "shared_child fs a k r =
     (let r1 = cl_between k r in
      case child_for fs (rt_catalog r1) a (rt_root r1) (cl_now k) (cl_race k) (cl_admitted k)
             (cl_turns k) (cl_loading k) (rt_slots r1) of
        None \<Rightarrow> None
      | Some (s, x) \<Rightarrow>
          Some (r1\<lparr>rt_slots := s, rt_catalog := cl_served k (rt_catalog r1)\<rparr>, x))"

section \<open>Reloading\<close>

record reloaded =
  rl_added :: "string list"
  rl_removed :: "string list"
  rl_superseded :: "string list"

definition superseded :: "catalog \<Rightarrow> catalog \<Rightarrow> string \<Rightarrow> bool" where
  "superseded previous parsed i =
     (case (catalog_entry previous i, catalog_entry parsed i) of
        (Some was, Some now) \<Rightarrow> was \<noteq> now
      | (Some _, None) \<Rightarrow> True
      | _ \<Rightarrow> False)"

text \<open>
  \<open>file\<close> is the catalog file read as text, \<open>race\<close> what happens until the admission lock is had,
  \<open>meanwhile\<close> what others do between the look at what is loaded and the change of the table.
\<close>

definition reload_catalog ::
    "(string \<Rightarrow> string + table) \<Rightarrow> string + string \<Rightarrow> (router \<Rightarrow> router) \<Rightarrow> (slots \<Rightarrow> slots) \<Rightarrow>
     router \<Rightarrow> router \<times> (string + reloaded)" where
  "reload_catalog toml src race meanwhile r =
     (case src of
        Inl e \<Rightarrow> (r, Inl (''cannot read '' @ rt_source r @ '': '' @ e))
      | Inr contents \<Rightarrow>
          (case catalog_parse toml contents of
             Inl problems \<Rightarrow> (r, Inl (report_text problems))
           | Inr parsed \<Rightarrow>
               (let r1 = race r;
                    previous = rt_catalog r1;
                    before = ids_of previous;
                    after = ids_of parsed;
                    added = filter (\<lambda>i. i \<notin> set before) after;
                    removed = filter (\<lambda>i. i \<notin> set after) before;
                    changed = filter (superseded previous parsed)
                      (loaded_ids previous (rt_slots r1));
                    r2 = on_slots (\<lambda>s. resync parsed (meanwhile s)) r1 in
                (r2\<lparr>rt_catalog := parsed\<rparr>,
                 Inr \<lparr>rl_added = added, rl_removed = removed, rl_superseded = changed\<rparr>))))"

section \<open>The residents\<close>

text \<open>Loaded one after another under the catalog read once; \<open>took\<close> prints the seconds of each.\<close>

fun residents_loop ::
    "files \<Rightarrow> entry list \<Rightarrow> (calling \<times> string) list \<Rightarrow> router \<Rightarrow> router option" where
  "residents_loop fs [] ks r = Some r"
| "residents_loop fs (e # es) [] r = None"
| "residents_loop fs (e # es) ((k, took) # ks) r =
     (case shared_child fs \<lparr>a_entry = e, a_room = Any\<rparr> k r of
        None \<Rightarrow> None
      | Some (r1, Inr child) \<Rightarrow>
          residents_loop fs es ks
            (on_slots (lease_drop child)
              (on_slots (say (''resident '' @ e_id e @ '' loaded in '' @ took @ '' seconds'')) r1))
      | Some (r1, Inl failure) \<Rightarrow>
          (let reported = e_id e @ '': '' @ failure_text failure;
               r2 = on_slots (\<lambda>s. complain ''  serving the rest of the catalog without it''
                      (complain (''resident '' @ reported) s)) r1 in
           residents_loop fs es ks (r2\<lparr>rt_failures := rt_failures r2 @ [reported]\<rparr>)))"

definition residents_load :: "files \<Rightarrow> (calling \<times> string) list \<Rightarrow> router \<Rightarrow> router option" where
  "residents_load fs ks r =
     residents_loop fs (filter (\<lambda>e. e_residency e = Resident) (c_entries (rt_catalog r))) ks r"

section \<open>The reaper\<close>

definition idle_text :: "string \<Rightarrow> string" where
  "idle_text i = i @ '' unloaded after sitting idle past its configured window''"

definition reaper_sweep :: "instant \<Rightarrow> router \<Rightarrow> router" where
  "reaper_sweep now r =
     on_slots (\<lambda>s. case sweep_idle (rt_catalog r) (rt_window r) now (sweep_exited (rt_catalog r) s) of
        (s', gone) \<Rightarrow> fold (\<lambda>i. say (idle_text i)) gone s') r"

text \<open>
  The reaper's life, tick by tick: whether the router is still there, when the tick begins, what
  others do while it sleeps to its deadline, and when it wakes. The deadlines slept to are
  returned with the router.
\<close>

record tick =
  tk_alive :: bool
  tk_begin :: instant
  tk_sleep :: "router \<Rightarrow> router"
  tk_wake :: instant

fun reaper_run :: "instant option \<Rightarrow> tick list \<Rightarrow> router \<Rightarrow> router \<times> instant list" where
  "reaper_run deadline [] r = (r, [])"
| "reaper_run deadline (t # ts) r =
     (if \<not> tk_alive t then (r, [])
      else
        (case window_duration (rt_window r) of
           None \<Rightarrow> (r, [])
         | Some window \<Rightarrow>
             (let next = next_sweep deadline window (tk_begin t);
                  r1 = tk_sleep t r in
              if rt_stopped r1 then (r1, [])
              else
                (case reaper_run (Some next) ts (reaper_sweep (tk_wake t) r1) of
                   (r2, deadlines) \<Rightarrow> (r2, next # deadlines)))))"

section \<open>How many connections are answered at once\<close>

definition permits_new :: "nat \<Rightarrow> nat" where
  "permits_new limit = max limit 1"

definition permit_take :: "nat \<Rightarrow> nat option" where
  "permit_take free = (if free = 0 then None else Some (free - 1))"

definition permit_give :: "nat \<Rightarrow> nat" where
  "permit_give free = free + 1"

text \<open>
  The accept loops: turns free, listeners waiting for a connection with a turn in hand, and
  connections being answered.
\<close>

record door =
  dr_free :: nat
  dr_accepting :: nat
  dr_answering :: nat

inductive accept_step :: "nat \<Rightarrow> door \<Rightarrow> door \<Rightarrow> bool" for listeners where
  takes: "dr_accepting d < listeners \<Longrightarrow> permit_take (dr_free d) = Some free \<Longrightarrow>
    accept_step listeners d (d\<lparr>dr_free := free, dr_accepting := dr_accepting d + 1\<rparr>)"
| fails: "0 < dr_accepting d \<Longrightarrow>
    accept_step listeners d (d\<lparr>dr_free := permit_give (dr_free d), dr_accepting := dr_accepting d - 1\<rparr>)"
| accepts: "0 < dr_accepting d \<Longrightarrow>
    accept_step listeners d
      (d\<lparr>dr_accepting := dr_accepting d - 1, dr_answering := dr_answering d + 1\<rparr>)"
| ends: "0 < dr_answering d \<Longrightarrow>
    accept_step listeners d (d\<lparr>dr_free := permit_give (dr_free d), dr_answering := dr_answering d - 1\<rparr>)"

definition door_new :: "nat \<Rightarrow> door" where
  "door_new limit = \<lparr>dr_free = permits_new limit, dr_accepting = 0, dr_answering = 0\<rparr>"

section \<open>The threads of a serving router\<close>

text \<open>
  One loop accepts on each listener, the last on the caller's own thread; the residents load on a
  thread of their own, and only a router with an idle window has a reaper.
\<close>

datatype worker = ResidentsWorker | ReaperWorker | AcceptWorker nat

definition accept_workers :: "nat \<Rightarrow> worker list" where
  "accept_workers listeners =
     (if listeners = 0 then []
      else map AcceptWorker [0..<listeners - 1] @ [AcceptWorker (listeners - 1)])"

definition serve_workers :: "nat \<Rightarrow> router \<Rightarrow> worker list" where
  "serve_workers listeners r =
     ResidentsWorker # (if window_duration (rt_window r) \<noteq> None then [ReaperWorker] else [])
       @ accept_workers listeners"

section \<open>The addresses\<close>

text \<open>Binding an address and asking a listener where it is are the operating system's.\<close>

record address =
  ad_text :: string
  ad_wildcard :: bool

definition nothing_given :: failure where
  "nothing_given = Unavailable ''refusing to serve: no address to listen on was given''"

definition reserve_one :: "(address \<Rightarrow> string + 'l) \<Rightarrow> address \<Rightarrow> failure + 'l" where
  "reserve_one bind ad =
     (if ad_wildcard ad then
        Inl (Unavailable (''refusing to bind '' @ ad_text ad @ '': a wildcard is every interface this ''
          @ ''machine has and every one it gains later, which is a reach ''
          @ ''nothing stated -- name the interface to serve on instead''))
      else
        (case bind ad of
           Inl e \<Rightarrow> Inl (Unavailable (''cannot bind '' @ ad_text ad @ '': '' @ e))
         | Inr l \<Rightarrow> Inr l))"

fun collect :: "('a \<Rightarrow> 'e + 'b) \<Rightarrow> 'a list \<Rightarrow> 'e + 'b list" where
  "collect f [] = Inr []"
| "collect f (x # xs) =
     (case f x of
        Inl e \<Rightarrow> Inl e
      | Inr y \<Rightarrow> (case collect f xs of Inl e \<Rightarrow> Inl e | Inr ys \<Rightarrow> Inr (y # ys)))"

definition reserve :: "(address \<Rightarrow> string + 'l) \<Rightarrow> address list \<Rightarrow> failure + 'l list" where
  "reserve bind ads = (if ads = [] then Inl nothing_given else collect (reserve_one bind) ads)"

definition assigned :: "('l \<Rightarrow> string + string) \<Rightarrow> 'l list \<Rightarrow> failure + string \<times> string list" where
  "assigned local listeners =
     (case collect (\<lambda>l. case local l of
              Inl e \<Rightarrow> Inl (Unavailable (''cannot read the address bound: '' @ e))
            | Inr ad \<Rightarrow> Inr ad) listeners of
        Inl f \<Rightarrow> Inl f
      | Inr [] \<Rightarrow> Inl nothing_given
      | Inr (first # rest) \<Rightarrow> Inr (first, first # rest))"

definition router_bind ::
    "(address \<Rightarrow> string + 'l) \<Rightarrow> ('l \<Rightarrow> string + string) \<Rightarrow> address list \<Rightarrow> catalog \<Rightarrow> string \<Rightarrow>
     string \<Rightarrow> limits \<Rightarrow> failure + string \<times> string list \<times> router" where
  "router_bind bind local ads c source root l =
     (case reserve bind ads of
        Inl f \<Rightarrow> Inl f
      | Inr listeners \<Rightarrow>
          (case assigned local listeners of
             Inl f \<Rightarrow> Inl f
           | Inr (first, all) \<Rightarrow> Inr (first, all, router_new c source root l)))"

text \<open>
  The wait for an address to be assigned: each try of it and when the try was made, and what is
  said, once. \<open>None\<close> is a wait still going when the tries given run out.
\<close>

datatype bind_try = Bound | NotAssigned | OtherRefusal

definition ASSIGNED_WITHIN :: duration where
  "ASSIGNED_WITHIN = seconds 30"

definition waiting_text :: "address \<Rightarrow> string" where
  "waiting_text ad = ''waiting for '' @ ad_text ad @ '' to be assigned to an interface''"

fun await_one :: "instant \<Rightarrow> address \<Rightarrow> bool \<Rightarrow> (bind_try \<times> instant) list \<Rightarrow> string list option" where
  "await_one deadline ad told [] = None"
| "await_one deadline ad told ((b, now) # tries) =
     (if b = Bound then Some []
      else if b \<noteq> NotAssigned \<or> deadline \<le> now then Some []
      else
        (case await_one deadline ad True tries of
           None \<Rightarrow> None
         | Some notices \<Rightarrow> Some (if told then notices else waiting_text ad # notices)))"

fun await_assigned ::
    "instant \<Rightarrow> (address \<times> (bind_try \<times> instant) list) list \<Rightarrow> string list option" where
  "await_assigned deadline [] = Some []"
| "await_assigned deadline ((ad, tries) # rest) =
     (case await_one deadline ad False tries of
        None \<Rightarrow> None
      | Some notices \<Rightarrow>
          (case await_assigned deadline rest of None \<Rightarrow> None | Some said_next \<Rightarrow> Some (notices @ said_next)))"

end
