(* ===== verification/Http_Answer.thy ===== *)
theory Http_Answer
  imports Router_State Http_Relay
begin

text \<open>
  What one connection is answered with, \<open>proxy/answer/connection.rs\<close>, and the answers that
  change something, \<open>reload\<close>, \<open>load\<close> and \<open>unload\<close> of \<open>proxy/answer/own.rs\<close>. A connection is
  its bytes with everything its thread meets on the way: what other threads do between its
  steps, the catalog file, the child's answers. The result is the router afterwards, what the
  caller was written and what a child was sent; \<open>None\<close> is a request still waiting for room
  when the turns given run out.
\<close>

section \<open>A connection\<close>

record caller =
  cn_input :: input
  cn_err :: "read_error \<Rightarrow> string"
  cn_json :: codec
  cn_build :: build
  cn_reading :: "router \<Rightarrow> router"
  cn_toml :: "string \<Rightarrow> string + table"
  cn_catalog :: "string + string"
  cn_race :: "router \<Rightarrow> router"
  cn_meanwhile :: "slots \<Rightarrow> slots"
  cn_files :: files
  cn_calling :: calling
  cn_proceed_ok :: bool
  cn_endpoint :: "nat \<Rightarrow> string"
  cn_upstream :: upstream
  cn_chunk :: "nat \<Rightarrow> nat"
  cn_response :: "string list"
  cn_writes :: "bool list"
  cn_relaying :: "router \<Rightarrow> router"
  cn_ended :: instant

record outcome =
  oc_replied :: string
  oc_sent :: "(nat \<times> string) option"

definition told :: "reply \<Rightarrow> outcome" where
  "told rp = \<lparr>oc_replied = reply_text rp, oc_sent = None\<rparr>"

definition turned_away :: "caller \<Rightarrow> string \<Rightarrow> request_refusal \<Rightarrow> outcome" where
  "turned_away cn before rf =
     \<lparr>oc_replied = before @ reply_text (refuse (cn_json cn) rf), oc_sent = None\<rparr>"

section \<open>Framing\<close>

fun about :: "endpoint \<Rightarrow> string" where
  "about (Dedicated i _) = ''entry '' @ quoted i"
| "about (Generic _) = ''the generic endpoint''"
| "about Listing = ''the model listing''"
| "about Catalogue = ''the catalogue''"
| "about Properties = ''the server'' @ quote1 @ ''s properties''"
| "about Metrics = ''the metrics''"
| "about Reload = ''the reload''"
| "about Load = ''a load or an unload''"
| "about UnloadModel = ''a load or an unload''"

definition framing :: "head \<Rightarrow> request_refusal + unit" where
  "framing h =
     (if h_chunked h then
        Inl (refusal_new ChunkedBody (about (h_endpoint h)
          @ '': this router does not implement chunked request bodies; send a body with a Content-Length''))
      else
        (case h_length h of
           Malformed v \<Rightarrow>
             Inl (refusal_new MalformedLength (quoted (''Content-Length: '' @ v)
               @ '' is not a length this router can read; send a byte count, or no such header at all''))
         | _ \<Rightarrow> Inr ()))"

definition declared_body :: "length_header \<Rightarrow> request_refusal + nat" where
  "declared_body l =
     (case l of
        Given declared \<Rightarrow>
          (if MAX_BODY_BYTES < declared then
             Inl (refusal_new BodyTooLarge (''a request body of '' @ dec declared
               @ '' bytes is larger than the '' @ dec MAX_BODY_BYTES @ '' this router will read''))
           else Inr declared)
      | _ \<Rightarrow>
          Inl (refusal_new LengthRequired
            (''the generic endpoint routes on the '' @ quoted ''model'' @ '' field of the request ''
             @ ''body, so it needs one and a Content-Length that declares it; or ''
             @ ''address a model directly at /models/<model>/<path>'')))"

section \<open>From the head\<close>

definition not_answered_text :: "head \<Rightarrow> string" where
  "not_answered_text h =
     h_method h @ '' is not a method this endpoint answers; it accepts '' @ allowed (h_endpoint h)"

text \<open>Everything decided before anything is looked up: the reply, or the head and its room.\<close>

definition screened :: "caller \<Rightarrow> access \<Rightarrow> reply + head \<times> allowed_room \<times> input" where
  "screened cn ac =
     (case head_read (cn_err cn) (cn_input cn) of
        (Inl rf, _) \<Rightarrow> Inl (refuse (cn_json cn) rf)
      | (Inr lines, rest) \<Rightarrow>
          (case head_parse lines of
             Inl rf \<Rightarrow> Inl (refuse (cn_json cn) rf)
           | Inr h \<Rightarrow>
               (case access_admits ac h of
                  Inl rf \<Rightarrow> Inl (refuse (cn_json cn) rf)
                | Inr _ \<Rightarrow>
                    (if h_method h = ''OPTIONS'' then Inl (preflight (h_endpoint h))
                     else if \<not> allows (h_endpoint h) (h_method h) then
                       Inl (refuse (cn_json cn)
                         (refusal_new (MethodNotAllowed (allowed (h_endpoint h))) (not_answered_text h)))
                     else
                       (case framing h of
                          Inl rf \<Rightarrow> Inl (refuse (cn_json cn) rf)
                        | Inr _ \<Rightarrow>
                            (case h_room h of
                               Inl rf \<Rightarrow> Inl (refuse (cn_json cn) rf)
                             | Inr room \<Rightarrow> Inr (h, room, rest)))))))"

section \<open>The answers that change something\<close>

definition answered :: "caller \<Rightarrow> string \<Rightarrow> request_refusal + json \<Rightarrow> outcome" where
  "answered cn before result =
     (case result of
        Inr v \<Rightarrow> \<lparr>oc_replied = before @ reply_text (json_reply (cn_json cn) v False), oc_sent = None\<rparr>
      | Inl rf \<Rightarrow> turned_away cn before rf)"

definition success_json :: json where
  "success_json = jobj [(''success'', JBool True)]"

definition reloaded_json :: "reloaded \<Rightarrow> json" where
  "reloaded_json x =
     jobj [(''object'', JStr ''reload''), (''added'', JArr (map JStr (rl_added x))),
       (''removed'', JArr (map JStr (rl_removed x))),
       (''superseded'', JArr (map JStr (rl_superseded x)))]"

definition answer_reload :: "caller \<Rightarrow> router \<Rightarrow> router \<times> outcome" where
  "answer_reload cn r =
     (case reload_catalog (cn_toml cn) (cn_catalog cn) (cn_race cn) (cn_meanwhile cn) r of
        (r', Inr changed) \<Rightarrow> (r', answered cn [] (Inr (reloaded_json changed)))
      | (r', Inl why) \<Rightarrow>
          (r', answered cn [] (Inl (refusal_new CatalogUnreadable
            (''the catalog was not reloaded and the one already serving is untouched: '' @ why)))))"

definition answer_load ::
    "caller \<Rightarrow> string \<Rightarrow> entry \<Rightarrow> allowed_room \<Rightarrow> router \<Rightarrow> (router \<times> outcome) option" where
  "answer_load cn before e room r =
     (case shared_child (cn_files cn) \<lparr>a_entry = e, a_room = room\<rparr> (cn_calling cn) r of
        None \<Rightarrow> None
      | Some (r', Inr child) \<Rightarrow>
          Some (on_slots (lease_drop child) r', answered cn before (Inr success_json))
      | Some (r', Inl f) \<Rightarrow> Some (r', answered cn before (Inl (refusal_from f))))"

definition busy_text :: "entry \<Rightarrow> string" where
  "busy_text e = quoted (e_id e) @ '' is answering a request; unload it once that ends''"

definition answer_unload :: "caller \<Rightarrow> string \<Rightarrow> entry \<Rightarrow> router \<Rightarrow> router \<times> outcome" where
  "answer_unload cn before e r =
     (case let_go (e_id e) (rt_slots r) of
        (s, gone) \<Rightarrow>
          (r\<lparr>rt_slots := s\<rparr>,
           answered cn before
             (if gone then Inr success_json else Inl (refusal_new ModelBusy (busy_text e)))))"

section \<open>A model's answer\<close>

definition model_of :: "codec \<Rightarrow> string \<Rightarrow> string + string option" where
  "model_of js bytes =
     (case js_parse js bytes of
        Inl e \<Rightarrow> Inl e
      | Inr v \<Rightarrow> Inr (case json_get v ''model'' of Some (JStr m) \<Rightarrow> Some m | _ \<Rightarrow> None))"

text \<open>
  The model wanted, the body if it was read to find out, and what is left to read, with what the
  caller was told to begin with; or the refusal, \<open>None\<close> when the caller could not be told to
  send.
\<close>

definition model_wanted ::
    "caller \<Rightarrow> head \<Rightarrow> input \<Rightarrow>
     string \<times> (request_refusal option + string \<times> string option \<times> input)" where
  "model_wanted cn h rest =
     (case h_endpoint h of
        Dedicated i _ \<Rightarrow> ([], Inr (i, None, rest))
      | _ \<Rightarrow>
          (case declared_body (h_length h) of
             Inl rf \<Rightarrow> ([], Inl (Some rf))
           | Inr declared \<Rightarrow>
               (if h_expects_continue h \<and> \<not> cn_proceed_ok cn then ([], Inl None)
                else
                  (if h_expects_continue h then proceed_text else [],
                   case body_read (cn_err cn) (model_of (cn_json cn)) declared rest of
                     (Inl rf, _) \<Rightarrow> Inl (Some rf)
                   | (Inr (bytes, model), rest') \<Rightarrow> Inr (model, Some bytes, rest')))))"

definition unknown_text :: "string \<Rightarrow> catalog \<Rightarrow> string" where
  "unknown_text wanted c =
     ''no model called '' @ quoted wanted @ ''; this catalog carries: '' @ known_text c"

text \<open>The relay, the stamp of when it ended, and the child let go of.\<close>

definition answer_child ::
    "caller \<Rightarrow> string \<Rightarrow> head \<Rightarrow> string option \<Rightarrow> input \<Rightarrow> entry \<Rightarrow> nat \<Rightarrow> router \<Rightarrow> router \<times> outcome" where
  "answer_child cn before h buffered rest e child r =
     (let holds = buffered = None \<and> h_expects_continue h \<and> 0 < body_bytes h in
      if holds \<and> \<not> cn_proceed_ok cn then
        (on_slots (lease_drop child) r, \<lparr>oc_replied = before, oc_sent = None\<rparr>)
      else
        (case relay_request (cn_upstream cn) (cn_chunk cn) h (cn_endpoint cn child) buffered rest of
           ((ok, sent), _) \<Rightarrow>
             (on_slots (\<lambda>s. lease_drop child (touch (e_id e) (cn_ended cn) s)) (cn_relaying cn r),
              \<lparr>oc_replied = before @ (if holds then proceed_text else [])
                 @ (if ok then concat (relay_response (cn_response cn) (cn_writes cn)) else []),
               oc_sent = (if cn_upstream cn = Refuses then None else Some (child, sent))\<rparr>)))"

definition to_model ::
    "caller \<Rightarrow> head \<Rightarrow> allowed_room \<Rightarrow> input \<Rightarrow> router \<Rightarrow> (router \<times> outcome) option" where
  "to_model cn h room rest r =
     (case model_wanted cn h rest of
        (before, Inl None) \<Rightarrow> Some (r, \<lparr>oc_replied = before, oc_sent = None\<rparr>)
      | (before, Inl (Some rf)) \<Rightarrow> Some (r, turned_away cn before rf)
      | (before, Inr (wanted, buffered, rest')) \<Rightarrow>
          (let r1 = cn_reading cn r in
           case catalog_entry (rt_catalog r1) wanted of
             None \<Rightarrow>
               (let r2 = cl_between (cn_calling cn) r1 in
                Some (r2, turned_away cn before
                  (refusal_new ModelNotFound (unknown_text wanted (rt_catalog r2)))))
           | Some e \<Rightarrow>
               (case h_endpoint h of
                  Load \<Rightarrow> answer_load cn before e room r1
                | UnloadModel \<Rightarrow> Some (answer_unload cn before e r1)
                | _ \<Rightarrow>
                    (case shared_child (cn_files cn) \<lparr>a_entry = e, a_room = room\<rparr> (cn_calling cn) r1 of
                       None \<Rightarrow> None
                     | Some (r2, Inl f) \<Rightarrow> Some (r2, turned_away cn before (refusal_from f))
                     | Some (r2, Inr child) \<Rightarrow>
                         Some (answer_child cn before h buffered rest' e child r2)))))"

section \<open>The answer\<close>

definition answer_to :: "caller \<Rightarrow> router \<Rightarrow> (router \<times> outcome) option" where
  "answer_to cn r =
     (case screened cn (rt_access r) of
        Inl rp \<Rightarrow> Some (r, told rp)
      | Inr (h, room, rest) \<Rightarrow>
          (let head_only = h_method h = ''HEAD''; js = cn_json cn in
           case h_endpoint h of
             Listing \<Rightarrow> Some (r, told (listing_reply js (rt_catalog r) head_only))
           | Catalogue \<Rightarrow> Some (r, told (catalogue_reply js (rt_catalog r) (rt_slots r) head_only))
           | Properties \<Rightarrow> Some (r, told (properties_reply js (cn_build cn) head_only))
           | Metrics \<Rightarrow> Some (r, told (metrics_reply (cn_build cn) (rt_catalog r) (rt_slots r) head_only))
           | Reload \<Rightarrow> Some (answer_reload cn r)
           | _ \<Rightarrow> to_model cn h room rest r))"

end
