(* ===== verification/Slot_Leases.thy ===== *)
theory Slot_Leases
  imports Slot_Waits Interleaving
begin

text \<open>
  The leases an operation hands out, along the whole way from the fast path to a started child:
  a call that fails leaves every lease as it was, and one that succeeds adds exactly one lease
  on the child it returns. Other threads, between the steps, give back what they take.
\<close>

section \<open>Quiet operations\<close>

definition quietly :: "slots \<Rightarrow> slots \<Rightarrow> bool" where
  "quietly s s' =
     (slots_ok s' \<and> leases s' = leases s \<and>
      (\<forall>i. held_in s i = None \<longrightarrow> held_in s' i = None) \<and>
      (\<forall>c. heap_of s c = None \<longrightarrow> heap_of s' c = None))"

definition quiet :: "(slots \<Rightarrow> slots) \<Rightarrow> bool" where
  "quiet f = (\<forall>s. slots_ok s \<longrightarrow> quietly s (f s))"

lemma quiet_use: "quiet f \<Longrightarrow> slots_ok s \<Longrightarrow> quietly s (f s)"
  by (simp add: quiet_def)

lemma quiet_id [simp]: "quiet (\<lambda>s. s)"
  by (simp add: quiet_def quietly_def)

lemma quietly_ok: "quietly s s' \<Longrightarrow> slots_ok s'"
  by (simp add: quietly_def)

lemma quietly_refl [intro]: "slots_ok s \<Longrightarrow> quietly s s"
  by (simp add: quietly_def)

lemma quietly_trans [trans]: "quietly s s' \<Longrightarrow> quietly s' s'' \<Longrightarrow> quietly s s''"
  by (simp add: quietly_def)

text \<open>What only unloads starts no child, so it is quiet.\<close>

lemma quietly_fewer:
  assumes "slots_ok s" and "slots_ok s'" and "only_fewer s s'"
  shows "quietly s s'"
proof -
  have "in_slot s' c \<Longrightarrow> in_slot s c" for c
    using assms(3) by (auto simp: only_fewer_def in_slot_def)
  then have "heap_of s c = None \<longrightarrow> heap_of s' c = None" for c
    using ok_alive [OF assms(1), of c] ok_alive [OF assms(2), of c] assms(3)
    by (auto simp: only_fewer_def)
  with assms show ?thesis
    using fewer_lesser_None [OF assms(3)] by (simp add: quietly_def only_fewer_def)
qed

lemma quietly_exits: "slots_ok s \<Longrightarrow> quietly s (sweep_exited c s)"
  by (rule quietly_fewer) (simp_all add: exits.keeps_ok fewer_sweep_exited)

lemma quietly_idles: "slots_ok s \<Longrightarrow> quietly s (fst (sweep_idle c w now s))"
  by (rule quietly_fewer) (simp_all add: idles.keeps_ok fewer_sweep_idle)

lemma quietly_unload: "slots_ok s \<Longrightarrow> quietly s (fst (unload is s))"
  by (rule quietly_fewer) (simp_all add: unloading.keeps_ok fewer_unload)

lemma quietly_let_go: "slots_ok s \<Longrightarrow> quietly s (fst (let_go i s))"
  by (rule quietly_fewer) (simp_all add: letting.keeps_ok fewer_let_go)

lemma quietly_resync: "slots_ok s \<Longrightarrow> quietly s (resync c s)"
  by (rule quietly_fewer) (simp_all add: ok_resync fewer_resync)

lemma quietly_touch: "slots_ok s \<Longrightarrow> quietly s (touch i now s)"
  using lesser_None [OF lesser_touch, of s _ i now] by (simp add: quietly_def ok_touch)

lemma quietly_say: "slots_ok s \<Longrightarrow> quietly s (say l s)"
  by (rule quietly_fewer) (auto intro: removed_ok removed_said removed_refl)

lemma quietly_says: "slots_ok s \<Longrightarrow> quietly s (fold (\<lambda>x. say (f x)) xs s)"
proof (induction xs arbitrary: s)
  case Nil
  then show ?case by (simp add: quietly_refl)
next
  case (Cons x xs)
  have "quietly s (say (f x) s)" using Cons.prems by (rule quietly_say)
  with Cons.IH [OF quietly_ok] show ?case by (auto intro: quietly_trans)
qed

lemma quietly_join: "slots_ok s \<Longrightarrow> quietly s (fst (join_line t s))"
  by (simp add: quietly_def ok_join_line)

lemma quietly_leave: "slots_ok s \<Longrightarrow> quietly s (leave_line t s)"
  by (simp add: quietly_def ok_leave_line)

lemma quietly_running:
  assumes "slots_ok s" and "running e now s = (s', None)"
  shows "quietly s s'"
proof (rule quietly_fewer [OF assms(1) ok_running [OF assms]])
  show "only_fewer s s'"
    using assms(2) by (cases rule: running_cases) (simp_all add: only_fewer_def)
qed

section \<open>A lease handed out\<close>

definition leased :: "slots \<Rightarrow> nat \<Rightarrow> slots \<Rightarrow> bool" where
  "leased s ch s' = (slots_ok s' \<and> leases s' = add_mset ch (leases s))"

lemma quietly_leased: "quietly s s' \<Longrightarrow> leased s' ch s'' \<Longrightarrow> leased s ch s''"
  by (simp add: quietly_def leased_def)

lemma leased_quietly: "leased s ch s' \<Longrightarrow> quietly s' s'' \<Longrightarrow> leased s ch s''"
  by (simp add: quietly_def leased_def)

lemma leased_dropped: "leased s ch s' \<Longrightarrow> slots_ok (lease_drop ch s') \<and> leases (lease_drop ch s') = leases s"
  using ok_lease_drop [of s' ch] by (simp add: leased_def lease_drop_def)

lemma leased_running:
  assumes "slots_ok s" and "running e now s = (s', Some ch)"
  shows "leased s ch s'"
  using assms(2) ok_running [OF assms]
  by (cases rule: running_cases) (auto simp: leased_def)

section \<open>The wait\<close>

definition quiet_turn :: "turn \<Rightarrow> bool" where
  "quiet_turn t = (quiet (t_race t) \<and> quiet (t_sleep t))"

text \<open>What a wait came to, against where it began.\<close>

definition settles :: "string \<Rightarrow> slots \<Rightarrow> failure + nat option \<Rightarrow> slots \<Rightarrow> bool" where
  "settles i s r s' =
     (case r of
        Inl _ \<Rightarrow> quietly s s'
      | Inr None \<Rightarrow> quietly s s' \<and> held_in s' i = None
      | Inr (Some ch) \<Rightarrow> leased s ch s')"

lemma quietly_settles: "quietly s s' \<Longrightarrow> settles i s' r s'' \<Longrightarrow> settles i s r s''"
  by (auto simp: settles_def intro: quietly_trans quietly_leased split: sum.splits option.splits)

lemma settles_quietly: "settles i s r s' \<Longrightarrow> quietly s' s'' \<Longrightarrow> settles i s r s''"
  by (auto simp: settles_def intro: quietly_trans leased_quietly split: sum.splits option.splits)
    (simp add: quietly_def)

lemma quietly_look:
  assumes "look c a device race may s = (s', r)" and "slots_ok s" and "quiet race"
  shows "quietly s s'"
proof -
  have "quietly s (fst (unload is (race (say l s))))" for "is" l
    using quietly_say [OF assms(2), of l] quiet_use [OF assms(3) quietly_ok] quietly_unload quietly_ok
      quietly_trans by metis
  with assms(1,2) show ?thesis
    by (auto simp: look_def Let_def split: option.splits decision.splits if_splits prod.splits)
      (metis fst_conv)+
qed

lemma turn_settles:
  assumes "turn_step fs c a root arrived ticket t s = (s', r)" and "slots_ok s" and "quiet_turn t"
  shows "case r of Inl x \<Rightarrow> settles (e_id (a_entry a)) s x s' | Inr _ \<Rightarrow> quietly s s'"
  using assms(1)
proof (cases rule: turn_cases)
  case reloaded
  with assms(2) show ?thesis by (auto simp: settles_def)
next
  case (found ch)
  with leased_running [OF assms(2)] show ?thesis by (auto simp: settles_def)
next
  case (missing f)
  with quietly_running [OF assms(2)] show ?thesis by (auto simp: settles_def)
next
  case (looked s1 s2 x)
  have s1: "quietly s s1" "slots_ok s1" "held_in s1 (e_id (a_entry a)) = None"
    using quietly_running [OF assms(2) looked(1)] running_None [OF looked(1)] by (auto dest: quietly_ok)
  have "quietly s1 s2" using s1(2) looked(2) quietly_exits by auto
  moreover from this have "quietly s2 s'"
    using quietly_look [OF looked(3)] assms(3) quietly_ok by (simp add: quiet_turn_def)
  ultimately have "quietly s1 s'" by (rule quietly_trans)
  with s1 have "quietly s s'" "held_in s' (e_id (a_entry a)) = None"
    by (auto intro: quietly_trans simp: quietly_def)
  with looked(4) show ?thesis
    by (auto simp: ended_def settles_def split: sum.splits seen.splits)
qed

lemma wait_loop_settles:
  assumes "wait_loop fs c a root deadline arrived ts ticket s = Some (s', ticket', r)"
    and "slots_ok s" and "list_all quiet_turn ts"
  shows "settles (e_id (a_entry a)) s r s'"
proof -
  have quiet: "quiet_turn t" if "t \<in> set ts" for t using that assms(3) by (simp add: list_all_iff)
  have on: "quietly s (t_sleep t (fst (join_line tk s1)))"
    if "t \<in> set ts" "quietly s s0" "turn_step fs c a root arrived tk t s0 = (s1, Inr m)" for t tk s0 s1 m
  proof -
    have "quietly s0 s1" using turn_settles [OF that(3) quietly_ok [OF that(2)] quiet [OF that(1)]] by simp
    then have "quietly s (fst (join_line tk s1))"
      using that(2) quietly_join [of s1 tk] by (blast intro: quietly_trans quietly_ok)
    with quiet [OF that(1)] show ?thesis
      using quiet_use quietly_ok quietly_trans unfolding quiet_turn_def by blast
  qed
  obtain t s0 tk where last: "t \<in> set ts" "quietly s s0"
      "turn_step fs c a root arrived tk t s0 = (s', Inl r) \<or>
       (\<exists>m m'. turn_step fs c a root arrived tk t s0 = (s', Inr m) \<and> r = Inl m')"
    by (rule wait_loop_from [where P = "quietly s", OF assms(1) quietly_refl [OF assms(2)]])
      (use on in blast)+
  have "settles (e_id (a_entry a)) s0 r s'"
    using last(3) turn_settles [OF _ quietly_ok [OF last(2)] quiet [OF last(1)]]
    by (fastforce simp: settles_def)
  with last(2) show ?thesis by (rule quietly_settles)
qed

lemma room_for_settles:
  assumes "room_for fs c a root now ts s = Some (s', r)" and "slots_ok s" and "list_all quiet_turn ts"
  shows "settles (e_id (a_entry a)) s r s'"
proof -
  obtain s1 ticket where w: "wait_loop fs c a root (now + wait_duration (slots_wait s))
      (reloads (line s)) ts None s = Some (s1, ticket, r)" and s': "s' = leave_line ticket s1"
    using assms(1) by (auto simp: room_for_def Let_def split: option.splits)
  have st: "settles (e_id (a_entry a)) s r s1" by (rule wait_loop_settles [OF w assms(2,3)])
  then have "slots_ok s1"
    by (auto simp: settles_def quietly_def leased_def split: sum.splits option.splits)
  from settles_quietly [OF st quietly_leave [OF this]] s' show ?thesis by simp
qed

section \<open>A load, and the whole call\<close>

text \<open>The process a load starts is one nobody has yet.\<close>

definition fresh_load :: "loading \<Rightarrow> slots \<Rightarrow> bool" where
  "fresh_load ld s =
     (quiet (ld_race ld) \<and> (\<forall>ch. ld_server ld = Inr ch \<longrightarrow> heap_of s (ch_pid ch) = None))"

lemma fresh_later: "fresh_load ld s \<Longrightarrow> quietly s s' \<Longrightarrow> fresh_load ld s'"
  by (auto simp: fresh_load_def quietly_def)

definition hands_out :: "slots \<Rightarrow> failure + nat \<Rightarrow> slots \<Rightarrow> bool" where
  "hands_out s r s' = (case r of Inl _ \<Rightarrow> quietly s s' | Inr ch \<Rightarrow> leased s ch s')"

lemma quietly_hands_out: "quietly s s' \<Longrightarrow> hands_out s' r s'' \<Longrightarrow> hands_out s r s''"
  by (auto simp: hands_out_def intro: quietly_trans quietly_leased split: sum.splits)

lemma start_hands_out:
  assumes "slots_ok s" and "fresh_load ld s" and "held_in s (e_id (a_entry a)) = None"
  shows "case slots_start a ld s of
      (s', Inl f) \<Rightarrow> quietly s s'
    | (s', Inr new) \<Rightarrow> leased s (s_child new) (fst (insert_child (e_id (a_entry a)) new s')) \<and>
        snd (insert_child (e_id (a_entry a)) new s') = s_child new"
proof -
  let ?i = "e_id (a_entry a)"
  define s2 where "s2 = ld_race ld (say (?i @ '': loading, estimated at ''
     @ dec (unat (e_memory_estimate_mib (a_entry a))) @ '' MiB'') s)"
  have q: "quietly s s2"
    unfolding s2_def
    by (rule quietly_trans [OF quietly_say [OF assms(1)]], rule quiet_use)
      (use assms(2) in \<open>simp_all add: fresh_load_def quietly_ok [OF quietly_say [OF assms(1)]]\<close>)
  show ?thesis
  proof (cases "ld_server ld")
    case (Inl f)
    have "quietly s (say l s2)" for l
      using quietly_trans [OF q quietly_say [OF quietly_ok [OF q]]] .
    then show ?thesis unfolding slots_start_def Let_def s2_def [symmetric] using Inl by simp
  next
    case (Inr ch)
    have fresh: "heap_of s2 (ch_pid ch) = None" and none: "held_in s2 ?i = None"
      using q assms(2,3) Inr by (auto simp: quietly_def fresh_load_def)
    have "slots_ok (fst (insert_child ?i new (on_heap (arc_new (s_child new)) (say l s2))))"
      if "s_child new = ch_pid ch" for new l
      using that fresh none quietly_ok [OF quietly_say [OF quietly_ok [OF q]]]
      by (intro ok_load) simp_all
    moreover have "leases (fst (insert_child ?i new (on_heap f (say l s2)))) =
        add_mset (s_child new) (leases s)" for new f l
      using q by (simp add: insert_frames quietly_def)
    moreover have "snd (insert_child ?i new t) = s_child new" for new t
      by (simp add: insert_child_def Let_def)
    ultimately show ?thesis
      unfolding slots_start_def Let_def s2_def [symmetric] using Inr by (simp add: leased_def)
  qed
qed

lemma admit_hands_out:
  assumes "admit_entry fs c a root now ts ld s = Some (s', r)"
    and "slots_ok s" and "list_all quiet_turn ts" and "fresh_load ld s"
  shows "hands_out s r s'"
proof (cases "by_id s (e_id (a_entry a))")
  case None
  with assms(1,2) show ?thesis by (auto simp: admit_entry_def Let_def hands_out_def)
next
  case (Some cell)
  then obtain s1 x where room: "room_for fs c a root now ts s = Some (s1, x)"
    using assms(1) by (auto simp: admit_entry_def Let_def split: option.splits)
  have st: "settles (e_id (a_entry a)) s x s1"
    by (rule room_for_settles [OF room assms(2,3)])
  consider (failed) f where "x = Inl f" | (found) ch where "x = Inr (Some ch)" | (made) "x = Inr None"
    by (metis obj_sumE option.exhaust)
  then show ?thesis
  proof cases
    case failed
    with st room Some assms(1) show ?thesis
      by (auto simp: admit_entry_def Let_def settles_def hands_out_def)
  next
    case found
    with st room Some assms(1) show ?thesis
      by (auto simp: admit_entry_def Let_def settles_def hands_out_def)
  next
    case made
    with st have q: "quietly s s1" and none: "held_in s1 (e_id (a_entry a)) = None"
      by (simp_all add: settles_def)
    have "hands_out s1 r s'"
      using start_hands_out [OF quietly_ok [OF q] fresh_later [OF assms(4) q] none]
        assms(1) room made Some
      by (auto simp: admit_entry_def Let_def hands_out_def split: prod.splits sum.splits)
    with q show ?thesis by (rule quietly_hands_out)
  qed
qed

lemma child_hands_out:
  assumes "child_for fs c a root now race now' ts ld s = Some (s', r)"
    and "slots_ok s" and "quiet race" and "list_all quiet_turn ts" and "fresh_load ld s"
  shows "hands_out s r s'"
proof -
  obtain s1 x where run: "running (a_entry a) now s = (s1, x)" by fastforce
  show ?thesis
  proof (cases x)
    case None
    have q1: "quietly s s1" using quietly_running [OF assms(2)] run None by simp
    have "quietly s1 (race s1)" using quiet_use [OF assms(3) quietly_ok [OF q1]] .
    with q1 have q: "quietly s (race s1)" by (rule quietly_trans)
    have "admit_entry fs c a root now' ts ld (race s1) = Some (s', r)"
      using assms(1) run None by (simp add: child_for_def)
    from admit_hands_out [OF this quietly_ok [OF q] assms(4) fresh_later [OF assms(5) q]]
    show ?thesis by (rule quietly_hands_out [OF q])
  next
    case (Some ch)
    with assms(1) run leased_running [OF assms(2), of "a_entry a" now s1 ch] show ?thesis
      by (auto simp: child_for_def hands_out_def)
  qed
qed

end
