(* ===== verification/Answer_Facts.thy ===== *)
theory Answer_Facts
  imports Http_Answer Slot_Leases
begin

text \<open>
  What answering a connection does to the router: the replies decided from the head change
  nothing, and every path that takes a child gives it back.
\<close>

section \<open>Others on the way\<close>

definition quiet_router :: "(router \<Rightarrow> router) \<Rightarrow> bool" where
  "quiet_router f =
     (\<forall>r. slots_ok (rt_slots r) \<longrightarrow> quietly (rt_slots r) (rt_slots (f r)))"

lemma quiet_router_use: "quiet_router f \<Longrightarrow> slots_ok (rt_slots r) \<Longrightarrow> quietly (rt_slots r) (rt_slots (f r))"
  by (simp add: quiet_router_def)

lemma quiet_router_id [simp]: "quiet_router (\<lambda>r. r)"
  by (simp add: quiet_router_def quietly_refl)

lemma on_slots_simps [simp]:
  "rt_slots (on_slots f r) = f (rt_slots r)" "rt_catalog (on_slots f r) = rt_catalog r"
  "rt_access (on_slots f r) = rt_access r" "rt_failures (on_slots f r) = rt_failures r"
  "rt_window (on_slots f r) = rt_window r" "rt_stopped (on_slots f r) = rt_stopped r"
  by (simp_all add: on_slots_def)

definition quiet_calling :: "calling \<Rightarrow> slots \<Rightarrow> bool" where
  "quiet_calling k s =
     (quiet_router (cl_between k) \<and> quiet (cl_race k) \<and> list_all quiet_turn (cl_turns k) \<and>
      fresh_load (cl_loading k) s)"

lemma quiet_calling_later: "quiet_calling k s \<Longrightarrow> quietly s s' \<Longrightarrow> quiet_calling k s'"
  by (auto simp: quiet_calling_def dest: fresh_later)

definition quiet_caller :: "caller \<Rightarrow> router \<Rightarrow> bool" where
  "quiet_caller cn r =
     (quiet_router (cn_reading cn) \<and> quiet_router (cn_race cn) \<and> quiet_router (cn_relaying cn) \<and>
      quiet (cn_meanwhile cn) \<and> quiet_calling (cn_calling cn) (rt_slots r))"

section \<open>The child for an entry\<close>

lemma shared_child_hands_out:
  assumes "shared_child fs a k r = Some (r', x)" and "slots_ok (rt_slots r)"
    and "quiet_calling k (rt_slots r)"
  shows "hands_out (rt_slots r) x (rt_slots r')"
proof -
  let ?r1 = "cl_between k r"
  have q: "quietly (rt_slots r) (rt_slots ?r1)"
    using assms(2,3) by (simp add: quiet_calling_def quiet_router_use)
  obtain s where c: "child_for fs (rt_catalog ?r1) a (rt_root ?r1) (cl_now k) (cl_race k)
      (cl_admitted k) (cl_turns k) (cl_loading k) (rt_slots ?r1) = Some (s, x)" and s: "rt_slots r' = s"
    using assms(1) by (auto simp: shared_child_def Let_def split: option.splits)
  have "hands_out (rt_slots ?r1) x s"
    using child_hands_out [OF c quietly_ok [OF q]] quiet_calling_later [OF assms(3) q]
    by (simp add: quiet_calling_def)
  from quietly_hands_out [OF q this] s show ?thesis by simp
qed

text \<open>What is taken is given back: the leases are as they were and the slots well formed.\<close>

definition balanced :: "slots \<Rightarrow> slots \<Rightarrow> bool" where
  "balanced s s' = (slots_ok s' \<and> leases s' = leases s)"

lemma quietly_balanced: "quietly s s' \<Longrightarrow> balanced s s'"
  by (simp add: quietly_def balanced_def)

lemma balanced_after: "quietly s s' \<Longrightarrow> balanced s' s'' \<Longrightarrow> balanced s s''"
  by (simp add: quietly_def balanced_def)

lemma leased_balanced: "leased s ch s' \<Longrightarrow> balanced s (lease_drop ch s')"
  using leased_dropped by (simp add: balanced_def)

lemma reload_quietly:
  assumes "slots_ok (rt_slots r)" and "quiet_router race" and "quiet meanwhile"
  shows "quietly (rt_slots r) (rt_slots (fst (reload_catalog toml src race meanwhile r)))"
proof -
  have q: "quietly (rt_slots r) (rt_slots (race r))"
    using assms(1,2) by (simp add: quiet_router_use)
  also have "quietly (rt_slots (race r)) (meanwhile (rt_slots (race r)))"
    using quiet_use [OF assms(3) quietly_ok [OF q]] .
  finally have q2: "quietly (rt_slots r) (meanwhile (rt_slots (race r)))" .
  have "quietly (rt_slots r) (resync c (meanwhile (rt_slots (race r))))" for c
    using quietly_trans [OF q2 quietly_resync [OF quietly_ok [OF q2]]] .
  with assms(1) show ?thesis
    by (auto simp: reload_catalog_def Let_def quietly_refl split: sum.split)
qed

lemma answer_child_balanced:
  assumes "leased s ch (rt_slots r)" and "quiet_router (cn_relaying cn)"
  shows "balanced s (rt_slots (fst (answer_child cn before h buffered rest e ch r)))"
proof -
  have ok: "slots_ok (rt_slots r)" using assms(1) by (simp add: leased_def)
  then have q: "quietly (rt_slots r) (rt_slots (cn_relaying cn r))"
    using assms(2) by (simp add: quiet_router_use)
  have "quietly (rt_slots r) (touch i now (rt_slots (cn_relaying cn r)))" for i now
    using quietly_trans [OF q quietly_touch [OF quietly_ok [OF q]]] .
  then have "balanced s (lease_drop ch (touch i now (rt_slots (cn_relaying cn r))))" for i now
    by (rule leased_balanced [OF leased_quietly [OF assms(1)]])
  with leased_balanced [OF assms(1)] show ?thesis
    by (auto simp: answer_child_def Let_def split: prod.split)
qed

lemma answer_load_balanced:
  assumes "answer_load cn before e room r = Some (r', out)" and "slots_ok (rt_slots r)"
    and "quiet_calling (cn_calling cn) (rt_slots r)"
  shows "balanced (rt_slots r) (rt_slots r')"
proof -
  obtain r1 x where c: "shared_child (cn_files cn) \<lparr>a_entry = e, a_room = room\<rparr> (cn_calling cn) r = Some (r1, x)"
    using assms(1) by (auto simp: answer_load_def split: option.splits)
  from shared_child_hands_out [OF c assms(2,3)] assms(1) c show ?thesis
    by (auto simp: answer_load_def hands_out_def intro: quietly_balanced leased_balanced
        split: sum.splits)
qed

lemma to_model_balanced:
  assumes "to_model cn h room rest r = Some (r', out)" and "slots_ok (rt_slots r)"
    and "quiet_caller cn r"
  shows "balanced (rt_slots r) (rt_slots r')"
proof -
  let ?r1 = "cn_reading cn r"
  obtain before w where w: "model_wanted cn h rest = (before, w)" by fastforce
  have same: "balanced (rt_slots r) (rt_slots r)" using assms(2) by (simp add: balanced_def)
  have q: "quietly (rt_slots r) (rt_slots ?r1)"
    using assms(2,3) by (simp add: quiet_caller_def quiet_router_use)
  have k: "quiet_calling (cn_calling cn) (rt_slots ?r1)"
    using assms(3) q by (auto simp: quiet_caller_def intro: quiet_calling_later)
  have between: "quietly (rt_slots ?r1) (rt_slots (cl_between (cn_calling cn) ?r1))"
    using k quietly_ok [OF q] by (simp add: quiet_calling_def quiet_router_use)
  have "balanced (rt_slots ?r1) (rt_slots r')"
    if found: "w = Inr (i, buffered, rest')" "catalog_entry (rt_catalog ?r1) i = Some e"
    for i buffered rest' e
  proof -
    consider (load) "h_endpoint h = Load" | (unload) "h_endpoint h = UnloadModel"
      | (model) "h_endpoint h \<noteq> Load" "h_endpoint h \<noteq> UnloadModel" by blast
    then show ?thesis
    proof cases
      case load
      with assms(1) w found have "answer_load cn before e room ?r1 = Some (r', out)"
        by (simp add: to_model_def Let_def)
      from answer_load_balanced [OF this quietly_ok [OF q] k] show ?thesis .
    next
      case unload
      with assms(1) w found show ?thesis
        using quietly_balanced [OF quietly_let_go [OF quietly_ok [OF q]], of "e_id e"]
        by (auto simp: to_model_def answer_unload_def Let_def split: prod.splits)
    next
      case model
      with assms(1) w found obtain r2 x where c: "shared_child (cn_files cn)
          \<lparr>a_entry = e, a_room = room\<rparr> (cn_calling cn) ?r1 = Some (r2, x)"
        and ends: "case x of Inl f \<Rightarrow> r' = r2
          | Inr child \<Rightarrow> r' = fst (answer_child cn before h buffered rest' e child r2)"
        by (auto simp: to_model_def Let_def split: option.splits sum.splits endpoint.splits)
      from shared_child_hands_out [OF c quietly_ok [OF q] k] ends show ?thesis
        using answer_child_balanced assms(3)
        by (auto simp: hands_out_def quiet_caller_def intro: quietly_balanced split: sum.splits)
    qed
  qed
  with assms(1) w same balanced_after [OF q] balanced_after [OF q quietly_balanced [OF between]]
  show ?thesis
    by (auto simp: to_model_def Let_def split: sum.splits option.splits)
qed

end
