(* ===== verification/Accounts.thy ===== *)
theory Accounts
  imports Answer_Facts
begin

text \<open>
  The leases of one request among those of all the others. An account says what a request has
  taken and not given back along a run: its own steps take a lease, give one of its own back or
  leave the leases alone, and between them every other thread may do anything at all to them.
\<close>

section \<open>An account\<close>

inductive accounted ::
    "(slots \<Rightarrow> slots \<Rightarrow> bool) \<Rightarrow> nat multiset \<Rightarrow> slots \<Rightarrow> slots \<Rightarrow> bool" for others_may where
  opens: "accounted others_may {#} s s"
| others_do: "accounted others_may own s s' \<Longrightarrow> others_may s' s'' \<Longrightarrow> accounted others_may own s s''"
| keeps: "accounted others_may own s s' \<Longrightarrow> leases s'' = leases s' \<Longrightarrow> accounted others_may own s s''"
| takes: "accounted others_may own s s' \<Longrightarrow> leases s'' = add_mset ch (leases s') \<Longrightarrow>
    accounted others_may (add_mset ch own) s s''"
| returns: "accounted others_may own s s' \<Longrightarrow> ch \<in># own \<Longrightarrow> leases s'' = leases s' - {#ch#} \<Longrightarrow>
    accounted others_may (own - {#ch#}) s s''"

lemma accounted_trans:
  assumes "accounted P own s s'" and "accounted P own' s' s''"
  shows "accounted P (own + own') s s''"
  using assms(2,1)
proof (induction rule: accounted.induct)
  case (opens s)
  then show ?case by simp
next
  case (others_do own' s' t u)
  then show ?case using accounted.others_do by blast
next
  case (keeps own' s' t u)
  then show ?case using accounted.keeps by blast
next
  case (takes own' s' t u ch)
  then show ?case using accounted.takes [of P "own + own'" s t u ch] by simp
next
  case (returns own' s' t ch u)
  then have "accounted P (own + own' - {#ch#}) s u"
    by (intro accounted.returns [of P "own + own'" s t ch u]) simp_all
  with returns(2) show ?case by simp
qed

abbreviation even_account :: "(slots \<Rightarrow> slots \<Rightarrow> bool) \<Rightarrow> slots \<Rightarrow> slots \<Rightarrow> bool" where
  "even_account P \<equiv> accounted P {#}"

lemma even_then: "even_account P s s' \<Longrightarrow> accounted P own s' s'' \<Longrightarrow> accounted P own s s''"
  using accounted_trans [of P "{#}" s s' own s''] by simp

lemma then_even: "accounted P own s s' \<Longrightarrow> even_account P s' s'' \<Longrightarrow> accounted P own s s''"
  using accounted_trans [of P own s s' "{#}" s''] by simp

lemma even_same: "leases s' = leases s \<Longrightarrow> even_account P s s'"
  using keeps [OF opens] .

lemma even_others: "P s s' \<Longrightarrow> even_account P s s'"
  using others_do [OF opens] .

lemma account_takes: "leases s' = add_mset ch (leases s) \<Longrightarrow> accounted P {#ch#} s s'"
  using takes [OF opens] by simp

lemma account_closed:
  "accounted P {#ch#} s s' \<Longrightarrow> even_account P s (lease_drop ch s')"
  using returns [of P "{#ch#}" s s' ch "lease_drop ch s'"] by (simp add: lease_drop_def)

text \<open>Alone, an account is the difference it made; among others, it is for the children they leave alone.\<close>

lemma account_counts:
  assumes "accounted P own s s'"
    and "\<And>t u. P t u \<Longrightarrow> count (leases u) ch = count (leases t) ch"
  shows "count (leases s') ch = count (leases s) ch + count own ch"
  using assms
proof (induction rule: accounted.induct)
  case (returns own s s' d s'')
  then have "count (leases s') ch = count (leases s) ch + count own ch" by blast
  moreover have "0 < count own d" using returns(2) by simp
  ultimately show ?case using returns(3) by auto
qed simp_all

section \<open>The calls\<close>

lemma account_running:
  assumes "running e now s = (s', r)"
  shows "case r of None \<Rightarrow> even_account P s s' | Some ch \<Rightarrow> accounted P {#ch#} s s'"
  using assms by (cases rule: running_cases) (auto intro: even_same account_takes)

lemma account_look:
  assumes "look c a device race may s = (s', r)" and "\<And>t. P t (race t)"
  shows "even_account P s s'"
proof -
  have "even_account P s (fst (unload is (race (say l s))))" for "is" l
  proof -
    have "even_account P s (say l s)" by (rule even_same) simp
    also have "even_account P (say l s) (race (say l s))" by (rule even_others) (rule assms(2))
    finally (even_then) have "even_account P s (race (say l s))" .
    then show ?thesis by (rule keeps) (rule unloading.keeps_leases)
  qed
  with assms(1) show ?thesis
    by (auto simp: look_def Let_def intro: opens split: option.splits decision.splits if_splits prod.splits)
      (metis fst_conv)+
qed

definition turn_may :: "(slots \<Rightarrow> slots \<Rightarrow> bool) \<Rightarrow> turn \<Rightarrow> bool" where
  "turn_may P t = (\<forall>s. P s (t_race t s) \<and> P s (t_sleep t s))"

definition outcome_account ::
    "(slots \<Rightarrow> slots \<Rightarrow> bool) \<Rightarrow> slots \<Rightarrow> failure + nat option \<Rightarrow> slots \<Rightarrow> bool" where
  "outcome_account P s r s' =
     (case r of Inr (Some ch) \<Rightarrow> accounted P {#ch#} s s' | _ \<Rightarrow> even_account P s s')"

lemma account_turn:
  assumes "turn_step fs c a root arrived ticket t s = (s', r)" and "turn_may P t"
  shows "case r of Inl x \<Rightarrow> outcome_account P s x s' | Inr _ \<Rightarrow> even_account P s s'"
  using assms(1)
proof (cases rule: turn_cases)
  case reloaded
  then show ?thesis by (simp add: outcome_account_def opens)
next
  case (found ch)
  with account_running [OF found(1), of P] show ?thesis by (simp add: outcome_account_def)
next
  case (missing f)
  with account_running [OF missing(1), of P] show ?thesis by (simp add: outcome_account_def)
next
  case (looked s1 s2 x)
  have "even_account P s s1" using account_running [OF looked(1), of P] by simp
  then have "even_account P s s2"
    using looked(2) by (auto intro: keeps exits.keeps_leases)
  moreover have "even_account P s2 s'" using account_look [OF looked(3)] assms(2) by (simp add: turn_may_def)
  ultimately have "even_account P s s'" by (rule even_then)
  with looked(4) show ?thesis
    by (auto simp: outcome_account_def ended_def split: sum.splits seen.splits)
qed

lemma account_room:
  assumes "room_for fs c a root now ts s = Some (s', r)" and "list_all (turn_may P) ts"
  shows "outcome_account P s r s'"
proof -
  have turns: "turn_may P t" if "t \<in> set ts" for t using that assms(2) by (simp add: list_all_iff)
  obtain s1 ticket where w: "wait_loop fs c a root (now + wait_duration (slots_wait s))
      (reloads (line s)) ts None s = Some (s1, ticket, r)" and s': "s' = leave_line ticket s1"
    using assms(1) by (auto simp: room_for_def Let_def split: option.splits)
  have on: "even_account P s (t_sleep t (fst (join_line tk s1)))"
    if "t \<in> set ts" "even_account P s s0" "turn_step fs c a root (reloads (line s)) tk t s0 = (s1, Inr m)"
    for t tk s0 s1 m
  proof -
    have "even_account P s0 s1" using account_turn [OF that(3) turns [OF that(1)]] by simp
    with that(2) have "even_account P s s1" by (rule even_then)
    then have "even_account P s (fst (join_line tk s1))" by (rule keeps) simp
    then show ?thesis using turns [OF that(1)] by (auto simp: turn_may_def intro: others_do)
  qed
  obtain t s0 tk where last: "t \<in> set ts" "even_account P s s0"
      "turn_step fs c a root (reloads (line s)) tk t s0 = (s1, Inl r) \<or>
       (\<exists>m f. turn_step fs c a root (reloads (line s)) tk t s0 = (s1, Inr m) \<and> r = Inl f)"
    by (rule wait_loop_from [where P = "even_account P s", OF w opens]) (use on in blast)+
  have "outcome_account P s0 r s1"
    using last(3) account_turn [OF _ turns [OF last(1)]] by (fastforce simp: outcome_account_def)
  with last(2) have "outcome_account P s r s1"
    by (auto simp: outcome_account_def intro: even_then split: sum.splits option.splits)
  moreover have "leases (leave_line ticket s1) = leases s1" by simp
  ultimately show ?thesis
    using s' by (auto simp: outcome_account_def intro: keeps split: sum.splits option.splits)
qed

text \<open>What a call comes to: a lease on the child it returns, or an even account.\<close>

definition call_account :: "(slots \<Rightarrow> slots \<Rightarrow> bool) \<Rightarrow> slots \<Rightarrow> failure + nat \<Rightarrow> slots \<Rightarrow> bool" where
  "call_account P s r s' =
     (case r of Inl _ \<Rightarrow> even_account P s s' | Inr ch \<Rightarrow> accounted P {#ch#} s s')"

lemma even_call: "even_account P s s' \<Longrightarrow> call_account P s' r s'' \<Longrightarrow> call_account P s r s''"
  by (auto simp: call_account_def intro: even_then split: sum.splits)

lemma account_start:
  assumes "slots_start a ld s = (s', r)" and "\<And>t. P t (ld_race ld t)"
  shows "even_account P s s'"
proof -
  have said: "even_account P s (say l (ld_race ld (say l' s)))" for l l'
  proof -
    have "even_account P s (say l' s)" by (rule even_same) simp
    then have "even_account P s (ld_race ld (say l' s))" by (rule others_do) (rule assms(2))
    then show ?thesis by (rule keeps) simp
  qed
  show ?thesis
  proof (cases "ld_server ld")
    case (Inl f)
    then show ?thesis using assms(1) said by (simp add: slots_start_def Let_def) blast
  next
    case (Inr ch)
    have "even_account P s (on_heap f (say l (ld_race ld (say l' s))))" for f l l'
      using said by (rule keeps) simp
    then show ?thesis using Inr assms(1) by (auto simp: slots_start_def Let_def)
  qed
qed

lemma account_admitted:
  assumes "admit_entry fs c a root now ts ld s = Some (s', r)"
    and "list_all (turn_may P) ts" and "\<And>t. P t (ld_race ld t)"
  shows "call_account P s r s'"
proof (cases "by_id s (e_id (a_entry a))")
  case None
  with assms(1) show ?thesis by (auto simp: admit_entry_def Let_def call_account_def opens)
next
  case (Some cell)
  then obtain s1 x where room: "room_for fs c a root now ts s = Some (s1, x)"
    using assms(1) by (auto simp: admit_entry_def Let_def split: option.splits)
  note o = account_room [OF room assms(2)]
  consider (failed) f where "x = Inl f" | (found) ch where "x = Inr (Some ch)" | (made) "x = Inr None"
    by (metis obj_sumE option.exhaust)
  then show ?thesis
  proof cases
    case failed
    with o room Some assms(1) show ?thesis
      by (auto simp: admit_entry_def Let_def call_account_def outcome_account_def)
  next
    case found
    with o room Some assms(1) show ?thesis
      by (auto simp: admit_entry_def Let_def call_account_def outcome_account_def)
  next
    case made
    then have "even_account P s s1" using o by (simp add: outcome_account_def)
    obtain s2 y where start: "slots_start a ld s1 = (s2, y)" by fastforce
    have even: "even_account P s s2"
      using \<open>even_account P s s1\<close> account_start [where P = P, OF start assms(3)] by (rule even_then)
    show ?thesis
    proof (cases y)
      case (Inl f)
      with even room made Some start assms(1) show ?thesis
        by (auto simp: admit_entry_def Let_def call_account_def)
    next
      case (Inr new)
      have "accounted P {#s_child new#} s (fst (insert_child (e_id (a_entry a)) new s2))"
        using takes [OF even, of "fst (insert_child (e_id (a_entry a)) new s2)" "s_child new"]
        by (simp add: insert_frames)
      moreover have "snd (insert_child i new t) = s_child new" for i t
        by (simp add: insert_child_def Let_def)
      ultimately show ?thesis
        using Inr room made Some start assms(1)
        by (auto simp: admit_entry_def Let_def call_account_def split: prod.splits) (metis fst_conv snd_conv)
    qed
  qed
qed

lemma account_child:
  assumes "child_for fs c a root now race now' ts ld s = Some (s', r)"
    and "\<And>t. P t (race t)" and "list_all (turn_may P) ts" and "\<And>t. P t (ld_race ld t)"
  shows "call_account P s r s'"
proof -
  obtain s1 x where run: "running (a_entry a) now s = (s1, x)" by fastforce
  show ?thesis
  proof (cases x)
    case None
    then have "even_account P s s1" using account_running [OF run, of P] by simp
    then have "even_account P s (race s1)" by (rule others_do) (rule assms(2))
    moreover have "call_account P (race s1) r s'"
      using account_admitted [OF _ assms(3,4)] assms(1) run None by (simp add: child_for_def)
    ultimately show ?thesis by (rule even_call)
  next
    case (Some ch)
    with assms(1) run account_running [OF run, of P] show ?thesis
      by (auto simp: child_for_def call_account_def)
  qed
qed

section \<open>Answering\<close>

text \<open>Everything the other threads may do to the slots while this connection is answered.\<close>

inductive others_may :: "caller \<Rightarrow> slots \<Rightarrow> slots \<Rightarrow> bool" for cn where
  at_reading: "others_may cn (rt_slots r) (rt_slots (cn_reading cn r))"
| at_reload: "others_may cn (rt_slots r) (rt_slots (cn_race cn r))"
| at_resync: "others_may cn s (cn_meanwhile cn s)"
| at_relay: "others_may cn (rt_slots r) (rt_slots (cn_relaying cn r))"
| at_call: "others_may cn (rt_slots r) (rt_slots (cl_between (cn_calling cn) r))"
| at_admission: "others_may cn s (cl_race (cn_calling cn) s)"
| at_unloading: "t \<in> set (cl_turns (cn_calling cn)) \<Longrightarrow> others_may cn s (t_race t s)"
| at_sleep: "t \<in> set (cl_turns (cn_calling cn)) \<Longrightarrow> others_may cn s (t_sleep t s)"
| at_load: "others_may cn s (ld_race (cl_loading (cn_calling cn)) s)"

lemma account_shared:
  assumes "shared_child fs a (cn_calling cn) r = Some (r', x)"
  shows "call_account (others_may cn) (rt_slots r) x (rt_slots r')"
proof -
  let ?k = "cn_calling cn"
  let ?r1 = "cl_between ?k r"
  obtain s where c: "child_for fs (rt_catalog ?r1) a (rt_root ?r1) (cl_now ?k) (cl_race ?k)
      (cl_admitted ?k) (cl_turns ?k) (cl_loading ?k) (rt_slots ?r1) = Some (s, x)" and s: "rt_slots r' = s"
    using assms by (auto simp: shared_child_def Let_def split: option.splits)
  have "list_all (turn_may (others_may cn)) (cl_turns ?k)"
    by (auto simp: list_all_iff turn_may_def intro: at_unloading at_sleep)
  then have "call_account (others_may cn) (rt_slots ?r1) x s"
    by (intro account_child [OF c] at_admission at_load)
  moreover have "even_account (others_may cn) (rt_slots r) (rt_slots ?r1)"
    by (rule even_others) (rule at_call)
  ultimately show ?thesis using s even_call by blast
qed

lemma account_answer_child:
  assumes "accounted (others_may cn) {#ch#} s (rt_slots r)"
  shows "even_account (others_may cn) s (rt_slots (fst (answer_child cn before h buffered rest e ch r)))"
proof -
  have "accounted (others_may cn) {#ch#} s (rt_slots (cn_relaying cn r))"
    using assms at_relay by (rule others_do)
  moreover have "leases (touch i now t) = leases t" for i now t
    by (simp add: touch_def split: option.split)
  ultimately have "accounted (others_may cn) {#ch#} s (touch i now (rt_slots (cn_relaying cn r)))" for i now
    by (rule keeps)
  with account_closed [OF assms] show ?thesis
    by (auto simp: answer_child_def Let_def intro: account_closed split: prod.split)
qed

lemma account_answer_load:
  assumes "answer_load cn before e room r = Some (r', out)"
  shows "even_account (others_may cn) (rt_slots r) (rt_slots r')"
proof -
  obtain r1 x where c: "shared_child (cn_files cn) \<lparr>a_entry = e, a_room = room\<rparr> (cn_calling cn) r = Some (r1, x)"
    using assms by (auto simp: answer_load_def split: option.splits)
  from account_shared [OF c] assms c show ?thesis
    by (auto simp: answer_load_def call_account_def intro: account_closed split: sum.splits)
qed

lemma account_reload:
  "even_account (others_may cn) (rt_slots r)
     (rt_slots (fst (reload_catalog (cn_toml cn) (cn_catalog cn) (cn_race cn) (cn_meanwhile cn) r)))"
proof -
  have "even_account (others_may cn) (rt_slots r) (rt_slots (cn_race cn r))"
    by (rule even_others) (rule at_reload)
  then have "even_account (others_may cn) (rt_slots r) (cn_meanwhile cn (rt_slots (cn_race cn r)))"
    using at_resync by (rule others_do)
  then have "even_account (others_may cn) (rt_slots r)
      (resync c (cn_meanwhile cn (rt_slots (cn_race cn r))))" for c
    by (rule keeps) (rule reload.keeps_leases)
  then show ?thesis by (auto simp: reload_catalog_def Let_def opens split: sum.split)
qed

lemma account_to_model:
  assumes "to_model cn h room rest r = Some (r', out)"
  shows "even_account (others_may cn) (rt_slots r) (rt_slots r')"
proof -
  let ?r1 = "cn_reading cn r"
  obtain before w where w: "model_wanted cn h rest = (before, w)" by fastforce
  have first: "even_account (others_may cn) (rt_slots r) (rt_slots ?r1)"
    by (rule even_others) (rule at_reading)
  have between: "even_account (others_may cn) (rt_slots ?r1) (rt_slots (cl_between (cn_calling cn) ?r1))"
    by (rule even_others) (rule at_call)
  have "even_account (others_may cn) (rt_slots ?r1) (rt_slots r')"
    if found: "w = Inr (i, buffered, rest')" "catalog_entry (rt_catalog ?r1) i = Some e"
    for i buffered rest' e
  proof -
    consider (load) "h_endpoint h = Load" | (unload) "h_endpoint h = UnloadModel"
      | (model) "h_endpoint h \<noteq> Load" "h_endpoint h \<noteq> UnloadModel" by blast
    then show ?thesis
    proof cases
      case load
      with assms w found have "answer_load cn before e room ?r1 = Some (r', out)"
        by (simp add: to_model_def Let_def)
      then show ?thesis by (rule account_answer_load)
    next
      case unload
      with assms w found letting.keeps_leases [of "e_id e" "rt_slots ?r1"] show ?thesis
        by (auto simp: to_model_def answer_unload_def Let_def intro: even_same split: prod.splits)
    next
      case model
      with assms w found obtain r2 x where c: "shared_child (cn_files cn)
          \<lparr>a_entry = e, a_room = room\<rparr> (cn_calling cn) ?r1 = Some (r2, x)"
        and ends: "case x of Inl f \<Rightarrow> r' = r2
          | Inr child \<Rightarrow> r' = fst (answer_child cn before h buffered rest' e child r2)"
        by (auto simp: to_model_def Let_def split: option.splits sum.splits endpoint.splits)
      from account_shared [OF c] ends show ?thesis
        by (auto simp: call_account_def intro: account_answer_child split: sum.splits)
    qed
  qed
  with assms w opens even_then [OF first] even_then [OF first between] show ?thesis
    by (auto simp: to_model_def Let_def split: sum.splits option.splits)
qed

lemma account_answer:
  assumes "answer_to cn r = Some (r', out)"
  shows "even_account (others_may cn) (rt_slots r) (rt_slots r')"
proof (cases "screened cn (rt_access r)")
  case (Inl rp)
  with assms show ?thesis by (simp add: answer_to_def opens)
next
  case (Inr x)
  then obtain h room rest where s: "screened cn (rt_access r) = Inr (h, room, rest)" by (cases x) auto
  show ?thesis
  proof (cases "h_endpoint h = Reload")
    case True
    have "fst (answer_reload cn r) =
        fst (reload_catalog (cn_toml cn) (cn_catalog cn) (cn_race cn) (cn_meanwhile cn) r)"
      by (auto simp: answer_reload_def split: prod.split sum.split)
    with True assms s account_reload [of cn r] show ?thesis by (simp add: answer_to_def Let_def)
  next
    case False
    with assms s have "r' = r \<or> to_model cn h room rest r = Some (r', out)"
      by (auto simp: answer_to_def Let_def split: endpoint.splits)
    then show ?thesis using account_to_model opens by auto
  qed
qed

end
