(* ===== verification/Head_Claims.thy ===== *)
theory Head_Claims
  imports Head_Facts Http_Reply
begin

text \<open>
  The properties of the bytes: which heads are read and what of them, what of a caller's head
  reaches a child, what of its body does, and which callers are let in.
\<close>

text \<open>A head reads back: lines sent with a carriage return and a line feed each and a blank
  line after them are read as those lines, with everything behind the blank line left for the
  body, as long as the head is within the bounds.\<close>

lemma head_reads_back:
  assumes "list_all plain_line ls" and "length (lined ls @ crlf) \<le> MAX_HEAD_BYTES"
    and "length ls \<le> MAX_HEADERS"
  shows "head_read err \<lparr>i_bytes = lined ls @ crlf @ body, i_end = e\<rparr> =
    (Inr ls, \<lparr>i_bytes = body, i_end = e\<rparr>)"
  using head_read_lines [of ls 0 "[]" err body e] assms by (simp add: head_read_def)

lemma head_reads_back_witness:
  "head_read (\<lambda>_. []) \<lparr>i_bytes = lined [''GET /props HTTP/1.1'', ''Host: a''] @ crlf @ ''body'', i_end = Stalled\<rparr> =
    (Inr [''GET /props HTTP/1.1'', ''Host: a''], \<lparr>i_bytes = ''body'', i_end = Stalled\<rparr>)"
  by (rule head_reads_back)
    (simp_all add: plain_line_def utf8_valid_ascii crlf_def MAX_HEAD_BYTES_def MAX_HEADERS_def)

text \<open>C25: Reading a head takes no more than its bounds: of what arrived it takes at most 64 KiB
  and at most 100 lines, every one of them whole, and one blank line -- which ends with its
  line feed, unless it was cut by the bound or by the caller closing.\<close>

theorem head_is_read_within_bounds:
  assumes "head_read err inp = (Inr lines, rest)"
  shows "\<exists>raws blank. i_bytes inp = concat raws @ blank @ i_bytes rest \<and>
    list_all whole_line raws \<and> lines = map drop_line_end raws \<and> length lines \<le> 100 \<and>
    blank_line blank \<and> length (concat raws @ blank) \<le> 65536 \<and>
    (last blank = LF \<or> length (concat raws @ blank) = 65536 \<or>
      (i_bytes rest = [] \<and> i_end inp = Closed))"
  using head_read_loop_Inr [of err "[]" 0 inp lines rest] assms
  by (simp add: head_read_def MAX_HEAD_BYTES_def MAX_HEADERS_def)

text \<open>
  A head cut at its bound: the carriage return of the blank line is the last byte taken, so its
  line feed is left as the first byte of the body.
\<close>

lemma head_cut_at_its_bound:
  "head_read err \<lparr>i_bytes = lined [replicate 65533 (CHR ''a'')] @ crlf @ body, i_end = e\<rparr> =
    (Inr [replicate 65533 (CHR ''a'')], \<lparr>i_bytes = LF # body, i_end = e\<rparr>)"
proof -
  let ?l = "replicate 65533 (CHR ''a'')"
  have valid: "utf8_valid ?l" by (rule utf8_valid_ascii) (simp add: list_all_iff)
  have "read_line 65536 \<lparr>i_bytes = ?l @ crlf @ crlf @ body, i_end = e\<rparr> =
      (Inr (?l @ crlf), \<lparr>i_bytes = crlf @ body, i_end = e\<rparr>)"
    using valid by (intro read_line_crlf) simp_all
  moreover have "drop_line_end (?l @ crlf) = ?l" by (rule drop_line_end_crlf) simp
  moreover have "read_line 1 \<lparr>i_bytes = crlf @ body, i_end = e\<rparr> =
      (Inr [CR], \<lparr>i_bytes = LF # body, i_end = e\<rparr>)"
    by (simp add: read_line_def crlf_def utf8_valid_ascii)
  moreover have "drop_line_end [CR] = []" by (simp add: drop_line_end_Nil)
  moreover have "length crlf = 2" by (simp add: crlf_def)
  moreover have "?l \<noteq> []" by simp
  ultimately show ?thesis
    by (simp add: head_read_def head_read_loop.simps [of err "[]" 0]
        head_read_loop.simps [of err "[?l]" 65535] MAX_HEAD_BYTES_def MAX_HEADERS_def)
qed

definition props_input :: "string \<Rightarrow> input" where
  "props_input body = \<lparr>i_bytes = lined [''GET /props HTTP/1.1''] @ crlf @ body, i_end = Closed\<rparr>"

lemma props_read:
  "head_read err (props_input body) = (Inr [''GET /props HTTP/1.1''], \<lparr>i_bytes = body, i_end = Closed\<rparr>)"
  using head_read_lines [of "[''GET /props HTTP/1.1'']" 0 "[]" err body Closed]
  by (simp add: head_read_def props_input_def plain_line_def utf8_valid_ascii crlf_def
      MAX_HEAD_BYTES_def MAX_HEADERS_def)

theorem head_is_read_within_bounds_witness:
  "\<exists>raws blank. i_bytes (props_input ''body'') = concat raws @ blank @ ''body'' \<and>
     list_all whole_line raws \<and> length (concat raws @ blank) \<le> 65536"
proof -
  have "\<exists>raws blank. i_bytes inp = concat raws @ blank @ i_bytes rest \<and> list_all whole_line raws \<and>
      length (concat raws @ blank) \<le> 65536"
    if "head_read (\<lambda>_. []) inp = (Inr lines, rest)" for inp lines rest
    using head_is_read_within_bounds [OF that] by blast
  from this [OF props_read] show ?thesis by simp
qed

lemma kept_headers:
  "concat (map (\<lambda>(name, val). if answered_header name then [] else name @ '': '' @ val @ crlf) hs) =
     lined (map (\<lambda>(n, v). n @ '': '' @ v) (filter (\<lambda>(n, _). \<not> answered_header n) hs))"
  by (induction hs) auto

text \<open>C13: Nothing is smuggled to a child: what it is sent for a head is the request line with
  the caller's method and the path's suffix, one host and one connection line of the router's
  own, and the caller's other headers as they were sent, each on one line, in order -- none
  of them blank, so the head a child reads ends where the router's does.\<close>

theorem nothing_is_smuggled:
  assumes "head_read err inp = (Inr lines, rest)" and "head_parse lines = Inr h"
    and "LF \<notin> set upstream"
  shows "let sent = (h_method h @ '' '' @ suffix_of (h_endpoint h) @ '' HTTP/1.1'')
      # (''Host: '' @ upstream) # ''Connection: close''
      # map (\<lambda>(n, v). n @ '': '' @ v) (filter (\<lambda>(n, _). \<not> answered_header n) (headers_of (tl lines))) in
    split_on LF (rewrite h upstream) = map (\<lambda>l. l @ [CR]) sent @ [[CR], []] \<and> [] \<notin> set sent"
proof -
  define sent where "sent = (h_method h @ '' '' @ suffix_of (h_endpoint h) @ '' HTTP/1.1'')
      # (''Host: '' @ upstream) # ''Connection: close''
      # map (\<lambda>(n, v). n @ '': '' @ v) (filter (\<lambda>(n, _). \<not> answered_header n) (headers_of (tl lines)))"
  obtain first more path ws where lines: "lines = first # more"
    and ws: "split_whitespace first = h_method h # path # ws" "endpoint_of path = Inr (h_endpoint h)"
    and headers: "h_headers h = headers_of more"
    using assms(2) by (rule parsed)
  have plain: "LF \<notin> set l" if "l \<in> set lines" for l
    using read_lines_plain [OF assms(1)] that by blast
  have "LF \<notin> set (h_method h)" "LF \<notin> set path"
    using split_whitespace_sub [of _ first] ws(1) plain [of first] lines by auto
  then have "LF \<notin> set (suffix_of (h_endpoint h))" using endpoint_suffix [OF ws(2)] by simp
  moreover have "LF \<notin> set n \<and> LF \<notin> set v" if "(n, v) \<in> set (headers_of more)" for n v
    using headers_of_sub [OF that] plain lines by auto
  ultimately have "\<forall>l \<in> set sent. LF \<notin> set l"
    using \<open>LF \<notin> set (h_method h)\<close> assms(3) by (auto simp: sent_def lines)
  moreover have "rewrite h upstream = lined sent @ crlf"
    by (simp add: rewrite_def sent_def lines headers kept_headers)
  moreover have "split_on LF crlf = [[CR], []]" by (simp add: crlf_def)
  moreover have "[] \<notin> set sent" by (auto simp: sent_def)
  ultimately show ?thesis
    using split_on_lines [of sent crlf] unfolding Let_def sent_def [symmetric] by (simp only: simp_thms)
qed

theorem nothing_is_smuggled_witness:
  "\<exists>h. head_parse [''GET /props HTTP/1.1''] = Inr h \<and>
     split_on LF (rewrite h ''127.0.0.1:9'') =
       [''GET /props HTTP/1.1'' @ [CR], ''Host: 127.0.0.1:9'' @ [CR], ''Connection: close'' @ [CR], [CR], []]"
proof -
  have "split_whitespace ''GET /props HTTP/1.1'' = [''GET'', ''/props'', ''HTTP/1.1'']" by code_simp
  moreover have "endpoint_of ''/props'' = Inr Properties" by code_simp
  ultimately obtain h where h: "head_parse [''GET /props HTTP/1.1''] = Inr h"
    "h_method h = ''GET''" "h_endpoint h = Properties"
    by (simp add: head_parse_def)
  from nothing_is_smuggled [OF props_read h(1), of "''127.0.0.1:9''"] h show ?thesis
    by (intro exI [of _ h]) (simp add: headers_of_def List.map_filter_simps)
qed

text \<open>To a child that takes it, a body is forwarded exactly: whatever the reads hand over at a time, the child is sent
  the declared number of the caller's bytes, or as many as came when the caller closed first,
  and an error says the caller stalled or broke off before then.\<close>

lemma forwarded_body_is_exact:
  "takes_enough up (length sent + body_bytes h) \<Longrightarrow> forward_body up chunk h sent inp =
     ((if body_bytes h \<le> length (i_bytes inp) then None
       else (case i_end inp of Closed \<Rightarrow> None | Stalled \<Rightarrow> Some (ReadFailed TimedOut)
         | Broken e \<Rightarrow> Some (ReadFailed (OtherError e))),
       sent @ take (body_bytes h) (i_bytes inp)),
      inp\<lparr>i_bytes := drop (body_bytes h) (i_bytes inp)\<rparr>)"
  by (simp add: forward_body_def forward_loop_exact)

lemma same_key_exact: "same_key a b \<longleftrightarrow> a = b"
proof
  assume "same_key a b"
  then have "length a = length b" "\<forall>(x, y) \<in> set (zip a b). x = y"
    by (simp_all add: same_key_def fold_difference)
  then show "a = b" by (induction a b rule: list_induct2) auto
next
  assume "a = b"
  then show "same_key a b" by (auto simp: same_key_def fold_difference set_zip)
qed

text \<open>C24: A caller whose browser origin is not listed, where there is a list, is refused with 403
  as not allowed from there, whatever key it carries; one past that which does not carry the very
  key, where one is required and it asks for more than what is allowed, is refused with 401 as
  unauthorized; and everybody else is let in.\<close>

definition origin_passes :: "access \<Rightarrow> head \<Rightarrow> bool" where
  "origin_passes a h =
     (case (ac_origins a, header_value h ''origin'') of (Some os, Some o1) \<Rightarrow> o1 \<in> set os | _ \<Rightarrow> True)"

definition key_passes :: "access \<Rightarrow> head \<Rightarrow> bool" where
  "key_passes a h =
     (case ac_key a of None \<Rightarrow> True | Some key \<Rightarrow> h_method h = ''OPTIONS'' \<or> carried_key h = Some key)"

theorem access_is_exact:
  "(access_admits a h = Inr () \<longleftrightarrow> origin_passes a h \<and> key_passes a h) \<and>
   ((\<exists>r. access_admits a h = Inl r \<and> rf_cause r = OriginNotAllowed \<and> status_of (rf_cause r) = 403) \<longleftrightarrow>
      \<not> origin_passes a h) \<and>
   ((\<exists>r. access_admits a h = Inl r \<and> rf_cause r = Unauthorized \<and> status_of (rf_cause r) = 401) \<longleftrightarrow>
      origin_passes a h \<and> \<not> key_passes a h)"
  by (auto simp: origin_passes_def key_passes_def access_admits_def admits_def admits_key_def
      same_key_exact refusal_new_def status_of_def Let_def split: option.splits)

section \<open>What the phrases and lengths come to\<close>

text \<open>Three causes carry a status without a phrase of its own.\<close>

lemma phrases_fall_through:
  "reason (status_of Unauthorized) = ''Gateway Timeout''"
  "reason (status_of OriginNotAllowed) = ''Gateway Timeout''"
  "reason (status_of ModelBusy) = ''Gateway Timeout''"
  by (simp_all add: reason_def status_of_def)

text \<open>The last length said is the one that counts, whatever the head held before it, and the
  ones before it stay among the headers that go on to the child.\<close>

lemma last_length_counts:
  assumes "split_once (CHR '':'') l = Some (n, v)" "eq_ignore_case (trim n) ''content-length''"
  shows "h_length (header_step h l) =
      (case parse_unsigned (2 ^ 64) (trim v) of None \<Rightarrow> Malformed (trim v) | Some k \<Rightarrow> Given k)"
    and "h_headers (header_step h l) = h_headers h @ [(trim n, trim v)]"
  using assms
  by (cases h, simp_all only: header_step_def option.case prod.case Let_def if_True head.simps)+

end
