(* ===== verification/Catalog_Facts.thy ===== *)
theory Catalog_Facts
  imports Catalog_Read
begin

text \<open>
  What reading a catalog's text guarantees: the entries it yields are usable, an entry inherits
  what it does not set, and a report names every fault with the entry and the field.
\<close>

section \<open>Fields\<close>

text \<open>What a field says, wherever it is read from: absent and unusable are both no value.\<close>

definition field_value :: "table \<Rightarrow> string \<Rightarrow> (toml \<Rightarrow> string + 'a) \<Rightarrow> 'a option" where
  "field_value t f conv =
     (case map_of t f of None \<Rightarrow> None
      | Some v \<Rightarrow> (case conv v of Inl _ \<Rightarrow> None | Inr x \<Rightarrow> Some x))"

definition bad_value :: "table \<Rightarrow> string \<Rightarrow> (toml \<Rightarrow> string + 'a) \<Rightarrow> bool" where
  "bad_value t f conv =
     (case map_of t f of None \<Rightarrow> False | Some v \<Rightarrow> (case conv v of Inl _ \<Rightarrow> True | Inr _ \<Rightarrow> False))"

lemma optional_fst [simp]: "fst (optional_field t scope f conv) = field_value t f conv"
  by (simp add: optional_field_def field_value_def split: option.splits sum.splits)

lemma required_fst [simp]: "fst (required_field t scope f conv) = field_value t f conv"
  by (simp add: required_field_def field_value_def)

lemma optional_snd [simp]: "snd (optional_field t scope f conv) = [] \<longleftrightarrow> \<not> bad_value t f conv"
  by (simp add: optional_field_def bad_value_def split: option.splits sum.splits)

lemma required_snd [simp]:
  "snd (required_field t scope f conv) = [] \<longleftrightarrow> map_of t f \<noteq> None \<and> \<not> bad_value t f conv"
  by (simp add: required_field_def)

lemma required_value:
  "snd (required_field t scope f conv) = [] \<Longrightarrow> \<exists>x. field_value t f conv = Some x"
  by (auto simp: bad_value_def field_value_def split: option.splits sum.splits)

definition names_field :: "string \<Rightarrow> string \<Rightarrow> string list \<Rightarrow> bool" where
  "names_field scope f ps = (\<exists>c. problem scope f c \<in> set ps)"

lemma names_field_append [simp]:
  "names_field scope f (ps @ qs) \<longleftrightarrow> names_field scope f ps \<or> names_field scope f qs"
  by (auto simp: names_field_def)

lemma optional_named: "bad_value t f conv \<Longrightarrow> names_field scope f (snd (optional_field t scope f conv))"
  by (auto simp: optional_field_def bad_value_def names_field_def split: option.splits sum.splits)

lemma required_named:
  "bad_value t f conv \<or> map_of t f = None \<Longrightarrow>
     names_field scope f (snd (required_field t scope f conv))"
  by (auto simp: required_field_def optional_named names_field_def)
    (metis names_field_def optional_named)

lemma unknown_named:
  "f \<in> fst ` set t \<Longrightarrow> f \<notin> set known \<Longrightarrow> names_field scope f (report_unknown t known scope)"
  unfolding names_field_def report_unknown_def by (intro exI) force

lemma settled_snd: "settled t v scope f = [] \<longleftrightarrow> v \<noteq> None \<or> map_of t f \<noteq> None"
  by (auto simp: settled_def)

lemma settled_named:
  "v = None \<Longrightarrow> map_of t f = None \<Longrightarrow> names_field scope f (settled t v scope f)"
  by (auto simp: settled_def names_field_def)

lemma positive_value: "field_value t f as_positive = Some n \<Longrightarrow> 0 < n"
proof -
  assume "field_value t f as_positive = Some n"
  then obtain k where k: "0 < k" "k < 2 ^ 32" "n = of_int k"
    by (auto simp: field_value_def as_positive_def split: option.splits sum.splits toml.splits if_splits)
  then have "uint n = k" by (simp add: unsigned_of_int take_bit_int_eq_self)
  with k show "0 < n" by (simp add: word_less_def)
qed

lemma location_value:
  "field_value t f as_location = Some p \<Longrightarrow> as_str p \<noteq> [] \<and> anchor_of (as_str p) = None"
  by (auto simp: field_value_def as_location_def dest: relative_path_newD
      split: option.splits sum.splits)

definition runtime_ok :: "string \<Rightarrow> bool" where
  "runtime_ok r = (r \<noteq> [] \<and> list_all runtime_char r)"

lemma runtime_value: "field_value t f as_runtime = Some r \<Longrightarrow> runtime_ok r"
  by (auto simp: field_value_def as_runtime_def runtime_ok_def split: option.splits sum.splits if_splits)

section \<open>Flags\<close>

text \<open>The text a flags table gives a name, none when there is no such table.\<close>

definition flag_value :: "table \<Rightarrow> string \<Rightarrow> string option" where
  "flag_value t k =
     (case map_of t ''flags'' of
        Some (TTable inner) \<Rightarrow> field_value inner k as_text
      | _ \<Rightarrow> None)"

lemma flag_list_ok: "tree_ok out \<Longrightarrow> tree_ok (fst (flag_list scope t out))"
proof (induction t arbitrary: out)
  case Nil
  then show ?case by simp
next
  case (Cons kv t)
  then show ?case
    by (cases kv) (simp add: case_prod_beta tree_ok_insert split: sum.splits)
qed

lemma flag_list_value:
  assumes "distinct (map fst t)"
  shows "map_of (fst (flag_list scope t out)) k =
    (case field_value t k as_text of None \<Rightarrow> map_of out k | Some s \<Rightarrow> Some s)"
  using assms
proof (induction t arbitrary: out)
  case Nil
  then show ?case by (simp add: field_value_def)
next
  case (Cons kv t)
  obtain a v where kv: "kv = (a, v)" by (cases kv)
  have "a \<notin> fst ` set t" using Cons.prems kv by simp
  then have fresh: "map_of t a = None" by (simp add: map_of_eq_None_iff)
  show ?case
  proof (cases "as_text v")
    case (Inl c)
    with Cons kv fresh show ?thesis
      by (auto simp: case_prod_beta field_value_def)
  next
    case (Inr s)
    with Cons kv fresh show ?thesis
      by (auto simp: field_value_def map_of_tree_insert split: option.splits)
  qed
qed

lemma flags_of_fst:
  "fst (flags_of t scope) =
     (case map_of t ''flags'' of Some (TTable inner) \<Rightarrow> fst (flag_list scope inner []) | _ \<Rightarrow> [])"
  by (simp add: flags_of_def table_at_def case_prod_beta split: option.splits toml.splits)

lemma flags_of_ok: "tree_ok (fst (flags_of t scope))"
  using flag_list_ok [of "[]"] by (simp add: flags_of_fst tree_ok_def split: option.splits toml.splits)

text \<open>\<open>toml\<close>'s tables carry each key once, nested ones too.\<close>

fun toml_ok :: "toml \<Rightarrow> bool" where
  "toml_ok (TTable t) = (tree_ok t \<and> list_all (\<lambda>(k, v). toml_ok v) t)"
| "toml_ok _ = True"

lemma tree_ok_distinct: "tree_ok m \<Longrightarrow> distinct (map fst m)"
  by (simp add: tree_ok_def strict_sorted_iff)

lemma toml_ok_inner: "toml_ok (TTable t) \<Longrightarrow> map_of t k = Some v \<Longrightarrow> toml_ok v"
  by (auto simp: list_all_iff dest: map_of_SomeD)

lemma flags_of_value:
  assumes "toml_ok (TTable t)"
  shows "map_of (fst (flags_of t scope)) k = flag_value t k"
proof (cases "map_of t ''flags''")
  case None
  then show ?thesis by (simp add: flags_of_fst flag_value_def)
next
  case (Some v)
  show ?thesis
  proof (cases v)
    case (TTable inner)
    with toml_ok_inner [OF assms Some] have "distinct (map fst inner)" by (simp add: tree_ok_distinct)
    with Some TTable flag_list_value [of inner scope "[]" k] show ?thesis
      by (simp add: flags_of_fst flag_value_def split: option.splits)
  qed (use Some in \<open>simp_all add: flags_of_fst flag_value_def\<close>)
qed

lemma map_of_tree_extend:
  "distinct (map fst n) \<Longrightarrow>
     map_of (tree_extend m n) k = (case map_of n k of None \<Rightarrow> map_of m k | Some v \<Rightarrow> Some v)"
proof (induction n arbitrary: m)
  case Nil
  then show ?case by (simp add: tree_extend_def)
next
  case (Cons kv n)
  obtain a v where kv: "kv = (a, v)" by (cases kv)
  have "map_of n a = None" using Cons.prems kv by (simp add: map_of_eq_None_iff)
  with Cons kv show ?case
    by (auto simp: tree_extend_def map_of_tree_insert split: option.splits)
qed

section \<open>Defaults and entries\<close>

definition effective :: "table \<Rightarrow> string \<Rightarrow> (toml \<Rightarrow> string + 'a) \<Rightarrow> 'a option \<Rightarrow> 'a option" where
  "effective t f conv d = (case field_value t f conv of None \<Rightarrow> d | Some x \<Rightarrow> Some x)"

lemma or_else_field [simp]: "or_else (field_value t f conv) d = effective t f conv d"
  by (simp add: effective_def or_else_def)

definition settle_entry :: "string \<Rightarrow> table \<Rightarrow> defaults \<Rightarrow> relative_path \<Rightarrow> u32 \<Rightarrow> entry" where
  "settle_entry i t df p n =
     \<lparr>e_id = i, e_path = p,
      e_draft_path = field_value t ''draft_path'' as_location,
      e_projector_path = field_value t ''projector_path'' as_location,
      e_context_size = n,
      e_residency = (case effective t ''residency'' as_residency (df_residency df) of
         None \<Rightarrow> OnDemand | Some r \<Rightarrow> r),
      e_memory_estimate_mib =
        (case effective t ''memory_estimate_mib'' as_positive (df_memory_estimate_mib df) of
           None \<Rightarrow> 0 | Some m \<Rightarrow> m),
      e_reasoning_format = effective t ''reasoning_format'' as_text (df_reasoning_format df),
      e_reasoning_effort = effective t ''reasoning_effort'' as_text (df_reasoning_effort df),
      e_startup_timeout_seconds =
        (case effective t ''startup_timeout_seconds'' as_positive (df_startup_timeout_seconds df) of
           None \<Rightarrow> DEFAULT_STARTUP_TIMEOUT_SECONDS | Some s \<Rightarrow> s),
      e_runtime = effective t ''runtime'' as_runtime (df_runtime df),
      e_flags = tree_extend (df_flags df) (fst (flags_of t (entry_scope i)))\<rparr>"

lemma draft_entry:
  "dr_entry (draft_of i (TTable t) df) =
     (case (field_value t ''path'' as_location,
            effective t ''context_size'' as_positive (df_context_size df)) of
        (Some p, Some n) \<Rightarrow> Some (settle_entry i t df p n)
      | _ \<Rightarrow> None)"
  by (simp add: draft_of_def Let_def case_prod_beta settle_entry_def split: option.split)

lemma draft_undeclared:
  "dr_undeclared (draft_of i (TTable t) df) \<longleftrightarrow>
     effective t ''memory_estimate_mib'' as_positive (df_memory_estimate_mib df) = None"
  by (simp add: draft_of_def Let_def case_prod_beta)

lemma draft_problems:
  "dr_problems (draft_of i (TTable t) df) =
     (let scope = entry_scope i in
      report_unknown t ENTRY_FIELDS scope @ snd (flags_of t scope)
      @ snd (required_field t scope ''path'' as_location)
      @ snd (optional_field t scope ''draft_path'' as_location)
      @ snd (optional_field t scope ''projector_path'' as_location)
      @ snd (optional_field t scope ''context_size'' as_positive)
      @ settled t (effective t ''context_size'' as_positive (df_context_size df)) scope ''context_size''
      @ snd (optional_field t scope ''memory_estimate_mib'' as_positive)
      @ snd (optional_field t scope ''residency'' as_residency)
      @ snd (optional_field t scope ''reasoning_format'' as_text)
      @ snd (optional_field t scope ''runtime'' as_runtime)
      @ snd (optional_field t scope ''reasoning_effort'' as_text)
      @ snd (optional_field t scope ''startup_timeout_seconds'' as_positive))"
  by (simp add: draft_of_def Let_def case_prod_beta)

lemma draft_clean:
  assumes "dr_problems (draft_of i v df) = []"
  obtains t p n where "v = TTable t" and "field_value t ''path'' as_location = Some p"
    and "effective t ''context_size'' as_positive (df_context_size df) = Some n"
    and "dr_entry (draft_of i v df) = Some (settle_entry i t df p n)"
proof -
  obtain t where v: "v = TTable t"
    using assms by (cases v) (simp_all add: draft_of_def Let_def)
  have req: "snd (required_field t (entry_scope i) ''path'' as_location) = []"
    and cs: "snd (optional_field t (entry_scope i) ''context_size'' as_positive) = []"
    and st: "settled t (effective t ''context_size'' as_positive (df_context_size df))
      (entry_scope i) ''context_size'' = []"
    using assms by (simp_all add: v draft_problems Let_def del: required_snd optional_snd)
  obtain p where p: "field_value t ''path'' as_location = Some p"
    using required_value [OF req] by blast
  have "effective t ''context_size'' as_positive (df_context_size df) \<noteq> None"
    using cs st unfolding settled_snd optional_snd
    by (auto simp: bad_value_def effective_def field_value_def split: option.splits sum.splits)
  then obtain n where n: "effective t ''context_size'' as_positive (df_context_size df) = Some n"
    by blast
  show thesis by (rule that [OF v p n]) (simp add: v draft_entry p n)
qed

text \<open>What the defaults say, field by field.\<close>

definition defaults_table :: "table \<Rightarrow> table" where
  "defaults_table tbl = (case map_of tbl ''defaults'' of Some (TTable inner) \<Rightarrow> inner | _ \<Rightarrow> [])"

lemma field_value_Nil [simp]: "field_value [] f conv = None"
  by (simp add: field_value_def)

lemma defaults_fields:
  "fst (defaults_of tbl) =
     (let inner = defaults_table tbl in
      \<lparr>df_context_size = field_value inner ''context_size'' as_positive,
       df_residency = field_value inner ''residency'' as_residency,
       df_memory_estimate_mib = field_value inner ''memory_estimate_mib'' as_positive,
       df_reasoning_format = field_value inner ''reasoning_format'' as_text,
       df_runtime = field_value inner ''runtime'' as_runtime,
       df_reasoning_effort = field_value inner ''reasoning_effort'' as_text,
       df_startup_timeout_seconds = field_value inner ''startup_timeout_seconds'' as_positive,
       df_flags = fst (flags_of inner DEFAULTS_SCOPE)\<rparr>)"
  by (simp add: defaults_of_def table_at_def defaults_table_def defaults_none_def Let_def
      case_prod_beta flags_of_fst split: option.splits toml.splits)

section \<open>Faults\<close>

text \<open>
  Every fault a table's field can have: a name the schema does not define, a value that does
  not convert, a required field that is missing, a flag that is no string.
\<close>

definition misread :: "table \<Rightarrow> string \<Rightarrow> bool" where
  "misread t f =
     ((f \<in> {''path'', ''draft_path'', ''projector_path''} \<and> bad_value t f as_location) \<or>
      (f \<in> {''context_size'', ''memory_estimate_mib'', ''startup_timeout_seconds''} \<and>
         bad_value t f as_positive) \<or>
      (f = ''residency'' \<and> bad_value t f as_residency) \<or>
      (f \<in> {''reasoning_format'', ''reasoning_effort''} \<and> bad_value t f as_text) \<or>
      (f = ''runtime'' \<and> bad_value t f as_runtime) \<or>
      (f = ''flags'' \<and>
         (case map_of t f of None \<Rightarrow> False
          | Some (TTable inner) \<Rightarrow> list_ex (\<lambda>(k, v). case v of TStr _ \<Rightarrow> False | _ \<Rightarrow> True) inner
          | Some _ \<Rightarrow> True)))"

definition faulty :: "table \<Rightarrow> table \<Rightarrow> string \<Rightarrow> bool" where
  "faulty d t f =
     ((f \<in> fst ` set t \<and> f \<notin> set ENTRY_FIELDS) \<or> misread t f \<or>
      (f = ''path'' \<and> map_of t f = None) \<or>
      (f \<in> {''context_size'', ''memory_estimate_mib''} \<and> map_of t f = None \<and>
         field_value d f as_positive = None))"

lemma flag_list_problems:
  "list_ex (\<lambda>(k, v). case v of TStr _ \<Rightarrow> False | _ \<Rightarrow> True) inner \<Longrightarrow>
     names_field scope ''flags'' (snd (flag_list scope inner out))"
proof (induction inner arbitrary: out)
  case Nil
  then show ?case by simp
next
  case (Cons kv inner)
  obtain k v where kv: "kv = (k, v)" by (cases kv)
  with Cons show ?case
    by (cases v) (auto simp: as_text_def case_prod_beta names_field_def)
qed

lemma flags_named: "misread t ''flags'' \<Longrightarrow> names_field scope ''flags'' (snd (flags_of t scope))"
  by (auto simp: misread_def flags_of_def table_at_def case_prod_beta flag_list_problems
      split: option.splits toml.splits)
    (auto simp: names_field_def)

lemma draft_names_misread:
  assumes "misread t f"
  shows "names_field (entry_scope i) f (dr_problems (draft_of i (TTable t) df))"
proof -
  let ?s = "entry_scope i"
  note named = draft_problems Let_def names_field_append
  show ?thesis
  proof (cases "f = ''flags''")
    case True
    then show ?thesis using flags_named [of t ?s] assms by (simp add: named)
  next
    case False
    from assms show ?thesis
      unfolding misread_def insert_iff empty_iff
    proof (elim disjE conjE)
      assume "f = ''path''" "bad_value t f as_location"
      then show ?thesis using required_named [of t f as_location ?s] by (simp only: named simp_thms)
    next
      assume "f = ''draft_path''" "bad_value t f as_location"
      then show ?thesis using optional_named [of t f as_location ?s] by (simp only: named simp_thms)
    next
      assume "f = ''projector_path''" "bad_value t f as_location"
      then show ?thesis using optional_named [of t f as_location ?s] by (simp only: named simp_thms)
    next
      assume "f = ''context_size''" "bad_value t f as_positive"
      then show ?thesis using optional_named [of t f as_positive ?s] by (simp only: named simp_thms)
    next
      assume "f = ''memory_estimate_mib''" "bad_value t f as_positive"
      then show ?thesis using optional_named [of t f as_positive ?s] by (simp only: named simp_thms)
    next
      assume "f = ''startup_timeout_seconds''" "bad_value t f as_positive"
      then show ?thesis using optional_named [of t f as_positive ?s] by (simp only: named simp_thms)
    next
      assume "f = ''residency''" "bad_value t f as_residency"
      then show ?thesis using optional_named [of t f as_residency ?s] by (simp only: named simp_thms)
    next
      assume "f = ''reasoning_format''" "bad_value t f as_text"
      then show ?thesis using optional_named [of t f as_text ?s] by (simp only: named simp_thms)
    next
      assume "f = ''reasoning_effort''" "bad_value t f as_text"
      then show ?thesis using optional_named [of t f as_text ?s] by (simp only: named simp_thms)
    next
      assume "f = ''runtime''" "bad_value t f as_runtime"
      then show ?thesis using optional_named [of t f as_runtime ?s] by (simp only: named simp_thms)
    qed (use False in simp_all)
  qed
qed

lemma draft_names_fault:
  assumes "faulty d t f" and "df_context_size df = field_value d ''context_size'' as_positive"
    and "df_memory_estimate_mib df = field_value d ''memory_estimate_mib'' as_positive"
  shows "names_field (entry_scope i) f (dr_problems (draft_of i (TTable t) df)) \<or>
    (f = ''memory_estimate_mib'' \<and> dr_undeclared (draft_of i (TTable t) df))"
proof -
  consider "f \<in> fst ` set t" "f \<notin> set ENTRY_FIELDS" | "misread t f"
    | "f = ''path''" "map_of t f = None"
    | "f = ''context_size''" "map_of t f = None" "field_value d f as_positive = None"
    | "f = ''memory_estimate_mib''" "map_of t f = None" "field_value d f as_positive = None"
    using assms(1) unfolding faulty_def insert_iff empty_iff by metis
  then show ?thesis
  proof cases
    case 1
    then show ?thesis by (simp add: draft_problems Let_def unknown_named)
  next
    case 2
    then show ?thesis by (simp add: draft_names_misread)
  next
    case 3
    then show ?thesis by (simp add: draft_problems Let_def required_named)
  next
    case 4
    then have "effective t f as_positive (df_context_size df) = None"
      by (simp add: effective_def field_value_def assms(2))
    with 4 show ?thesis by (simp add: draft_problems Let_def settled_named)
  next
    case 5
    then show ?thesis
      by (simp add: draft_undeclared effective_def field_value_def assms(3))
  qed
qed

end
