(* ===== verification/Catalog_Claims.thy ===== *)
theory Catalog_Claims
  imports Catalog_Facts
begin

text \<open>
  The properties of reading a catalog's text. The TOML library is an argument; what is relied
  on is that its tables carry each key once, in order.
\<close>

definition toml_reader_ok :: "(string \<Rightarrow> string + table) \<Rightarrow> bool" where
  "toml_reader_ok toml = (\<forall>s t. toml s = Inr t \<longrightarrow> toml_ok (TTable t))"

definition usable_path :: "relative_path \<Rightarrow> bool" where
  "usable_path p = (as_str p \<noteq> [] \<and> anchor_of (as_str p) = None)"

definition usable_entry :: "entry \<Rightarrow> bool" where
  "usable_entry e =
     (usable_path (e_path e) \<and> pred_option usable_path (e_draft_path e) \<and>
      pred_option usable_path (e_projector_path e) \<and> 0 < e_context_size e \<and>
      0 < e_memory_estimate_mib e \<and> 0 < e_startup_timeout_seconds e \<and>
      pred_option runtime_ok (e_runtime e) \<and> tree_ok (e_flags e))"

section \<open>What a parse that succeeds read\<close>

lemma drafts_success:
  assumes "drafts_of toml text = Inr ds" and "ds_problems ds = []"
  obtains tbl models where "toml text = Inr tbl" and "map_of tbl ''models'' = Some (TTable models)"
    and "field_value tbl ''version'' as_positive = ds_version ds" and "ds_version ds \<noteq> None"
    and "ds_defaults ds = fst (defaults_of tbl)"
    and "\<And>i w. (i, w) \<in> set models \<Longrightarrow> dr_problems (draft_of i w (fst (defaults_of tbl))) = []"
    and "ds_entries ds =
      List.map_filter (\<lambda>(i, w). dr_entry (draft_of i w (fst (defaults_of tbl)))) models"
    and "ds_undeclared ds =
      map fst (filter (\<lambda>(i, w). dr_undeclared (draft_of i w (fst (defaults_of tbl)))) models)"
proof -
  obtain tbl where tbl: "toml text = Inr tbl"
    using assms by (cases "toml text") (simp_all add: drafts_of_def)
  let ?df = "fst (defaults_of tbl)"
  let ?es = "entries_of tbl ?df"
  have ds: "ds = \<lparr>ds_version = fst (version_of tbl), ds_defaults = ?df, ds_entries = fst ?es,
      ds_undeclared = fst (snd ?es),
      ds_problems = snd (version_of tbl) @ snd (defaults_of tbl) @ snd (snd ?es)\<rparr>"
    using assms(1) tbl by (simp add: drafts_of_def Let_def case_prod_beta)
  then have clean: "snd (version_of tbl) = []" "snd (snd ?es) = []" using assms(2) by simp_all
  obtain models where models: "map_of tbl ''models'' = Some (TTable models)"
    using clean(2) by (simp add: entries_of_def table_at_def split: option.splits toml.splits if_splits)
  have es: "?es = (List.map_filter (\<lambda>(i, d). dr_entry d) (model_drafts models ?df),
      map fst (filter (\<lambda>(i, d). dr_undeclared d) (model_drafts models ?df)),
      concat (map (\<lambda>(i, d). dr_problems d) (model_drafts models ?df)))"
    by (simp add: entries_of_def table_at_def models Let_def)
  show thesis
  proof (rule that [OF tbl models])
    show "field_value tbl ''version'' as_positive = ds_version ds" "ds_version ds \<noteq> None"
      using required_value [OF clean(1) [unfolded version_of_def]] by (auto simp: ds version_of_def)
    show "ds_entries ds = List.map_filter (\<lambda>(i, w). dr_entry (draft_of i w ?df)) models"
      by (simp add: ds es model_drafts_def List.map_filter_def filter_map o_def case_prod_beta)
    show "ds_undeclared ds = map fst (filter (\<lambda>(i, w). dr_undeclared (draft_of i w ?df)) models)"
      by (simp add: ds es model_drafts_def filter_map o_def case_prod_unfold)
    show "dr_problems (draft_of i w ?df) = []" if "(i, w) \<in> set models" for i w
      using clean(2) that by (force simp: es model_drafts_def)
  qed (simp add: ds)
qed

lemma parse_drafts:
  "catalog_parse toml text = Inr c \<longleftrightarrow>
     (\<exists>ds. drafts_of toml text = Inr ds \<and> ds_problems ds = [] \<and> ds_undeclared ds = [] \<and>
       c = \<lparr>c_version = (case ds_version ds of None \<Rightarrow> 0 | Some v \<Rightarrow> v), c_entries = ds_entries ds,
         c_derived = {}, c_discovered = {}\<rparr>)"
  by (auto simp: catalog_parse_def Let_def split: sum.split)

lemma parse_success:
  assumes "catalog_parse toml text = Inr c"
  obtains tbl models v where "toml text = Inr tbl" and "map_of tbl ''models'' = Some (TTable models)"
    and "field_value tbl ''version'' as_positive = Some v" and "c_version c = v"
    and "\<And>i w. (i, w) \<in> set models \<Longrightarrow> dr_problems (draft_of i w (fst (defaults_of tbl))) = [] \<and>
      \<not> dr_undeclared (draft_of i w (fst (defaults_of tbl)))"
    and "c_entries c =
      List.map_filter (\<lambda>(i, w). dr_entry (draft_of i w (fst (defaults_of tbl)))) models"
    and "c_derived c = {}" and "c_discovered c = {}"
proof -
  obtain ds where ds: "drafts_of toml text = Inr ds" "ds_problems ds = []" "ds_undeclared ds = []"
    and c: "c = \<lparr>c_version = (case ds_version ds of None \<Rightarrow> 0 | Some v \<Rightarrow> v), c_entries = ds_entries ds,
         c_derived = {}, c_discovered = {}\<rparr>"
    using assms unfolding parse_drafts by blast
  show thesis
    using ds(1,2)
  proof (rule drafts_success)
    fix tbl models
    assume s: "toml text = Inr tbl" "map_of tbl ''models'' = Some (TTable models)"
      "field_value tbl ''version'' as_positive = ds_version ds" "ds_version ds \<noteq> None"
      "\<And>i w. (i, w) \<in> set models \<Longrightarrow> dr_problems (draft_of i w (fst (defaults_of tbl))) = []"
      "ds_entries ds = List.map_filter (\<lambda>(i, w). dr_entry (draft_of i w (fst (defaults_of tbl)))) models"
      "ds_undeclared ds =
        map fst (filter (\<lambda>(i, w). dr_undeclared (draft_of i w (fst (defaults_of tbl)))) models)"
    then have "\<not> dr_undeclared (draft_of i w (fst (defaults_of tbl)))" if "(i, w) \<in> set models" for i w
      using that ds(3) by (auto simp: filter_empty_conv)
    with s show thesis
      by (cases "ds_version ds") (auto intro!: that [of tbl models] simp: c)
  qed
qed

lemma map_filter_all:
  "(\<And>x. x \<in> set xs \<Longrightarrow> f x = Some (g x)) \<Longrightarrow> List.map_filter f xs = map g xs"
  by (induction xs) (simp_all add: List.map_filter_simps)

text \<open>How one entry came from its table.\<close>

definition read_as :: "table \<Rightarrow> string \<Rightarrow> toml \<Rightarrow> entry \<Rightarrow> bool" where
  "read_as tbl i w e =
     (let df = fst (defaults_of tbl) in
      \<exists>t p n m. w = TTable t \<and> field_value t ''path'' as_location = Some p \<and>
        effective t ''context_size'' as_positive (df_context_size df) = Some n \<and>
        effective t ''memory_estimate_mib'' as_positive (df_memory_estimate_mib df) = Some m \<and>
        e = settle_entry i t df p n)"

lemma read_as_id: "read_as tbl i w e \<Longrightarrow> e_id e = i"
  by (auto simp: read_as_def settle_entry_def Let_def)

lemma draft_read_as:
  assumes "dr_problems (draft_of i w (fst (defaults_of tbl))) = []"
    and "\<not> dr_undeclared (draft_of i w (fst (defaults_of tbl)))"
  shows "\<exists>e. dr_entry (draft_of i w (fst (defaults_of tbl))) = Some e \<and> read_as tbl i w e"
  using assms(1)
proof (rule draft_clean)
  fix t p n
  assume a: "w = TTable t" "field_value t ''path'' as_location = Some p"
    "effective t ''context_size'' as_positive (df_context_size (fst (defaults_of tbl))) = Some n"
    "dr_entry (draft_of i w (fst (defaults_of tbl))) = Some (settle_entry i t (fst (defaults_of tbl)) p n)"
  with assms(2) obtain m where
    "effective t ''memory_estimate_mib'' as_positive (df_memory_estimate_mib (fst (defaults_of tbl))) = Some m"
    by (auto simp: draft_undeclared)
  with a show ?thesis by (auto simp: read_as_def Let_def)
qed

lemma parse_entries:
  assumes "catalog_parse toml text = Inr c"
  obtains tbl models g where "toml text = Inr tbl"
    and "map_of tbl ''models'' = Some (TTable models)"
    and "c_entries c = map g models" and "\<And>i w. (i, w) \<in> set models \<Longrightarrow> read_as tbl i w (g (i, w))"
    and "ids_of c = map fst models"
proof -
  obtain tbl models v where s: "toml text = Inr tbl" "map_of tbl ''models'' = Some (TTable models)"
    and ok: "\<And>i w. (i, w) \<in> set models \<Longrightarrow> dr_problems (draft_of i w (fst (defaults_of tbl))) = [] \<and>
      \<not> dr_undeclared (draft_of i w (fst (defaults_of tbl)))"
    and es: "c_entries c =
      List.map_filter (\<lambda>(i, w). dr_entry (draft_of i w (fst (defaults_of tbl)))) models"
    using parse_success [OF assms] by metis
  define g where "g = (\<lambda>(i, w). the (dr_entry (draft_of i w (fst (defaults_of tbl)))))"
  have g: "dr_entry (draft_of i w (fst (defaults_of tbl))) = Some (g (i, w)) \<and> read_as tbl i w (g (i, w))"
    if "(i, w) \<in> set models" for i w
    using draft_read_as [of i w tbl] ok [OF that] by (auto simp: g_def)
  have map: "c_entries c = map g models"
    unfolding es using g by (intro map_filter_all) auto
  show thesis
  proof (rule that [OF s map])
    show "read_as tbl i w (g (i, w))" if "(i, w) \<in> set models" for i w
      using g [OF that] ..
    have "e_id (g x) = fst x" if "x \<in> set models" for x
      using g [of "fst x" "snd x"] that by (auto dest: read_as_id)
    then show "ids_of c = map fst models" unfolding map by simp
  qed
qed

lemma defaults_table_ok:
  assumes "toml_ok (TTable tbl)"
  shows "toml_ok (TTable (defaults_table tbl))"
proof (cases "\<exists>inner. map_of tbl ''defaults'' = Some (TTable inner)")
  case True
  then obtain inner where inner: "map_of tbl ''defaults'' = Some (TTable inner)" by blast
  show ?thesis using toml_ok_inner [OF assms inner] by (simp add: defaults_table_def inner)
next
  case False
  then have "defaults_table tbl = []"
    by (auto simp: defaults_table_def split: option.splits toml.splits)
  then show ?thesis by (simp add: tree_ok_def)
qed

lemma defaults_positive:
  "df_context_size (fst (defaults_of tbl)) = Some n \<Longrightarrow> 0 < n"
  "df_memory_estimate_mib (fst (defaults_of tbl)) = Some n \<Longrightarrow> 0 < n"
  "df_startup_timeout_seconds (fst (defaults_of tbl)) = Some n \<Longrightarrow> 0 < n"
  by (auto simp: defaults_fields Let_def dest: positive_value)

lemma defaults_runtime: "df_runtime (fst (defaults_of tbl)) = Some r \<Longrightarrow> runtime_ok r"
  by (auto simp: defaults_fields Let_def dest: runtime_value)

lemma effective_cases:
  "effective t f conv d = Some x \<Longrightarrow> field_value t f conv = Some x \<or> d = Some x"
  by (auto simp: effective_def split: option.splits)

lemma read_as_usable:
  assumes "read_as tbl i w e"
  shows "usable_entry e"
proof -
  let ?df = "fst (defaults_of tbl)"
  obtain t p n m where p: "field_value t ''path'' as_location = Some p"
    and n: "effective t ''context_size'' as_positive (df_context_size ?df) = Some n"
    and m: "effective t ''memory_estimate_mib'' as_positive (df_memory_estimate_mib ?df) = Some m"
    and e: "e = settle_entry i t ?df p n"
    using assms by (auto simp: read_as_def Let_def)
  have path: "pred_option usable_path (field_value t f as_location)" for f
    using location_value by (cases "field_value t f as_location") (auto simp: usable_path_def)
  have "pred_option runtime_ok (effective t ''runtime'' as_runtime (df_runtime ?df))"
    using effective_cases [of t "''runtime''" as_runtime "df_runtime ?df"]
    by (cases "effective t ''runtime'' as_runtime (df_runtime ?df)")
      (auto dest: runtime_value defaults_runtime)
  moreover have "0 < (case effective t ''startup_timeout_seconds'' as_positive
      (df_startup_timeout_seconds ?df) of None \<Rightarrow> DEFAULT_STARTUP_TIMEOUT_SECONDS | Some s \<Rightarrow> s)"
    using effective_cases [of t "''startup_timeout_seconds''" as_positive "df_startup_timeout_seconds ?df"]
    by (auto simp: DEFAULT_STARTUP_TIMEOUT_SECONDS_def dest: positive_value defaults_positive
        split: option.split)
  moreover have "usable_path p" using path [of "''path''"] p by simp
  moreover have "0 < n" using effective_cases [OF n] by (auto dest: positive_value defaults_positive)
  moreover have "0 < m" using effective_cases [OF m] by (auto dest: positive_value defaults_positive)
  moreover have "tree_ok (tree_extend (df_flags ?df) (fst (flags_of t (entry_scope i))))"
    by (intro tree_ok_extend) (simp add: defaults_fields Let_def flags_of_ok)
  ultimately show ?thesis using path
    by (simp add: usable_entry_def e settle_entry_def m)
qed

section \<open>Properties\<close>

text \<open>A catalog of two models, the second inheriting the defaults.\<close>

definition two_models :: table where
  "two_models =
     [(''defaults'', TTable [(''context_size'', TInt 4096), (''flags'', TTable [(''ngl'', TStr ''999'')]),
         (''memory_estimate_mib'', TInt 512)]),
      (''models'', TTable [(''chat'', TTable [(''flags'', TTable [(''ngl'', TStr ''0'')]),
           (''path'', TStr ''chat.gguf''), (''residency'', TStr ''resident'')]),
         (''other'', TTable [(''context_size'', TInt 8192), (''path'', TStr ''other.gguf'')])]),
      (''version'', TInt 1)]"

lemma two_models_ok: "toml_reader_ok (\<lambda>_. Inr two_models)"
  by (simp add: toml_reader_ok_def two_models_def tree_ok_def)

lemma two_models_read: "\<exists>c. catalog_parse (\<lambda>_. Inr two_models) [] = Inr c"
proof -
  have "\<not> isl (catalog_parse (\<lambda>_. Inr two_models) [])" by code_simp
  then show ?thesis by (cases "catalog_parse (\<lambda>_. Inr two_models) []") simp_all
qed

text \<open>A location is only ever relative: one that climbs above the models root is read as well.\<close>

lemma locations_may_climb: "relative_path_new ''../x'' = Inr (RelativePath ''../x'')"
  by (simp add: relative_path_new_def anchor_of_def starts_with_def)

text \<open>C28: What a parse accepts is usable: the entries are every model of the file, in
  ascending order of identifier and each once, each with locations that are not empty and not
  anchored to a root, a drive or a share (\<open>..\<close> is not looked for), a context, an estimate and a
  startup budget above zero, a runtime name that is safe in a file name where it has one, and
  flags in ascending order with each once; what the flags are is not looked at. The version is
  above zero, and nothing in it is derived or discovered.\<close>

theorem parse_yields_a_usable_catalog:
  assumes "catalog_parse toml text = Inr c" and "toml_reader_ok toml"
  shows "sorted_wrt (<) (ids_of c) \<and> (\<forall>e \<in> set (c_entries c). usable_entry e) \<and>
    (\<exists>tbl models. toml text = Inr tbl \<and> map_of tbl ''models'' = Some (TTable models) \<and>
      ids_of c = map fst models) \<and>
    0 < c_version c \<and> c_derived c = {} \<and> c_discovered c = {}"
proof -
  obtain tbl models g where s: "toml text = Inr tbl" "map_of tbl ''models'' = Some (TTable models)"
    and es: "c_entries c = map g models" "\<And>i w. (i, w) \<in> set models \<Longrightarrow> read_as tbl i w (g (i, w))"
    and ids: "ids_of c = map fst models"
    using parse_entries [OF assms(1)] by metis
  have "toml_ok (TTable tbl)" using assms(2) s(1) by (simp add: toml_reader_ok_def)
  then have "tree_ok models" using toml_ok_inner [OF _ s(2)] by simp
  then have sorted: "sorted_wrt (<) (ids_of c)" by (simp only: ids tree_ok_def)
  have usable: "\<forall>e \<in> set (c_entries c). usable_entry e"
    unfolding es(1) by (auto dest!: es(2) read_as_usable)
  have "0 < c_version c" "c_derived c = {}" "c_discovered c = {}"
    using parse_success [OF assms(1)] positive_value by metis+
  with sorted usable s ids show ?thesis by blast
qed

theorem parse_yields_a_usable_catalog_witness:
  "\<exists>c. catalog_parse (\<lambda>_. Inr two_models) [] = Inr c \<and> sorted_wrt (<) (ids_of c)"
  using two_models_read parse_yields_a_usable_catalog [OF _ two_models_ok, of "[]"] by blast

text \<open>An entry is what its own table says, and what the defaults say where its table says
  nothing; a residency neither sets is on demand, a startup budget neither sets is 300 seconds,
  and flags are merged name by name with the entry's own winning.\<close>

lemma entries_inherit_the_defaults:
  assumes "catalog_parse toml text = Inr c" and "toml_reader_ok toml" and "toml text = Inr tbl"
    and "map_of tbl ''models'' = Some (TTable models)" and "map_of models i = Some (TTable t)"
  shows "\<exists>e. catalog_entry c i = Some e \<and>
    (let d = defaults_table tbl;
         inherited = \<lambda>f. effective t f as_positive (field_value d f as_positive);
         said = \<lambda>f. effective t f as_text (field_value d f as_text) in
     field_value t ''path'' as_location = Some (e_path e) \<and>
     e_draft_path e = field_value t ''draft_path'' as_location \<and>
     e_projector_path e = field_value t ''projector_path'' as_location \<and>
     inherited ''context_size'' = Some (e_context_size e) \<and>
     inherited ''memory_estimate_mib'' = Some (e_memory_estimate_mib e) \<and>
     e_startup_timeout_seconds e =
       (case inherited ''startup_timeout_seconds'' of None \<Rightarrow> 300 | Some s \<Rightarrow> s) \<and>
     e_residency e =
       (case effective t ''residency'' as_residency (field_value d ''residency'' as_residency) of
          None \<Rightarrow> OnDemand | Some r \<Rightarrow> r) \<and>
     e_runtime e = effective t ''runtime'' as_runtime (field_value d ''runtime'' as_runtime) \<and>
     e_reasoning_format e = said ''reasoning_format'' \<and>
     e_reasoning_effort e = said ''reasoning_effort'' \<and>
     (\<forall>k. map_of (e_flags e) k =
        (case flag_value t k of None \<Rightarrow> flag_value d k | Some s \<Rightarrow> Some s)))"
proof -
  obtain g where es: "c_entries c = map g models" "\<And>i w. (i, w) \<in> set models \<Longrightarrow> read_as tbl i w (g (i, w))"
    and ids: "ids_of c = map fst models"
    using parse_entries [OF assms(1)] assms(3,4)
    by (metis option.inject sum.inject(2) toml.inject(3))
  have ok: "toml_ok (TTable tbl)" using assms(2,3) by (simp add: toml_reader_ok_def)
  then have models_ok: "toml_ok (TTable models)" using toml_ok_inner [OF _ assms(4)] by simp
  then have t_ok: "toml_ok (TTable t)" using toml_ok_inner [OF _ assms(5)] by simp
  have d_ok: "toml_ok (TTable (defaults_table tbl))" using ok by (rule defaults_table_ok)
  have "distinct (ids_of c)" using models_ok by (simp only: ids toml_ok.simps tree_ok_distinct)
  moreover have mem: "(i, TTable t) \<in> set models" using assms(5) by (rule map_of_SomeD)
  ultimately have e: "catalog_entry c i = Some (g (i, TTable t))"
    using catalog_entry_distinct [of c "g (i, TTable t)"] read_as_id [OF es(2) [OF mem]]
    by (simp add: es(1))
  from es(2) [OF mem] obtain p n m where r: "field_value t ''path'' as_location = Some p"
    "effective t ''context_size'' as_positive (df_context_size (fst (defaults_of tbl))) = Some n"
    "effective t ''memory_estimate_mib'' as_positive (df_memory_estimate_mib (fst (defaults_of tbl))) = Some m"
    "g (i, TTable t) = settle_entry i t (fst (defaults_of tbl)) p n"
    by (auto simp: read_as_def Let_def)
  have "distinct (map fst (fst (flags_of t (entry_scope i))))"
    by (intro tree_ok_distinct flags_of_ok)
  then have "map_of (e_flags (g (i, TTable t))) k =
      (case flag_value t k of None \<Rightarrow> flag_value (defaults_table tbl) k | Some s \<Rightarrow> Some s)" for k
    by (simp add: r(4) settle_entry_def map_of_tree_extend flags_of_value [OF t_ok] defaults_fields
        Let_def flags_of_value [OF d_ok] split: option.split)
  with e r show ?thesis
    by (simp add: settle_entry_def defaults_fields Let_def DEFAULT_STARTUP_TIMEOUT_SECONDS_def
        split: option.split)
qed

lemma entries_inherit_the_defaults_witness:
  "\<exists>c e. catalog_parse (\<lambda>_. Inr two_models) [] = Inr c \<and> catalog_entry c ''chat'' = Some e \<and>
     e_context_size e = 4096 \<and> e_residency e = Resident \<and> map_of (e_flags e) ''ngl'' = Some ''0''"
proof -
  obtain c where c: "catalog_parse (\<lambda>_. Inr two_models) [] = Inr c" using two_models_read by blast
  define models where "models = [(''chat'', TTable [(''flags'', TTable [(''ngl'', TStr ''0'')]),
           (''path'', TStr ''chat.gguf''), (''residency'', TStr ''resident'')]),
         (''other'', TTable [(''context_size'', TInt 8192), (''path'', TStr ''other.gguf'')])]"
  define t where "t = [(''flags'', TTable [(''ngl'', TStr ''0'')]),
           (''path'', TStr ''chat.gguf''), (''residency'', TStr ''resident'')]"
  have "map_of two_models ''models'' = Some (TTable models)" by (simp add: two_models_def models_def)
  moreover have "map_of models ''chat'' = Some (TTable t)" by (simp add: models_def t_def)
  ultimately obtain e where e: "catalog_entry c ''chat'' = Some e"
    "effective t ''context_size'' as_positive
       (field_value (defaults_table two_models) ''context_size'' as_positive) = Some (e_context_size e)"
    "e_residency e = (case effective t ''residency'' as_residency
       (field_value (defaults_table two_models) ''residency'' as_residency) of
          None \<Rightarrow> OnDemand | Some r \<Rightarrow> r)"
    "map_of (e_flags e) ''ngl'' = (case flag_value t ''ngl'' of
       None \<Rightarrow> flag_value (defaults_table two_models) ''ngl'' | Some s \<Rightarrow> Some s)"
    using entries_inherit_the_defaults [OF c two_models_ok refl] unfolding Let_def by blast
  have "effective t ''context_size'' as_positive
      (field_value (defaults_table two_models) ''context_size'' as_positive) = Some 4096"
    by (simp add: t_def two_models_def defaults_table_def effective_def field_value_def as_positive_def)
  moreover have "e_residency e = Resident"
    by (simp add: e(3) t_def effective_def field_value_def as_residency_def as_text_def
        residency_parse_def)
  moreover have "map_of (e_flags e) ''ngl'' = Some ''0''"
    by (simp add: e(4) t_def flag_value_def field_value_def as_text_def)
  ultimately show ?thesis using c e(1,2) by auto
qed

lemma parse_report:
  assumes "toml text = Inr tbl" and "map_of tbl ''models'' = Some (TTable models)"
    and "(i, TTable t) \<in> set models"
  obtains ps where "set (dr_problems (draft_of i (TTable t) (fst (defaults_of tbl)))) \<subseteq> set ps"
    and "dr_undeclared (draft_of i (TTable t) (fst (defaults_of tbl))) \<Longrightarrow> undeclared_problem i \<in> set ps"
    and "ps \<noteq> [] \<Longrightarrow> catalog_parse toml text = Inl ps"
proof -
  define df where "df = fst (defaults_of tbl)"
  define ds where "ds = model_drafts models df"
  define us where "us = map fst (filter (\<lambda>(i, d). dr_undeclared d) ds)"
  define ps where "ps = (snd (version_of tbl) @ snd (defaults_of tbl)
      @ concat (map (\<lambda>(i, d). dr_problems d) ds)) @ map undeclared_problem us"
  have mem: "(i, draft_of i (TTable t) df) \<in> set ds"
    using assms(3) by (force simp: ds_def model_drafts_def)
  show thesis
  proof (rule that [of ps])
    show "set (dr_problems (draft_of i (TTable t) (fst (defaults_of tbl)))) \<subseteq> set ps"
      using mem by (force simp: ps_def df_def)
    assume "dr_undeclared (draft_of i (TTable t) (fst (defaults_of tbl)))"
    then have "i \<in> set us" using mem by (force simp: us_def df_def)
    then show "undeclared_problem i \<in> set ps" by (simp add: ps_def)
  next
    assume "ps \<noteq> []"
    then show "catalog_parse toml text = Inl ps"
      by (simp add: catalog_parse_def drafts_of_def assms(1,2) entries_of_def table_at_def Let_def
          case_prod_beta ps_def us_def ds_def df_def)
  qed
qed

text \<open>C30: A catalog with a fault is refused, and the report names the fault with the entry and
  the field, whatever else is wrong with the file: a field the schema does not define, a value
  of the wrong kind, a location or a runtime name that is not allowed, a required field that
  neither the entry nor the defaults supply.\<close>

theorem report_names_every_fault:
  assumes "toml text = Inr tbl" and "map_of tbl ''models'' = Some (TTable models)"
    and "(i, TTable t) \<in> set models" and "faulty (defaults_table tbl) t f"
  shows "\<exists>ps. catalog_parse toml text = Inl ps \<and> names_field (entry_scope i) f ps"
proof -
  let ?d = "draft_of i (TTable t) (fst (defaults_of tbl))"
  have "names_field (entry_scope i) f (dr_problems ?d) \<or> (f = ''memory_estimate_mib'' \<and> dr_undeclared ?d)"
    by (rule draft_names_fault [OF assms(4)]) (simp_all add: defaults_fields Let_def)
  moreover obtain ps where ps: "set (dr_problems ?d) \<subseteq> set ps"
    "dr_undeclared ?d \<Longrightarrow> undeclared_problem i \<in> set ps" "ps \<noteq> [] \<Longrightarrow> catalog_parse toml text = Inl ps"
    using parse_report [of toml "text" tbl models i t] assms(1-3) by metis
  ultimately have named: "names_field (entry_scope i) f ps"
    unfolding names_field_def undeclared_problem_def by blast
  then have "ps \<noteq> []" by (auto simp: names_field_def)
  with named ps(3) show ?thesis by blast
qed

text \<open>A catalog whose one model misspells a field and declares no memory at all.\<close>

definition broken_models :: table where
  "broken_models =
     [(''models'', TTable [(''chat'', TTable [(''contextsize'', TInt 4096),
         (''memory_estimate_mib'', TInt 0), (''path'', TStr ''chat.gguf'')])]),
      (''version'', TInt 1)]"

theorem report_names_every_fault_witness:
  "\<exists>ps. catalog_parse (\<lambda>_. Inr broken_models) [] = Inl ps \<and>
     names_field (entry_scope ''chat'') ''contextsize'' ps"
proof (rule report_names_every_fault [OF refl])
  show "map_of broken_models ''models'' = Some (TTable [(''chat'', TTable [(''contextsize'', TInt 4096),
         (''memory_estimate_mib'', TInt 0), (''path'', TStr ''chat.gguf'')])])"
    by (simp add: broken_models_def)
  show "(''chat'', TTable [(''contextsize'', TInt 4096),
         (''memory_estimate_mib'', TInt 0), (''path'', TStr ''chat.gguf'')]) \<in>
      set [(''chat'', TTable [(''contextsize'', TInt 4096),
         (''memory_estimate_mib'', TInt 0), (''path'', TStr ''chat.gguf'')])]"
    by simp
  show "faulty (defaults_table broken_models) [(''contextsize'', TInt 4096),
         (''memory_estimate_mib'', TInt 0), (''path'', TStr ''chat.gguf'')] ''contextsize''"
    by (simp add: faulty_def ENTRY_FIELDS_def)
qed

text \<open>An estimate that is written but wrong is reported twice when the defaults supply
  none: once for what is wrong with it, and once more as a field that is missing.\<close>

lemma wrong_estimate_is_called_missing:
  assumes "toml text = Inr tbl" and "map_of tbl ''models'' = Some (TTable models)"
    and "(i, TTable t) \<in> set models" and "map_of t ''memory_estimate_mib'' = Some v"
    and "as_positive v = Inl complaint"
    and "field_value (defaults_table tbl) ''memory_estimate_mib'' as_positive = None"
  shows "\<exists>ps. catalog_parse toml text = Inl ps \<and>
    {problem (entry_scope i) ''memory_estimate_mib'' complaint,
     problem (entry_scope i) ''memory_estimate_mib'' ''is required, and no default supplies it''} \<subseteq> set ps"
proof -
  let ?d = "draft_of i (TTable t) (fst (defaults_of tbl))"
  obtain ps where ps: "set (dr_problems ?d) \<subseteq> set ps"
    "dr_undeclared ?d \<Longrightarrow> undeclared_problem i \<in> set ps" "ps \<noteq> [] \<Longrightarrow> catalog_parse toml text = Inl ps"
    using parse_report [of toml "text" tbl models i t] assms(1-3) by metis
  have "problem (entry_scope i) ''memory_estimate_mib'' complaint \<in> set (dr_problems ?d)"
    by (simp add: draft_problems Let_def optional_field_def assms(4,5))
  moreover have "dr_undeclared ?d"
    by (simp add: draft_undeclared effective_def field_value_def assms(4,5))
      (simp add: defaults_fields Let_def assms(6))
  ultimately have in_ps: "problem (entry_scope i) ''memory_estimate_mib'' complaint \<in> set ps"
      "undeclared_problem i \<in> set ps"
    using ps(1,2) by blast+
  then have "ps \<noteq> []" by auto
  with in_ps ps(3) show ?thesis by (auto simp: undeclared_problem_def)
qed

lemma wrong_estimate_is_called_missing_witness:
  "\<exists>ps. catalog_parse (\<lambda>_. Inr broken_models) [] = Inl ps \<and> 2 \<le> card (set ps)"
proof -
  let ?t = "[(''contextsize'', TInt 4096), (''memory_estimate_mib'', TInt 0), (''path'', TStr ''chat.gguf'')]"
  let ?c = "''must be greater than zero, but is '' @ dec_int 0"
  obtain ps where ps: "catalog_parse (\<lambda>_. Inr broken_models) [] = Inl ps"
    "{problem (entry_scope ''chat'') ''memory_estimate_mib'' ?c,
      problem (entry_scope ''chat'') ''memory_estimate_mib'' ''is required, and no default supplies it''}
       \<subseteq> set ps"
    using wrong_estimate_is_called_missing [of "\<lambda>_. Inr broken_models" "[]" broken_models
        "[(''chat'', TTable ?t)]" "''chat''" ?t "TInt 0" ?c]
    by (auto simp: broken_models_def as_positive_def defaults_table_def)
  have "card {problem (entry_scope ''chat'') ''memory_estimate_mib'' ?c,
      problem (entry_scope ''chat'') ''memory_estimate_mib'' ''is required, and no default supplies it''} = 2"
    by (simp add: problem_def)
  with card_mono [OF _ ps(2)] ps(1) show ?thesis by auto
qed

end
