(* ===== verification/Answer_Claims.thy ===== *)
theory Answer_Claims
  imports Accounts Head_Claims Slot_Claims Catalog_Claims
begin

text \<open>
  The properties of a whole request: what it may touch, that it gives back what it takes, what
  a reload does, and what a request that read the catalog before a reload does not see.
\<close>

section \<open>Only admitted requests act\<close>

lemma screenedD:
  assumes "screened cn ac = Inr (h, room, rest)"
  shows "\<exists>lines. head_read (cn_err cn) (cn_input cn) = (Inr lines, rest) \<and> head_parse lines = Inr h \<and>
    access_admits ac h = Inr () \<and> h_method h \<noteq> ''OPTIONS'' \<and> allows (h_endpoint h) (h_method h) \<and>
    \<not> h_chunked h \<and> (\<forall>v. h_length h \<noteq> Malformed v) \<and> h_room h = Inr room"
  using assms
  by (auto simp: screened_def framing_def split: prod.splits sum.splits if_splits length_header.splits)

lemma allowed_methods:
  assumes "allows e m" and "m \<noteq> ''OPTIONS''"
  shows "m \<in> {''GET'', ''POST'', ''HEAD''}" and "e = Reload \<Longrightarrow> m = ''POST''"
    and "case e of Dedicated i p \<Rightarrow> m \<noteq> ''HEAD'' | Generic p \<Rightarrow> m \<noteq> ''HEAD'' | Load \<Rightarrow> m = ''POST''
      | UnloadModel \<Rightarrow> m = ''POST'' | _ \<Rightarrow> True"
  using assms by (cases e; auto simp: allows_def)+

text \<open>The model a request names: in its path, or in a body of a declared and bounded length.\<close>

definition names_model :: "caller \<Rightarrow> head \<Rightarrow> input \<Rightarrow> string \<Rightarrow> bool" where
  "names_model cn h rest i =
     (case h_endpoint h of
        Dedicated j _ \<Rightarrow> j = i
      | _ \<Rightarrow> (\<exists>n bytes rest'. h_length h = Given n \<and> n \<le> 8 * 1024 * 1024 \<and>
          body_read (cn_err cn) (model_of (cn_json cn)) n rest = (Inr (bytes, i), rest')))"

lemma model_wanted_names:
  "model_wanted cn h rest = (before, Inr (i, buffered, rest')) \<Longrightarrow> names_model cn h rest i"
  by (auto simp: model_wanted_def names_model_def declared_body_def MAX_BODY_BYTES_def
      split: endpoint.splits length_header.splits if_splits sum.splits prod.splits)

lemma to_model_acts:
  assumes "to_model cn h room rest r = Some (r', out)" and "r' \<noteq> r \<or> oc_sent out \<noteq> None"
    and "cn_reading cn r = r" and "cl_between (cn_calling cn) r = r"
  shows "\<exists>i e. names_model cn h rest i \<and> catalog_entry (rt_catalog r) i = Some e"
proof -
  obtain before w where w: "model_wanted cn h rest = (before, w)" by fastforce
  obtain i buffered rest' where found: "w = Inr (i, buffered, rest')"
    using assms(1,2) w
    by (cases w) (auto simp: to_model_def turned_away_def split: option.splits)
  moreover have "catalog_entry (rt_catalog r) i \<noteq> None"
  proof
    assume "catalog_entry (rt_catalog r) i = None"
    with assms w found show False by (auto simp: to_model_def turned_away_def Let_def)
  qed
  ultimately show ?thesis using model_wanted_names w by blast
qed

text \<open>C4: Nothing acts on the router but an admitted request: if answering a connection changed
  anything, or sent a child anything, then its head was read within the bounds, the caller was
  let in, the method is one the endpoint takes, the framing and the room are ones the router
  knows, and it is a reload or it names a model of the catalog being served -- in its path, or
  in a JSON body of a declared length of at most 8 MiB.\<close>

theorem only_admitted_requests_act:
  assumes "answer_to cn r = Some (r', out)" and "r' \<noteq> r \<or> oc_sent out \<noteq> None"
    and "cn_reading cn r = r" and "cl_between (cn_calling cn) r = r"
  shows "\<exists>lines rest h room. head_read (cn_err cn) (cn_input cn) = (Inr lines, rest) \<and>
    head_parse lines = Inr h \<and> access_admits (rt_access r) h = Inr () \<and>
    h_method h \<in> {''GET'', ''POST''} \<and> allows (h_endpoint h) (h_method h) \<and>
    \<not> h_chunked h \<and> (\<forall>v. h_length h \<noteq> Malformed v) \<and> h_room h = Inr room \<and>
    ((h_endpoint h = Reload \<and> h_method h = ''POST'') \<or>
     (\<exists>i e. names_model cn h rest i \<and> catalog_entry (rt_catalog r) i = Some e))"
proof (cases "screened cn (rt_access r)")
  case (Inl rp)
  with assms(1,2) show ?thesis by (auto simp: answer_to_def told_def)
next
  case (Inr x)
  then obtain h room rest where s: "screened cn (rt_access r) = Inr (h, room, rest)" by (cases x) auto
  from screenedD [OF s] obtain lines where lines: "head_read (cn_err cn) (cn_input cn) = (Inr lines, rest)"
    "head_parse lines = Inr h" "access_admits (rt_access r) h = Inr ()" "h_method h \<noteq> ''OPTIONS''"
    "allows (h_endpoint h) (h_method h)" "\<not> h_chunked h" "\<forall>v. h_length h \<noteq> Malformed v"
    "h_room h = Inr room" by blast
  note methods = allowed_methods [OF lines(5,4)]
  show ?thesis
  proof (cases "h_endpoint h = Reload")
    case True
    with lines methods(2) show ?thesis by blast
  next
    case False
    have "to_model cn h room rest r = Some (r', out) \<and>
        (case h_endpoint h of Dedicated _ _ \<Rightarrow> True | Generic _ \<Rightarrow> True | Load \<Rightarrow> True | UnloadModel \<Rightarrow> True
         | _ \<Rightarrow> False)"
      using assms(1,2) s False
      by (auto simp: answer_to_def told_def Let_def split: endpoint.splits)
    then have "\<exists>i e. names_model cn h rest i \<and> catalog_entry (rt_catalog r) i = Some e"
        "h_method h \<in> {''GET'', ''POST''}"
      using to_model_acts [OF _ assms(2-4)] methods(1,3) by (auto split: endpoint.splits)
    with lines show ?thesis by blast
  qed
qed

text \<open>A caller that asks the loaded model of the small run, and the router it asks.\<close>

definition demo_router :: router where
  "demo_router =
     (router_new demo_catalog ''catalog.toml'' ''r'' (limits_new (budget_new (Some 10)) (IdleWindow None) (Wait 0)))
       \<lparr>rt_slots := demo_loaded\<rparr>"

definition demo_load :: loading where
  "demo_load = \<lparr>ld_race = (\<lambda>s. s), ld_server = Inl (NotReady []), ld_before = None, ld_after = None,
     ld_measured = UNKNOWN, ld_took = [], ld_now = 0\<rparr>"

definition demo_calling :: calling where
  "demo_calling = \<lparr>cl_between = (\<lambda>r. r), cl_now = 3, cl_race = (\<lambda>s. s), cl_admitted = 4, cl_turns = [],
     cl_loading = demo_load, cl_served = (\<lambda>c. c)\<rparr>"

definition demo_caller :: caller where
  "demo_caller =
     \<lparr>cn_input = \<lparr>i_bytes = lined [''GET /models/m/x HTTP/1.1''] @ crlf, i_end = Stalled\<rparr>,
      cn_err = (\<lambda>_. []), cn_json = \<lparr>js_print = (\<lambda>_. []), js_parse = Inl\<rparr>,
      cn_build = \<lparr>bd_version = [], bd_commit = []\<rparr>, cn_reading = (\<lambda>r. r), cn_toml = Inl,
      cn_catalog = Inl [], cn_race = (\<lambda>r. r), cn_meanwhile = (\<lambda>s. s), cn_files = (\<lambda>_. True, None),
      cn_calling = demo_calling, cn_proceed_ok = True, cn_endpoint = (\<lambda>_. ''127.0.0.1:9''),
      cn_upstream = TakesAll, cn_chunk = (\<lambda>_. 1), cn_response = [''ok''], cn_writes = [True],
      cn_relaying = (\<lambda>r. r), cn_ended = 5\<rparr>"

definition demo_head :: head where
  "demo_head =
     \<lparr>h_method = ''GET'', h_endpoint = Dedicated ''m'' ''/x'', h_headers = [], h_length = Absent,
      h_chunked = False, h_expects_continue = False, h_room = Inr Any\<rparr>"

lemma demo_read:
  "head_read (cn_err demo_caller) (cn_input demo_caller) =
     (Inr [''GET /models/m/x HTTP/1.1''], \<lparr>i_bytes = [], i_end = Stalled\<rparr>)"
  "head_parse [''GET /models/m/x HTTP/1.1''] = Inr demo_head"
proof -
  show "head_read (cn_err demo_caller) (cn_input demo_caller) =
      (Inr [''GET /models/m/x HTTP/1.1''], \<lparr>i_bytes = [], i_end = Stalled\<rparr>)"
    using head_reads_back [of "[''GET /models/m/x HTTP/1.1'']" "\<lambda>_. []" "[]" Stalled]
    by (simp add: demo_caller_def plain_line_def utf8_valid_ascii crlf_def MAX_HEAD_BYTES_def MAX_HEADERS_def)
  have "split_whitespace ''GET /models/m/x HTTP/1.1'' = [''GET'', ''/models/m/x'', ''HTTP/1.1'']"
    "endpoint_of ''/models/m/x'' = Inr (Dedicated ''m'' ''/x'')"
    by code_simp+
  then show "head_parse [''GET /models/m/x HTTP/1.1''] = Inr demo_head"
    by (simp add: head_parse_def demo_head_def)
qed

lemma demo_screened:
  assumes "ac0 = \<lparr>ac_key = None, ac_origins = None\<rparr>"
  shows "screened demo_caller ac0 = Inr (demo_head, Any, \<lparr>i_bytes = [], i_end = Stalled\<rparr>)"
proof -
  have "allows (Dedicated ''m'' ''/x'') ''GET''" by code_simp
  then show ?thesis
    by (simp add: screened_def demo_read assms demo_head_def access_admits_def admits_def admits_key_def
        framing_def)
qed

lemma demo_running:
  "running demo_entry 3 demo_loaded = (lease_new 7 (on_heap (arc_clone 7)
     (put_slot ''m'' (Some (demo_child\<lparr>s_last_used := 3\<rparr>)) demo_loaded)), Some 7)"
proof (cases "running demo_entry 3 demo_loaded")
  case (Pair s r)
  have live: "exited (heap_of demo_loaded) demo_child = None"
    using ok_exited [of demo_loaded "''m''" demo_child] reachable_steady [OF demo_reached]
    by (cases "exited (heap_of demo_loaded) demo_child") (auto simp: steady_def demo_child_def)
  from Pair show ?thesis
    by (cases rule: running_cases) (use live Pair in \<open>auto simp: demo_child_def\<close>)
qed

lemma demo_answered:
  "\<exists>r' out sent. answer_to demo_caller demo_router = Some (r', out) \<and> oc_sent out = Some (7, sent)"
proof -
  have "rt_access demo_router = \<lparr>ac_key = None, ac_origins = None\<rparr>"
    by (simp add: demo_router_def router_new_def limits_new_def)
  from demo_screened [OF this] obtain h rest where s: "screened demo_caller (rt_access demo_router) = Inr (h, Any, rest)"
    "h_endpoint h = Dedicated ''m'' ''/x''" "h_expects_continue h = False" "h_length h = Absent"
    by (simp add: demo_head_def)
  have "model_wanted demo_caller h rest = ([], Inr (''m'', None, rest))"
    using s by (simp add: model_wanted_def)
  moreover have "catalog_entry (rt_catalog demo_router) ''m'' = Some demo_entry"
    by (simp add: demo_router_def router_new_def demo_catalog_def catalog_entry_def)
  moreover have "shared_child (cn_files demo_caller) \<lparr>a_entry = demo_entry, a_room = Any\<rparr>
      (cn_calling demo_caller) demo_router =
      Some (demo_router\<lparr>rt_slots := fst (running demo_entry 3 demo_loaded)\<rparr>, Inr 7)"
    by (simp add: shared_child_def child_for_def demo_caller_def demo_calling_def demo_router_def
        router_new_def demo_running)
  moreover have "\<exists>sent r'. oc_sent (snd (answer_child demo_caller [] h None rest demo_entry 7 r)) = Some (7, sent)" for r
    using s by (simp add: answer_child_def relay_request_def up_write_def demo_caller_def split: prod.split)
  ultimately show ?thesis
    using s by (simp add: answer_to_def to_model_def Let_def demo_caller_def)
      (metis surjective_pairing)
qed

theorem only_admitted_requests_act_witness:
  "\<exists>lines rest h. head_read (cn_err demo_caller) (cn_input demo_caller) = (Inr lines, rest) \<and>
     head_parse lines = Inr h \<and> access_admits (rt_access demo_router) h = Inr ()"
proof -
  obtain r' out sent where "answer_to demo_caller demo_router = Some (r', out)" "oc_sent out = Some (7, sent)"
    using demo_answered by blast
  from only_admitted_requests_act [OF this(1)] this(2) show ?thesis
    by (simp add: demo_caller_def demo_calling_def) blast
qed

section \<open>What is taken is given back\<close>

lemma answer_balanced:
  assumes "answer_to cn r = Some (r', out)" and "slots_ok (rt_slots r)" and "quiet_caller cn r"
  shows "balanced (rt_slots r) (rt_slots r')"
proof (cases "screened cn (rt_access r)")
  case (Inl rp)
  with assms show ?thesis by (simp add: answer_to_def balanced_def)
next
  case (Inr x)
  then obtain h room rest where s: "screened cn (rt_access r) = Inr (h, room, rest)" by (cases x) auto
  show ?thesis
  proof (cases "h_endpoint h = Reload")
    case True
    have "quietly (rt_slots r) (rt_slots (fst (answer_reload cn r)))"
      using reload_quietly [OF assms(2), of "cn_race cn" "cn_meanwhile cn"] assms(3)
      by (auto simp: quiet_caller_def answer_reload_def split: prod.split sum.split)
        (metis fst_conv)+
    with True assms(1) s show ?thesis
      by (auto simp: answer_to_def Let_def intro: quietly_balanced)
  next
    case False
    with assms s have "r' = r \<or> to_model cn h room rest r = Some (r', out)"
      by (auto simp: answer_to_def Let_def split: endpoint.splits)
    with to_model_balanced [OF _ assms(2,3)] assms(2) show ?thesis by (auto simp: balanced_def)
  qed
qed

text \<open>C5: A request gives back what it takes: whatever is asked, however it ends -- refused,
  failed, its child lost or its answer relayed -- and whatever the other threads do to the slots
  at every point where the code lets them in, the request's own account is even once it is
  answered: each lease it took it gave back. So every child whose leases the others leave as
  many as they were at each such point has as many after the request as before it. If the others
  moreover change no lease, start no child and leave the number of the process it starts alone,
  and the slots were well formed, they still are, with the same leases.\<close>

theorem request_gives_back_what_it_took:
  assumes "answer_to cn r = Some (r', out)"
  shows "even_account (others_may cn) (rt_slots r) (rt_slots r') \<and>
    ((\<forall>t u. others_may cn t u \<longrightarrow> count (leases u) ch = count (leases t) ch) \<longrightarrow>
      count (leases (rt_slots r')) ch = count (leases (rt_slots r)) ch) \<and>
    (slots_ok (rt_slots r) \<and> quiet_caller cn r \<longrightarrow>
      slots_ok (rt_slots r') \<and> leases (rt_slots r') = leases (rt_slots r))"
  using account_answer [OF assms] account_counts [OF account_answer [OF assms], of ch]
    answer_balanced [OF assms]
  by (auto simp: balanced_def)

theorem request_gives_back_what_it_took_witness:
  "\<exists>r' out sent. answer_to demo_caller demo_router = Some (r', out) \<and> oc_sent out = Some (7, sent) \<and>
     leases (rt_slots r') = {#7#}"
proof -
  obtain r' out sent where a: "answer_to demo_caller demo_router = Some (r', out)" "oc_sent out = Some (7, sent)"
    using demo_answered by blast
  have slots: "rt_slots demo_router = demo_loaded" by (simp add: demo_router_def)
  have "slots_ok demo_loaded" using reachable_steady [OF demo_reached] by (simp add: steady_def)
  moreover have "quiet_caller demo_caller demo_router"
    by (simp add: quiet_caller_def quiet_calling_def fresh_load_def demo_caller_def demo_calling_def demo_load_def)
  ultimately have "leases (rt_slots r') = {#7#}"
    using request_gives_back_what_it_took [OF a(1)] slots by simp
  with a show ?thesis by blast
qed

section \<open>Reloading\<close>

text \<open>C14: A reload is all or nothing: a file that cannot be read or parsed leaves the router
  exactly as it was and says why; a usable one is served from then on, with a slot for each of
  its models, no running child moved or stopped, everyone waiting for room told to ask again,
  and the reply naming just the models gained, the ones lost, and the loaded ones whose
  definition changed under them.\<close>

theorem reload_is_all_or_nothing:
  "case reload_catalog toml src race meanwhile r of
     (r', Inl why) \<Rightarrow> r' = r \<and>
       ((\<exists>e. src = Inl e \<and> why = ''cannot read '' @ rt_source r @ '': '' @ e) \<or>
        (\<exists>contents ps. src = Inr contents \<and> catalog_parse toml contents = Inl ps \<and> why = report_text ps))
   | (r', Inr changed) \<Rightarrow>
       (\<exists>contents c. src = Inr contents \<and> catalog_parse toml contents = Inr c \<and> rt_catalog r' = c \<and>
          (let was = rt_catalog (race r); s = meanwhile (rt_slots (race r)) in
           (\<forall>i. held_in (rt_slots r') i = held_in s i) \<and>
           dom (by_id (rt_slots r')) = set (ids_of c) \<union> {i. held_in s i \<noteq> None} \<and>
           reloads (line (rt_slots r')) = reloads (line s) + 1 \<and>
           set (rl_added changed) = set (ids_of c) - set (ids_of was) \<and>
           set (rl_removed changed) = set (ids_of was) - set (ids_of c) \<and>
           set (rl_superseded changed) =
             {i \<in> set (ids_of was). held_in (rt_slots (race r)) i \<noteq> None \<and>
                catalog_entry c i \<noteq> catalog_entry was i}))"
proof -
  have slots_of: "dom (by_id (resync c s)) = set (ids_of c) \<union> {i. held_in s i \<noteq> None}" for c s
    by (auto simp: by_id_resync held_in_def dom_def split: option.splits)
  have loaded: "set (loaded_ids c s) = {i \<in> set (ids_of c). held_in s i \<noteq> None}" for c s
    by (force simp: loaded_ids_def snapshot_def List.map_filter_def image_iff)
  have changed: "superseded was c i \<longleftrightarrow> i \<in> set (ids_of was) \<and> catalog_entry c i \<noteq> catalog_entry was i"
    for was c i
    using catalog_entry_None [of was i]
    by (auto simp: superseded_def split: option.splits)
  show ?thesis
    by (auto simp: reload_catalog_def Let_def slots_of loaded changed split: sum.split)
qed

end
