(* ===== verification/Stub_Server.thy ===== *)
theory Stub_Server
  imports Head_Facts
begin

text \<open>
  The stand-in for the server that the repository's own tests supervise and relay
  (\<open>src/bin/stub_llama_server\<close>): what it reads of its command line (\<open>options.rs\<close>), how it runs
  (\<open>serve.rs\<close>) and what it answers a connection with (\<open>reply.rs\<close>). It is the other end of what
  the router writes -- the command line, the probe, the relayed request -- so \<open>Stub_Claims\<close> can
  say what of it arrives.
\<close>

section \<open>Options\<close>

record pacing =
  pc_first_byte_after :: duration
  pc_events :: nat
  pc_gap :: duration
  pc_die_after :: "nat option"
  pc_hangup_marker :: "string option"

record stub_options =
  so_host :: string
  so_port :: nat
  so_ready_after :: duration
  so_exit_after :: "duration option"
  so_exit_code :: nat
  so_alias :: string
  so_pacing :: pacing
  so_never_bind_marker :: "string option"
  so_never_bind :: bool

definition stub_defaults :: stub_options where
  "stub_defaults =
     \<lparr>so_host = ''127.0.0.1'', so_port = 0, so_ready_after = 0, so_exit_after = None,
      so_exit_code = 0, so_alias = [],
      so_pacing = \<lparr>pc_first_byte_after = 0, pc_events = 3, pc_gap = 0, pc_die_after = None,
        pc_hangup_marker = None\<rparr>,
      so_never_bind_marker = None, so_never_bind = False\<rparr>"

definition stub_number :: "nat \<Rightarrow> string \<Rightarrow> string \<Rightarrow> string + nat" where
  "stub_number bound val flag =
     (case parse_unsigned bound val of
        Some n \<Rightarrow> Inr n
      | None \<Rightarrow> Inl (flag @ '' takes a number, not '' @ quoted val))"

text \<open>What a flag the stub knows does with its value; a bare one is read in \<open>stub_parse\<close>.\<close>

definition stub_flag :: "string \<Rightarrow> (string \<Rightarrow> stub_options \<Rightarrow> string + stub_options) option" where
  "stub_flag flag =
     (let number = (\<lambda>bound val f. case stub_number bound val flag of
                      Inl e \<Rightarrow> Inl e | Inr n \<Rightarrow> Inr (f n));
          paced = (\<lambda>f s. s\<lparr>so_pacing := f (so_pacing s)\<rparr>) in
      if flag = ''--host'' then Some (\<lambda>v s. Inr (s\<lparr>so_host := v\<rparr>))
      else if flag = ''--port'' then Some (\<lambda>v s. number (2 ^ 16) v (\<lambda>n. s\<lparr>so_port := n\<rparr>))
      else if flag = ''--ready-after'' then
        Some (\<lambda>v s. number (2 ^ 64) v (\<lambda>n. s\<lparr>so_ready_after := millis n\<rparr>))
      else if flag = ''--exit-after'' then
        Some (\<lambda>v s. number (2 ^ 64) v (\<lambda>n. s\<lparr>so_exit_after := Some (millis n)\<rparr>))
      else if flag = ''--exit-code'' then Some (\<lambda>v s. number (2 ^ 8) v (\<lambda>n. s\<lparr>so_exit_code := n\<rparr>))
      else if flag = ''--alias'' then Some (\<lambda>v s. Inr (s\<lparr>so_alias := v\<rparr>))
      else if flag = ''--first-byte-after'' then
        Some (\<lambda>v s. number (2 ^ 64) v (\<lambda>n. paced (\<lambda>p. p\<lparr>pc_first_byte_after := millis n\<rparr>) s))
      else if flag = ''--stream-events'' then
        Some (\<lambda>v s. number (2 ^ 64) v (\<lambda>n. paced (\<lambda>p. p\<lparr>pc_events := n\<rparr>) s))
      else if flag = ''--stream-gap'' then
        Some (\<lambda>v s. number (2 ^ 64) v (\<lambda>n. paced (\<lambda>p. p\<lparr>pc_gap := millis n\<rparr>) s))
      else if flag = ''--die-after-events'' then
        Some (\<lambda>v s. number (2 ^ 64) v (\<lambda>n. paced (\<lambda>p. p\<lparr>pc_die_after := Some n\<rparr>) s))
      else if flag = ''--hangup-marker'' then
        Some (\<lambda>v s. Inr (paced (\<lambda>p. p\<lparr>pc_hangup_marker := Some v\<rparr>) s))
      else if flag = ''--never-bind-marker'' then
        Some (\<lambda>v s. Inr (s\<lparr>so_never_bind_marker := Some v\<rparr>))
      else None)"

fun stub_parse :: "stub_options \<Rightarrow> string list \<Rightarrow> string + stub_options" where
  "stub_parse s [] = Inr s"
| "stub_parse s (a # rest) =
     (if a = ''--never-bind'' then stub_parse (s\<lparr>so_never_bind := True\<rparr>) rest
      else
        (case stub_flag a of
           None \<Rightarrow> stub_parse s rest
         | Some f \<Rightarrow>
             (case rest of
                [] \<Rightarrow> Inl (a @ '' needs a value'')
              | v # rest' \<Rightarrow> (case f v s of Inl e \<Rightarrow> Inl e | Inr s' \<Rightarrow> stub_parse s' rest'))))"

definition stub_parsed :: "string list \<Rightarrow> string + stub_options" where
  "stub_parsed args = stub_parse stub_defaults args"

section \<open>A run\<close>

text \<open>
  How a run ends: by failing before it serves, never, or with a code once its time is over. The
  marker file may be there or not and be written or not; \<open>bound\<close> is what binding comes to.
\<close>

datatype stub_end = FailsAtOnce | ServesOn | ExitsAfter duration nat

record stub_ran =
  sr_end :: stub_end
  sr_complaints :: "string list"
  sr_leaves_marker :: bool

definition stub_run ::
    "stub_options \<Rightarrow> bool \<Rightarrow> string + unit \<Rightarrow> string + unit \<Rightarrow> stub_ran" where
  "stub_run s marker_there written bound =
     (let fails = (\<lambda>complaints leaves. \<lparr>sr_end = FailsAtOnce, sr_complaints = complaints,
                     sr_leaves_marker = leaves\<rparr>);
          serving =
            (case bound of
               Inl e \<Rightarrow> fails [''stub-llama-server: cannot bind '' @ so_host s @ '':''
                   @ dec (so_port s) @ '': '' @ e] marker_there
             | Inr _ \<Rightarrow>
                 (case so_exit_after s of
                    None \<Rightarrow> \<lparr>sr_end = ServesOn, sr_complaints = [], sr_leaves_marker = marker_there\<rparr>
                  | Some after \<Rightarrow>
                      \<lparr>sr_end = ExitsAfter after (so_exit_code s),
                       sr_complaints = [''stub-llama-server: exiting with code ''
                         @ dec (so_exit_code s) @ '' after '' @ dec (after div 1000000)
                         @ '' ms, as asked''],
                       sr_leaves_marker = marker_there\<rparr>)) in
      case so_never_bind_marker s of
        Some _ \<Rightarrow>
          if marker_there then serving
          else (case written of
                  Inl e \<Rightarrow> fails [''stub-llama-server: cannot write never-bind marker: '' @ e] False
                | Inr _ \<Rightarrow> fails [] True)
      | None \<Rightarrow> if so_never_bind s then fails [] marker_there else serving)"

text \<open>Whether a connection that comes this long after the start finds the stub ready.\<close>

definition stub_ready :: "stub_options \<Rightarrow> duration \<Rightarrow> bool" where
  "stub_ready s elapsed = (so_ready_after s \<le> elapsed)"

section \<open>Reading a request\<close>

definition HEAD_LIMIT :: nat where "HEAD_LIMIT = 64 * 1024"

function stub_head_loop ::
    "string list \<Rightarrow> nat \<Rightarrow> input \<Rightarrow> (read_error + string list) \<times> input" where
  "stub_head_loop lines seen inp =
     (case read_line (Suc (length (i_bytes inp))) inp of
        (Inl e, rest) \<Rightarrow> (Inl e, rest)
      | (Inr got, rest) \<Rightarrow>
          (if got = [] then (Inr lines, rest)
           else if HEAD_LIMIT < seen + length got then
             (Inl (OtherError ''request head is too large''), rest)
           else
             (let trimmed = drop_line_end got in
              if trimmed = [] then (Inr lines, rest)
              else stub_head_loop (lines @ [trimmed]) (seen + length got) rest)))"
  by pat_completeness auto
termination
  by (relation "measure (\<lambda>(lines, seen, inp). length (i_bytes inp))")
    (auto dest!: read_line_Inr(1) [OF sym])

declare stub_head_loop.simps [simp del]

definition stub_read_head :: "input \<Rightarrow> (read_error + string list) \<times> input" where
  "stub_read_head inp = stub_head_loop [] 0 inp"

definition stub_content_length :: "string list \<Rightarrow> nat" where
  "stub_content_length lines =
     (case find (\<lambda>(n, v). eq_ignore_case (trim n) ''content-length'')
             (List.map_filter (split_once (CHR '':'')) lines) of
        None \<Rightarrow> 0
      | Some (n, v) \<Rightarrow> (case parse_unsigned (2 ^ 64) (trim v) of None \<Rightarrow> 0 | Some k \<Rightarrow> k))"

definition stub_read_request ::
    "input \<Rightarrow> (read_error + string list \<times> string) \<times> input" where
  "stub_read_request inp =
     (case stub_read_head inp of
        (Inl e, rest) \<Rightarrow> (Inl e, rest)
      | (Inr lines, rest) \<Rightarrow>
          (let n = stub_content_length lines in
           if n = 0 then (Inr (lines, []), rest)
           else (case take_exact n rest of
                   (Inl e, rest') \<Rightarrow> (Inl e, rest')
                 | (Inr body, rest') \<Rightarrow> (Inr (lines, body), rest'))))"

section \<open>Answering it\<close>

definition stub_complete :: "string \<Rightarrow> string \<Rightarrow> string \<Rightarrow> string" where
  "stub_complete status content body =
     ''HTTP/1.1 '' @ status @ crlf @ ''Content-Type: '' @ content @ crlf
     @ ''Content-Length: '' @ dec (length body) @ crlf @ ''Connection: close'' @ crlf @ crlf @ body"

definition dquote :: string where "dquote = [CHR 0x22]"

definition stub_health :: "bool \<Rightarrow> string" where
  "stub_health ready =
     (let said = (\<lambda>word. ''{'' @ dquote @ ''status'' @ dquote @ '':'' @ dquote @ word @ dquote @ ''}'') in
      if ready then stub_complete ''200 OK'' ''application/json'' (said ''ok'')
      else stub_complete ''503 Service Unavailable'' ''application/json'' (said ''loading''))"

definition stub_stream_head :: string where
  "stub_stream_head =
     ''HTTP/1.1 200 OK'' @ crlf @ ''Content-Type: text/event-stream'' @ crlf
     @ ''Connection: close'' @ crlf @ crlf"

definition stub_event :: "nat \<Rightarrow> string" where
  "stub_event index =
     ''data: {'' @ dquote @ ''n'' @ dquote @ '':'' @ dec index @ ''}'' @ [CHR 0x0A, CHR 0x0A]"

text \<open>
  The events still to come: what was written, and whether a write failed. \<open>oks\<close> is the fate of
  each write from here on; a write not told of goes through.
\<close>

function stub_events :: "nat \<Rightarrow> pacing \<Rightarrow> bool list \<Rightarrow> string list \<times> bool" where
  "stub_events index p oks =
     (if pc_events p \<le> index then ([], False)
      else if oks \<noteq> [] \<and> \<not> hd oks then ([], True)
      else if (case pc_die_after p of None \<Rightarrow> False | Some limit \<Rightarrow> limit \<le> index + 1)
      then ([stub_event index], False)
      else (case stub_events (index + 1) p (tl oks) of (ws, hung) \<Rightarrow> (stub_event index # ws, hung)))"
  by pat_completeness auto
termination
  by (relation "measure (\<lambda>(index, p, oks). pc_events p - index)") auto

declare stub_events.simps [simp del]

text \<open>
  The silence before a stream: looks at the connection every so often, each finding that the
  client closed its end or not. The answer is whether the client stayed.
\<close>

definition LOOK_AGAIN :: duration where "LOOK_AGAIN = millis 50"

function silent_for :: "duration \<Rightarrow> bool list \<Rightarrow> bool" where
  "silent_for left looks =
     (if left = 0 then True
      else if looks \<noteq> [] \<and> hd looks then False
      else silent_for (left - min left LOOK_AGAIN) (tl looks))"
  by pat_completeness auto
termination
  by (relation "measure fst") (auto simp: LOOK_AGAIN_def millis_def)

declare silent_for.simps [simp del]

text \<open>What is written, and whether the client's leaving is recorded.\<close>

definition stub_stream :: "pacing \<Rightarrow> bool list \<Rightarrow> bool list \<Rightarrow> string list \<times> bool" where
  "stub_stream p looks oks =
     (if \<not> silent_for (pc_first_byte_after p) looks then ([], pc_hangup_marker p \<noteq> None)
      else if oks \<noteq> [] \<and> \<not> hd oks then ([], False)
      else (case stub_events 0 p (tl oks) of
              (ws, hung) \<Rightarrow> (stub_stream_head # ws, hung \<and> pc_hangup_marker p \<noteq> None)))"

definition stub_echo :: "string list \<Rightarrow> string \<Rightarrow> string \<Rightarrow> string" where
  "stub_echo lines name body =
     join [CHR 0x0A] lines @ [CHR 0x0A] @ ''alias: '' @ name @ [CHR 0x0A]
     @ ''body: '' @ utf8_lossy body"

definition stub_answer ::
    "bool \<Rightarrow> pacing \<Rightarrow> string \<Rightarrow> bool list \<Rightarrow> bool list \<Rightarrow> input \<Rightarrow> (string list \<times> bool) option" where
  "stub_answer ready p name looks oks inp =
     (case stub_read_request inp of
        (Inl e, _) \<Rightarrow> None
      | (Inr (lines, body), _) \<Rightarrow>
          (let first = (case lines of [] \<Rightarrow> [] | l # _ \<Rightarrow> l);
               path = (case split_whitespace first of _ # w # _ \<Rightarrow> w | _ \<Rightarrow> []) in
           if starts_with ''GET /health '' first then Some ([stub_health ready], False)
           else if ends_with ''/v1/chat/completions'' path then Some (stub_stream p looks oks)
           else if ends_with ''/v1/echo'' path then
             Some ([stub_complete ''200 OK'' ''text/plain'' (stub_echo lines name body)], False)
           else Some ([stub_complete ''404 Not Found'' ''application/json''
             (''{'' @ dquote @ ''error'' @ dquote @ '':'' @ dquote @ ''not found'' @ dquote @ ''}'')], False)))"

end
