(* ===== verification/Stub_Facts.thy ===== *)
theory Stub_Facts
  imports Stub_Server Head_Claims
begin

text \<open>
  What the stub reads of what the router writes: that text stays UTF-8 wherever the router cuts
  it, so every line of a rewritten head is a line the child can read.
\<close>

section \<open>Cutting text where a character ends\<close>

text \<open>A character is a byte and the bytes that continue it, whatever comes after.\<close>

lemma utf8_first:
  assumes "utf8_valid (a # s)"
  obtains u v where "s = u @ v" and "list_all continues u" and "utf8_valid v"
    and "\<And>w. utf8_valid w \<Longrightarrow> utf8_valid (a # u @ w)"
proof -
  let ?n = "of_char a :: nat"
  consider (one) "?n < 128"
    | (two) b v where "0xC2 \<le> ?n" "?n \<le> 0xDF" "s = [b] @ v" "continues b"
    | (three) b c v where "0xE0 \<le> ?n" "?n \<le> 0xEF" "s = [b, c] @ v" "second_ok ?n b" "continues c"
    | (four) b c d v where "0xF0 \<le> ?n" "?n \<le> 0xF4" "s = [b, c, d] @ v" "second_ok ?n b" "continues c" "continues d"
    using assms by (auto simp: utf8_valid.simps(2) [of a s] Let_def split: list.splits if_splits)
  then show thesis
  proof cases
    case one
    with assms that [of "[]" s] show thesis by (simp add: utf8_valid.simps(2))
  next
    case two
    with assms that [of "[b]" v] show thesis by (simp add: utf8_valid.simps(2))
  next
    case three
    with assms that [of "[b, c]" v] show thesis by (simp add: utf8_valid.simps(2) second_ok_def)
  next
    case four
    with assms that [of "[b, c, d]" v] show thesis by (simp add: utf8_valid.simps(2) second_ok_def)
  qed
qed

lemma utf8_valid_cut:
  assumes "utf8_valid (s @ t)" and "t = [] \<or> \<not> continues (hd t)"
  shows "utf8_valid s"
  using assms(1)
proof (induction "length s" arbitrary: s rule: less_induct)
  case less
  show ?case
  proof (cases s)
    case Nil
    then show ?thesis by simp
  next
    case (Cons a s')
    with less.prems have "utf8_valid (a # s' @ t)" by simp
    then obtain u v where uv: "s' @ t = u @ v" "list_all continues u" "utf8_valid v"
        "\<And>w. utf8_valid w \<Longrightarrow> utf8_valid (a # u @ w)"
      by (rule utf8_first) blast
    from uv(1) obtain y where "s' = u @ y \<and> y @ t = v \<or> s' @ y = u \<and> t = y @ v"
      unfolding append_eq_append_conv2 by blast
    then consider x where "s' = u @ x" "v = x @ t" | "y \<noteq> []" "u = s' @ y" "t = y @ v"
      by (cases "y = []") auto
    then show ?thesis
    proof cases
      case 1
      then have "length x < length s" "utf8_valid (x @ t)" using uv(3) Cons by simp_all
      then have "utf8_valid x" by (rule less.hyps)
      then show ?thesis using uv(4) [of x] 1(1) Cons by simp
    next
      case 2
      then have "continues (hd t)" "t \<noteq> []" using uv(2) by (cases y; simp)+
      with assms(2) show ?thesis by simp
    qed
  qed
qed

lemma utf8_valid_rest: "utf8_valid (s @ t) \<Longrightarrow> utf8_valid s \<Longrightarrow> utf8_valid t"
proof (induction s rule: utf8_valid.induct)
  case 1
  then show ?case by simp
next
  case (2 a s)
  then show ?case
    by (auto simp: utf8_valid.simps(2) [of a s] utf8_valid.simps(2) [of a "s @ t"] Let_def
        split: list.splits if_splits)
qed

lemma white_text: "w \<in> set white_chars \<Longrightarrow> utf8_valid w \<and> w \<noteq> [] \<and> \<not> continues (hd w)"
proof -
  have "list_all (\<lambda>w. utf8_valid w \<and> w \<noteq> [] \<and> \<not> continues (hd w)) white_chars" by code_simp
  then show "w \<in> set white_chars \<Longrightarrow> utf8_valid w \<and> w \<noteq> [] \<and> \<not> continues (hd w)"
    by (auto simp: list_all_iff)
qed

lemma lead_some:
  "lead ws s \<noteq> 0 \<Longrightarrow> \<exists>w \<in> set ws. s = w @ drop (lead ws s) s \<and> length w = lead ws s"
proof (induction ws)
  case Nil
  then show ?case by simp
next
  case (Cons w ws)
  show ?case
  proof (cases "take (length w) s = w")
    case True
    have "s = take (length w) s @ drop (length w) s" by simp
    then have "s = w @ drop (length w) s" unfolding True .
    then show ?thesis using True by (intro bexI [of _ w]) simp_all
  next
    case False
    then have same: "lead (w # ws) s = lead ws s" by simp
    then have "\<exists>v \<in> set ws. s = v @ drop (lead ws s) s \<and> length v = lead ws s"
      using Cons by simp
    then show ?thesis unfolding same by (meson list.set_intros(2))
  qed
qed

lemma leadE:
  assumes "lead ws s \<noteq> 0"
  obtains w where "w \<in> set ws" and "s = w @ drop (lead ws s) s" and "length w = lead ws s"
  using lead_some [OF assms] by blast

lemma utf8_drop_lead: "utf8_valid s \<Longrightarrow> utf8_valid (drop_lead white_chars s)"
proof (induction white_chars s rule: drop_lead.induct)
  case (1 s)
  show ?case
  proof (cases "lead white_chars s = 0 \<or> s = []")
    case True
    with 1 show ?thesis by (simp add: drop_lead.simps [of white_chars s])
  next
    case False
    then have "lead white_chars s \<noteq> 0" by simp
    then obtain w where "w \<in> set white_chars" "s = w @ drop (lead white_chars s) s" by (rule leadE)
    with 1(2) have "utf8_valid (drop (lead white_chars s) s)"
      using white_text utf8_valid_rest by metis
    with False 1(1) show ?thesis by (simp add: drop_lead.simps [of white_chars s])
  qed
qed

lemma utf8_drop_lead_rev: "utf8_valid (rev s) \<Longrightarrow> utf8_valid (rev (drop_lead white_rev s))"
proof (induction white_rev s rule: drop_lead.induct)
  case (1 s)
  show ?case
  proof (cases "lead white_rev s = 0 \<or> s = []")
    case True
    with 1 show ?thesis by (simp add: drop_lead.simps [of white_rev s])
  next
    case False
    then have "lead white_rev s \<noteq> 0" by simp
    then obtain w where w: "w \<in> set white_rev" "s = w @ drop (lead white_rev s) s" by (rule leadE)
    then have "rev w \<in> set white_chars" by (auto simp: white_rev_def)
    then have "\<not> continues (hd (rev w))" using white_text by blast
    moreover have "utf8_valid (rev (drop (lead white_rev s) s) @ rev w)"
      using 1(2) w(2) by (metis rev_append)
    ultimately have "utf8_valid (rev (drop (lead white_rev s) s))" by (blast intro: utf8_valid_cut)
    with False 1(1) show ?thesis by (simp add: drop_lead.simps [of white_rev s])
  qed
qed

lemma utf8_trim: "utf8_valid s \<Longrightarrow> utf8_valid (trim s)"
  using utf8_drop_lead [of s] utf8_drop_lead_rev [of "rev (trim_start s)"]
  by (simp add: trim_def trim_start_def trim_end_def)

text \<open>What is trimmed is trimmed.\<close>

lemma lead_prefix:
  "w \<in> set ws \<Longrightarrow> w \<noteq> [] \<Longrightarrow> take (length w) s = w \<Longrightarrow> [] \<notin> set ws \<Longrightarrow> lead ws s \<noteq> 0"
  by (induction ws) auto

lemma drop_lead_suffix: "\<exists>r. s = r @ drop_lead ws s"
proof (induction ws s rule: drop_lead.induct)
  case (1 ws s)
  show ?case
  proof (cases "lead ws s = 0 \<or> s = []")
    case True
    then show ?thesis by (simp add: drop_lead.simps [of ws s])
  next
    case False
    then obtain r where "drop (lead ws s) s = r @ drop_lead ws (drop (lead ws s) s)" using 1 by blast
    moreover have "drop_lead ws s = drop_lead ws (drop (lead ws s) s)"
      using False by (simp add: drop_lead.simps [of ws s])
    ultimately have "s = (take (lead ws s) s @ r) @ drop_lead ws s"
      by (metis append_assoc append_take_drop_id)
    then show ?thesis by (rule exI)
  qed
qed

lemma trim_start_end:
  assumes "lead white_chars u = 0 \<or> u = []"
  shows "trim_start (trim_end u) = trim_end u"
proof -
  obtain q where "rev u = q @ drop_lead white_rev (rev u)" using drop_lead_suffix by blast
  then have r: "u = trim_end u @ rev q" unfolding trim_end_def by (metis rev_append rev_rev_ident)
  have "lead white_chars (trim_end u) = 0"
  proof (rule ccontr)
    assume "lead white_chars (trim_end u) \<noteq> 0"
    then obtain w where w: "w \<in> set white_chars" "trim_end u = w @ drop (length w) (trim_end u)"
      using lead_some by metis
    then have "take (length w) u = w" "w \<noteq> []" using r white_text by (metis append_assoc append_eq_conv_conj, blast)
    with w(1) white_text have "lead white_chars u \<noteq> 0" by (intro lead_prefix [of w]) blast+
    with assms \<open>take (length w) u = w\<close> \<open>w \<noteq> []\<close> show False by auto
  qed
  then show ?thesis by (simp add: trim_start_def drop_lead_stop)
qed

lemma trim_trim: "trim (trim s) = trim s"
proof -
  let ?u = "trim_start s"
  have u: "lead white_chars ?u = 0 \<or> ?u = []"
    unfolding trim_start_def using drop_lead_settled by blast
  have "trim_end (trim_end ?u) = trim_end ?u" by (simp add: trim_end_def drop_lead_idem)
  then show ?thesis unfolding trim_def by (simp only: trim_start_end [OF u])
qed

lemma utf8_words_from:
  "utf8_valid (rev acc @ drop skip s) \<Longrightarrow> 0 < skip \<longrightarrow> acc = [] \<Longrightarrow> w \<in> set (words_from skip acc s) \<Longrightarrow>
     utf8_valid w"
proof (induction skip acc s rule: words_from.induct)
  case (3 acc x xs)
  let ?l = "lead white_chars (x # xs)"
  show ?case
  proof (cases "?l = 0")
    case True
    with 3 show ?thesis by simp
  next
    case False
    then obtain c where c: "c \<in> set white_chars" "x # xs = c @ drop ?l (x # xs)" by (rule leadE)
    have valid: "utf8_valid (rev acc @ c @ drop ?l (x # xs))" using 3(3) c(2) by simp
    have "c \<noteq> []" "\<not> continues (hd c)" "utf8_valid c" using white_text c(1) by auto
    then have acc: "utf8_valid (rev acc)" using valid by (intro utf8_valid_cut [OF valid]) simp
    then have after: "utf8_valid (drop ?l (x # xs))"
      using utf8_valid_rest [OF valid] utf8_valid_rest [of c] \<open>utf8_valid c\<close> by blast
    have "drop ?l (x # xs) = drop (?l - 1) xs" using False by (cases ?l) simp_all
    then have "w \<in> set (words_from (?l - 1) [] xs) \<Longrightarrow> utf8_valid w"
      using 3(2) [OF refl False] after by simp
    with acc 3(5) False show ?thesis by (auto simp: Let_def split: if_splits)
  qed
qed (auto split: if_splits)

lemma utf8_words: "utf8_valid s \<Longrightarrow> w \<in> set (split_whitespace s) \<Longrightarrow> utf8_valid w"
  using utf8_words_from [of "[]" 0 s w] by (simp add: split_whitespace_def)

lemma utf8_valid_Cons: "(of_char c :: nat) < 128 \<Longrightarrow> utf8_valid (c # s) = utf8_valid s"
  by (simp add: utf8_valid.simps(2))

lemma ascii_not_continues: "(of_char c :: nat) < 128 \<Longrightarrow> \<not> continues c"
  by (simp add: continues_def)

lemma utf8_around:
  assumes "utf8_valid (a @ c # b)" and "(of_char c :: nat) < 128"
  shows "utf8_valid a" and "utf8_valid b"
proof -
  show a: "utf8_valid a"
    using utf8_valid_cut [OF assms(1)] assms(2) by (simp add: ascii_not_continues)
  have "utf8_valid (c # b)" by (rule utf8_valid_rest [OF assms(1) a])
  with assms(2) show "utf8_valid b" by (simp add: utf8_valid.simps(2))
qed

lemma utf8_drop_line_end: "utf8_valid s \<Longrightarrow> utf8_valid (drop_line_end s)"
proof -
  assume v: "utf8_valid s"
  let ?p = "\<lambda>c. c = CR \<or> c = LF"
  have s: "s = drop_line_end s @ rev (takeWhile ?p (rev s))"
    unfolding drop_line_end_def by (metis rev_append rev_rev_ident takeWhile_dropWhile_id)
  have "t = [] \<or> \<not> continues (hd t)" if "set t \<subseteq> {CR, LF}" for t
    using that by (cases t) (auto simp: continues_def)
  moreover have "set (rev (takeWhile ?p (rev s))) \<subseteq> {CR, LF}" by (auto dest: set_takeWhileD)
  moreover have "utf8_valid (drop_line_end s @ rev (takeWhile ?p (rev s)))"
    using v by (simp only: s [symmetric])
  ultimately show "utf8_valid (drop_line_end s)" by (blast intro: utf8_valid_cut)
qed

end
