(* ===== verification/Stub_Claims.thy ===== *)
theory Stub_Claims
  imports Stub_Facts Launch_Facts
begin

text \<open>
  What of the router's writing arrives at a child: the command line it is started with, the probe
  it is asked with, and the request relayed to it, each read back by the stub.
\<close>

section \<open>The command line\<close>

lemma stub_parse_append:
  "stub_parse s as = Inr s' \<Longrightarrow> stub_parse s (as @ bs) = stub_parse s' bs"
proof (induction s as rule: stub_parse.induct)
  case (1 s)
  then show ?case by simp
next
  case (2 s a rest)
  show ?case
  proof (cases "a = ''--never-bind''")
    case True
    with 2(1,4) show ?thesis by simp
  next
    case bare: False
    show ?thesis
    proof (cases "stub_flag a")
      case None
      with bare 2(2,4) show ?thesis by simp
    next
      case (Some f)
      with bare 2(4) obtain v rest' where rest: "rest = v # rest'" by (cases rest) simp_all
      with bare Some 2(4) obtain s1 where s1: "f v s = Inr s1" "stub_parse s1 rest' = Inr s'"
        by (simp split: sum.splits)
      with 2(3) [OF bare Some rest s1] bare Some rest show ?thesis by simp
    qed
  qed
qed

lemma stub_parse_address:
  "stub_parse s [''--alias'', i, ''--host'', h, ''--port'', dec (unat (port :: u16))] =
     Inr (s\<lparr>so_alias := i, so_host := h, so_port := unat port\<rparr>)"
proof -
  have "unat port < 2 ^ 16" using unsigned_less [of port] by simp
  then have "stub_number (2 ^ 16) (dec (unat port)) ''--port'' = Inr (unat port)"
    using parse_dec [of "unat port" "2 ^ 16"] by (simp only: stub_number_def option.case)
  then show ?thesis by (cases s) (simp add: stub_flag_def Let_def)
qed

text \<open>What an entry's own settings put on the command line.\<close>

definition own_arguments :: "entry \<Rightarrow> string \<Rightarrow> string list" where
  "own_arguments e root = take (length (invocation_of e root 0) - 6) (invocation_of e root 0)"

lemma invocation_split:
  "invocation_of e root port =
     own_arguments e root @ [''--alias'', e_id e, ''--host'', ''127.0.0.1'', ''--port'', dec (unat port)]"
proof -
  have "\<exists>own. \<forall>port. invocation_of e root port =
      own @ [''--alias'', e_id e, ''--host'', ''127.0.0.1'', ''--port'', dec (unat port)]"
    unfolding invocation_of_def by (intro exI allI) (simp only: append_assoc [symmetric])
  then obtain own where "\<And>port. invocation_of e root port =
      own @ [''--alias'', e_id e, ''--host'', ''127.0.0.1'', ''--port'', dec (unat port)]"
    by blast
  then show ?thesis by (simp add: own_arguments_def)
qed

text \<open>C40: Whatever an entry's settings and flags put before it on the command line, a child that can
  read them serves on the loopback port the router probes and relays to, under the entry's
  own name.\<close>

theorem child_serves_where_it_is_probed:
  assumes "stub_parsed (own_arguments e root) = Inr s"
  shows "stub_parsed (invocation_of e root port) =
    Inr (s\<lparr>so_alias := e_id e, so_host := ''127.0.0.1'', so_port := unat port\<rparr>)"
  using assms unfolding stub_parsed_def invocation_split
  by (simp only: stub_parse_append stub_parse_address)

theorem child_serves_where_it_is_probed_witness:
  "\<exists>s. stub_parsed (invocation_of (plain_entry ''m'' 5 OnDemand) ''r'' 8080) = Inr s \<and>
     so_port s = 8080 \<and> so_alias s = ''m''"
proof -
  have "own_arguments (plain_entry ''m'' 5 OnDemand) ''r'' = [''--model'', ''r/m.gguf'', ''--ctx-size'', dec 4096]"
    by (simp add: own_arguments_def invocation_of_def plain_entry_def push_opt_def resolve_def
        path_join_def starts_with_def)
  moreover have "stub_flag (dec 4096) = None" "dec 4096 \<noteq> ''--never-bind''"
    using hd_dec_digit [of 4096] by (auto simp: stub_flag_def is_digit_def)
  ultimately have "stub_parsed (own_arguments (plain_entry ''m'' 5 OnDemand) ''r'') = Inr stub_defaults"
    by (simp add: stub_parsed_def) (simp add: stub_flag_def)
  from child_serves_where_it_is_probed [OF this, of 8080] show ?thesis by (simp add: plain_entry_def)
qed

section \<open>The probe\<close>

lemma read_line_whole:
  assumes "LF \<notin> set l" and "utf8_valid l"
  shows "read_line (Suc (length (l @ crlf @ s))) \<lparr>i_bytes = l @ crlf @ s, i_end = e\<rparr> =
    (Inr (l @ crlf), \<lparr>i_bytes = s, i_end = e\<rparr>)"
  using assms by (intro read_line_crlf) (simp_all add: crlf_def)

lemma stub_head_lines:
  assumes "list_all plain_line ls" and "length (lined ls @ crlf) + seen \<le> HEAD_LIMIT"
  shows "stub_head_loop before seen \<lparr>i_bytes = lined ls @ crlf @ body, i_end = e\<rparr> =
    (Inr (before @ ls), \<lparr>i_bytes = body, i_end = e\<rparr>)"
  using assms
proof (induction ls arbitrary: before seen)
  case Nil
  have "drop_line_end crlf = []" by (simp add: drop_line_end_Nil crlf_def)
  then show ?case
    using read_line_whole [of "[]" body e] Nil.prems(2)
    by (simp add: stub_head_loop.simps [of before seen] crlf_def)
next
  case (Cons l ls)
  have l: "l \<noteq> []" "LF \<notin> set l" "last l \<noteq> CR" "utf8_valid l"
    using Cons.prems(1) by (simp_all add: plain_line_def)
  have "last l \<noteq> LF" using l(1,2) last_in_set by metis
  with l have dropped: "drop_line_end (l @ crlf) = l" by simp
  have "read_line (Suc (length (l @ crlf @ lined ls @ crlf @ body)))
      \<lparr>i_bytes = l @ crlf @ lined ls @ crlf @ body, i_end = e\<rparr> =
      (Inr (l @ crlf), \<lparr>i_bytes = lined ls @ crlf @ body, i_end = e\<rparr>)"
    using l by (intro read_line_whole)
  moreover have "stub_head_loop (before @ [l]) (seen + length (l @ crlf))
      \<lparr>i_bytes = lined ls @ crlf @ body, i_end = e\<rparr> = (Inr ((before @ [l]) @ ls), \<lparr>i_bytes = body, i_end = e\<rparr>)"
    using Cons.prems by (intro Cons.IH) simp_all
  ultimately show ?case using Cons.prems(2) dropped l(1)
    by (simp add: stub_head_loop.simps [of before seen] crlf_def)
qed

definition probe_lines :: "string list" where
  "probe_lines = [''GET /health HTTP/1.1'', ''Host: localhost'', ''Connection: close'']"

lemma probe_read:
  "stub_read_request \<lparr>i_bytes = HEALTH_REQUEST, i_end = e\<rparr> = (Inr (probe_lines, []), \<lparr>i_bytes = [], i_end = e\<rparr>)"
proof -
  have "stub_content_length probe_lines = 0" unfolding probe_lines_def by code_simp
  moreover have "list_all plain_line probe_lines"
    by (simp add: probe_lines_def plain_line_def utf8_valid_ascii)
  moreover have "HEALTH_REQUEST = lined probe_lines @ crlf @ []"
    by (simp add: HEALTH_REQUEST_def probe_lines_def)
  moreover have "length (lined probe_lines @ crlf) \<le> HEAD_LIMIT"
    by (simp add: probe_lines_def crlf_def HEAD_LIMIT_def)
  then have "stub_head_loop [] 0 \<lparr>i_bytes = lined probe_lines @ crlf @ [], i_end = e\<rparr> =
      (Inr probe_lines, \<lparr>i_bytes = [], i_end = e\<rparr>)"
    using stub_head_lines [of probe_lines 0 "[]" "[]" e] calculation(2) by simp
  ultimately show ?thesis
    by (simp only: stub_read_request_def stub_read_head_def prod.case sum.case Let_def if_True refl)
qed

lemma probe_answered:
  "stub_answer ready p name looks oks \<lparr>i_bytes = HEALTH_REQUEST, i_end = e\<rparr> = Some ([stub_health ready], False)"
proof -
  have "starts_with ''GET /health '' ''GET /health HTTP/1.1''" by code_simp
  then show ?thesis
    by (simp only: stub_answer_def probe_read prod.case sum.case Let_def probe_lines_def list.case if_True)
qed

lemma health_lines:
  "health_status (''HTTP/1.1 200 OK'' @ crlf) = Some 200"
  "health_status (''HTTP/1.1 503 Service Unavailable'' @ crlf) = Some 503"
proof -
  have "split_whitespace (''HTTP/1.1 200 OK'' @ crlf) = [''HTTP/1.1'', ''200'', ''OK'']"
    "split_whitespace (''HTTP/1.1 503 Service Unavailable'' @ crlf) =
      [''HTTP/1.1'', ''503'', ''Service'', ''Unavailable'']"
    by code_simp+
  then show "health_status (''HTTP/1.1 200 OK'' @ crlf) = Some 200"
    "health_status (''HTTP/1.1 503 Service Unavailable'' @ crlf) = Some 503"
    unfolding health_status_def
    by (simp_all only: list.case)
      (simp_all add: parse_unsigned_def is_digit_def digits_val_def digit_val_def)
qed

lemma health_of_reply:
  assumes "LF \<notin> set l" and "utf8_valid l"
  shows "health \<lparr>pb_sent = True, pb_reply = l @ crlf @ tail, pb_ended = ended\<rparr> = health_status (l @ crlf)"
proof -
  have "until_newline (l @ crlf @ tail) = l @ crlf"
    using until_newline_in [of "l @ [CR]" tail] assms(1) by (simp add: crlf_def)
  then show ?thesis
    using assms(2) utf8_valid_crlf [of l] by (simp add: health_def Let_def) (simp add: crlf_def)
qed

lemma stub_health_status:
  "health \<lparr>pb_sent = True, pb_reply = stub_health ready, pb_ended = ended\<rparr> =
     Some (if ready then 200 else 503)"
proof (cases ready)
  case True
  have "\<exists>tail. stub_health ready = ''HTTP/1.1 200 OK'' @ crlf @ tail"
    unfolding stub_health_def stub_complete_def Let_def using True by simp
  then obtain tail where "stub_health ready = ''HTTP/1.1 200 OK'' @ crlf @ tail" by blast
  then show ?thesis
    using health_of_reply [of "''HTTP/1.1 200 OK''" tail ended] health_lines(1) True
    by (simp add: utf8_valid_ascii)
next
  case False
  have "\<exists>tail. stub_health ready = ''HTTP/1.1 503 Service Unavailable'' @ crlf @ tail"
    unfolding stub_health_def stub_complete_def Let_def using False by simp
  then obtain tail where "stub_health ready = ''HTTP/1.1 503 Service Unavailable'' @ crlf @ tail" by blast
  then show ?thesis
    using health_of_reply [of "''HTTP/1.1 503 Service Unavailable''" tail ended] health_lines(2) False
    by (simp add: utf8_valid_ascii)
qed

text \<open>
  The stub as the readiness loop finds it, so long after it was started. It takes \<open>lag\<close> to come to
  its bind, or to the exit it makes instead of one; \<open>went\<close> is how its run goes. Whoever asks before
  it has bound, or after it chose not to, finds nobody there.
\<close>

definition stub_gone :: "duration \<Rightarrow> stub_ran \<Rightarrow> duration \<Rightarrow> nat option" where
  "stub_gone lag went t =
     (case sr_end went of
        FailsAtOnce \<Rightarrow> if lag \<le> t then Some 1 else None
      | ServesOn \<Rightarrow> None
      | ExitsAfter after code \<Rightarrow> if lag + after \<le> t then Some code else None)"

definition stub_serving :: "duration \<Rightarrow> stub_ran \<Rightarrow> duration \<Rightarrow> bool" where
  "stub_serving lag went t = (sr_end went \<noteq> FailsAtOnce \<and> lag \<le> t)"

definition stub_reply :: "stub_options \<Rightarrow> duration \<Rightarrow> string" where
  "stub_reply s elapsed =
     (case stub_answer (stub_ready s elapsed) (so_pacing s) (so_alias s) [] []
             \<lparr>i_bytes = HEALTH_REQUEST, i_end = Closed\<rparr> of
        None \<Rightarrow> [] | Some (ws, _) \<Rightarrow> concat ws)"

text \<open>\<open>shown\<close> is how the system prints an exit code, \<open>lines_at\<close> what is kept of the child's output.\<close>

definition stub_poll ::
    "(nat \<Rightarrow> string) \<Rightarrow> (duration \<Rightarrow> string list) \<Rightarrow> duration \<Rightarrow> stub_options \<Rightarrow> stub_ran \<Rightarrow>
     duration \<Rightarrow> poll" where
  "stub_poll shown lines_at lag s went t =
     polled (Inr (map_option shown (stub_gone lag went t)))
       (if stub_serving lag went t
        then \<lparr>pb_sent = True, pb_reply = stub_reply s (t - lag), pb_ended = True\<rparr>
        else \<lparr>pb_sent = False, pb_reply = [], pb_ended = False\<rparr>) t (lines_at t)"

lemma unsent_probe: "health \<lparr>pb_sent = False, pb_reply = l, pb_ended = ended\<rparr> = None"
  by (simp add: health_def)

lemma stub_poll_fields:
  "p_alive (stub_poll shown lines_at lag s went t) =
     (case stub_gone lag went t of None \<Rightarrow> Running | Some code \<Rightarrow> Exited (shown code))"
  "p_elapsed (stub_poll shown lines_at lag s went t) = t"
  "p_health (stub_poll shown lines_at lag s went t) =
     (if stub_serving lag went t then Some (if stub_ready s (t - lag) then 200 else 503) else None)"
  by (simp_all add: stub_poll_def polled_def check_child_def stub_reply_def probe_answered
      stub_health_status unsent_probe split: option.split)

text \<open>A poll that goes on: not gone, not ready, within the budget.\<close>

definition still_loading :: "entry \<Rightarrow> duration \<Rightarrow> stub_options \<Rightarrow> stub_ran \<Rightarrow> duration \<Rightarrow> bool" where
  "still_loading e lag s went u =
     (stub_gone lag went u = None \<and> u < startup_budget e \<and>
      \<not> (stub_serving lag went u \<and> stub_ready s (u - lag)))"

lemma loading_polls:
  assumes "list_all (still_loading e lag s went) us"
  shows "attempt_loop e ever (map (stub_poll shown lines_at lag s went) us @ ps) =
    attempt_loop e (ever \<or> list_ex (stub_serving lag went) us) ps"
  using assms
proof (induction us arbitrary: ever)
  case Nil
  then show ?case by simp
next
  case (Cons u us)
  then have u: "stub_gone lag went u = None" "\<not> startup_budget e \<le> u"
      "\<not> (stub_serving lag went u \<and> stub_ready s (u - lag))"
    by (simp_all add: still_loading_def)
  have "attempt_loop e ever (map (stub_poll shown lines_at lag s went) (u # us) @ ps) =
      attempt_loop e (ever \<or> stub_serving lag went u) (map (stub_poll shown lines_at lag s went) us @ ps)"
    using u by (simp add: stub_poll_fields)
  then show ?case using Cons by simp
qed

lemma never_bound_never_ready:
  assumes "sr_end went = FailsAtOnce"
  shows "attempt_loop e ever (map (stub_poll shown lines_at lag s went) us) \<noteq> Some (Inr ())"
proof (induction us arbitrary: ever)
  case (Cons u us)
  have "\<not> stub_serving lag went u" using assms by (simp add: stub_serving_def)
  with Cons show ?case by (auto simp: stub_poll_fields split: option.split)
qed simp

text \<open>C33: Started on the stub, the readiness loop ends exactly as that child fares. The polls before
  the deciding one find it still loading: not gone, not ready, and within the entry's startup
  budget. At the deciding poll, a child that is gone ends the loop as one that exited while
  loading, to be retried exactly when no earlier poll was answered; a child past its time to be
  ready makes it ready; otherwise a poll past the budget ends it as out of time. A child told never
  to bind makes the loop ready at no poll.\<close>

theorem readiness_is_the_childs:
  assumes "list_all (still_loading e lag s went) us" and "went = stub_run s marker_there written bound"
  shows "(case stub_gone lag went t of
       Some code \<Rightarrow> \<exists>m. attempt_loop e False (map (stub_poll shown lines_at lag s went) (us @ t # vs)) =
         Some (Inl (Unavailable m, \<not> list_ex (stub_serving lag went) us))
     | None \<Rightarrow>
         (stub_serving lag went t \<and> so_ready_after s \<le> t - lag \<longrightarrow>
           attempt_loop e False (map (stub_poll shown lines_at lag s went) (us @ t # vs)) = Some (Inr ())) \<and>
         (\<not> (stub_serving lag went t \<and> so_ready_after s \<le> t - lag) \<and> startup_budget e \<le> t \<longrightarrow>
           (\<exists>m. attempt_loop e False (map (stub_poll shown lines_at lag s went) (us @ t # vs)) =
             Some (Inl (NotReady m, False))))) \<and>
    (so_never_bind s \<and> so_never_bind_marker s = None \<longrightarrow>
      stub_gone lag went lag = Some 1 \<and>
      attempt_loop e False (map (stub_poll shown lines_at lag s went) vs) \<noteq> Some (Inr ()))"
proof -
  have "attempt_loop e False (map (stub_poll shown lines_at lag s went) (us @ t # vs)) =
      attempt_loop e (list_ex (stub_serving lag went) us)
        (stub_poll shown lines_at lag s went t # map (stub_poll shown lines_at lag s went) vs)"
    using loading_polls [OF assms(1), of False] by simp
  moreover have "sr_end went = FailsAtOnce" if "so_never_bind s" "so_never_bind_marker s = None"
    using that assms(2) by (simp add: stub_run_def Let_def)
  ultimately show ?thesis
    using never_bound_never_ready [of went e False shown lines_at lag s vs]
    by (auto simp: stub_poll_fields stub_ready_def stub_gone_def split: option.split)
qed

text \<open>One that serves is ready after two polls; one that exits while loading is not retried.\<close>

theorem readiness_is_the_childs_witness:
  "attempt_loop (plain_entry ''m'' 5 OnDemand) False
     (map (stub_poll dec (\<lambda>_. []) 20 (stub_defaults\<lparr>so_ready_after := 150\<rparr>)
        (stub_run (stub_defaults\<lparr>so_ready_after := 150\<rparr>) False (Inr ()) (Inr ()))) [0, 100, 200]) =
     Some (Inr ()) \<and>
   (\<exists>m. attempt_loop (plain_entry ''m'' 5 OnDemand) False
     (map (stub_poll dec (\<lambda>_. []) 20 (stub_defaults\<lparr>so_ready_after := 150, so_exit_after := Some 90\<rparr>)
        (stub_run (stub_defaults\<lparr>so_ready_after := 150, so_exit_after := Some 90\<rparr>) False (Inr ()) (Inr ())))
        [0, 100, 200]) = Some (Inl (Unavailable m, False)))"
proof -
  let ?e = "plain_entry ''m'' 5 OnDemand"
  let ?s = "stub_defaults\<lparr>so_ready_after := 150\<rparr>"
  let ?x = "stub_defaults\<lparr>so_ready_after := 150, so_exit_after := Some 90\<rparr>"
  have run: "sr_end (stub_run ?s False (Inr ()) (Inr ())) = ServesOn"
    "sr_end (stub_run ?x False (Inr ()) (Inr ())) = ExitsAfter 90 (so_exit_code ?x)"
    by (simp_all add: stub_run_def stub_defaults_def)
  have "list_all (still_loading ?e 20 ?s (stub_run ?s False (Inr ()) (Inr ()))) [0, 100]"
    "list_all (still_loading ?e 20 ?x (stub_run ?x False (Inr ()) (Inr ()))) [0, 100]"
    by (simp_all add: still_loading_def stub_gone_def stub_serving_def stub_ready_def run
        startup_budget_def plain_entry_def)
  from readiness_is_the_childs [OF this(1) refl, where t = 200 and vs = "[]"]
    readiness_is_the_childs [OF this(2) refl, where t = 200 and vs = "[]"]
  show ?thesis by (simp add: stub_gone_def stub_serving_def run)
qed

section \<open>The relayed request\<close>

text \<open>The lines of a rewritten head, and that a child reads each of them as it was written.\<close>

definition relayed :: "head \<Rightarrow> string \<Rightarrow> string list" where
  "relayed h upstream =
     (h_method h @ '' '' @ suffix_of (h_endpoint h) @ '' HTTP/1.1'')
     # (''Host: '' @ upstream) # ''Connection: close''
     # map (\<lambda>(n, v). n @ '': '' @ v) (filter (\<lambda>(n, _). \<not> answered_header n) (h_headers h))"

lemma rewrite_relayed: "rewrite h upstream = lined (relayed h upstream) @ crlf"
  by (simp add: rewrite_def relayed_def kept_headers)

lemma read_line_text: "read_line n inp = (Inr got, rest) \<Longrightarrow> utf8_valid got"
  by (auto simp: read_line_def Let_def split: if_splits)

lemma head_read_text:
  "head_read_loop err before seen inp = (Inr lines, rest) \<Longrightarrow> list_all utf8_valid before \<Longrightarrow>
     list_all utf8_valid lines"
proof (induction err before seen inp rule: head_read_loop.induct)
  case (1 err before seen inp)
  obtain r inp' where line: "read_line (MAX_HEAD_BYTES - seen) inp = (r, inp')" by fastforce
  with 1(2) obtain got where got: "r = Inr got" "got \<noteq> []" "\<not> MAX_HEAD_BYTES \<le> seen"
    by (cases r) (auto simp: head_read_loop.simps [of err before seen] split: if_splits)
  have valid: "utf8_valid (drop_line_end got)"
    using utf8_drop_line_end read_line_text line got(1) by blast
  show ?case
  proof (cases "drop_line_end got = []")
    case True
    with 1(2,3) line got show ?thesis by (simp add: head_read_loop.simps [of err before seen])
  next
    case False
    with 1(2) line got have "head_read_loop err (before @ [drop_line_end got]) (seen + length got) inp' =
        (Inr lines, rest)" and "\<not> MAX_HEADERS \<le> length before"
      by (auto simp: head_read_loop.simps [of err before seen] Let_def split: if_splits)
    with 1(1) [OF got(3) line [symmetric] got(1) got(2) refl False] valid 1(3) show ?thesis by simp
  qed
qed

lemma header_of_text:
  assumes "utf8_valid l" and "LF \<notin> set l" and "header_of l = Some (n, v)"
  shows "utf8_valid n" "utf8_valid v" "CHR '':'' \<notin> set n" "LF \<notin> set n" "LF \<notin> set v"
    "trim n = n" "trim v = v" "v = [] \<or> last v \<noteq> CR"
proof -
  obtain a b where ab: "l = a @ CHR '':'' # b" "CHR '':'' \<notin> set a" "n = trim a" "v = trim b"
    using assms(3) by (auto simp: header_of_def split_once_Some)
  have "utf8_valid a" "utf8_valid b"
    using utf8_around [of a "CHR '':''" b] assms(1) ab(1) by simp_all
  then show "utf8_valid n" "utf8_valid v" using ab(3,4) by (simp_all add: utf8_trim)
  show "CHR '':'' \<notin> set n" "LF \<notin> set n" "LF \<notin> set v"
    using ab assms(2) set_trim [of a] set_trim [of b] by auto
  show "trim n = n" "trim v = v" using ab(3,4) by (simp_all add: trim_trim)
  show "v = [] \<or> last v \<noteq> CR" using last_trim ab(4) by blast
qed

lemma read_header_facts:
  assumes "head_read err inp = (Inr lines, rest)" and "head_parse lines = Inr h"
    and "(n, v) \<in> set (h_headers h)"
  shows "utf8_valid n" "utf8_valid v" "CHR '':'' \<notin> set n" "LF \<notin> set n" "LF \<notin> set v"
    "trim n = n" "trim v = v" "v = [] \<or> last v \<noteq> CR"
proof -
  obtain first ls where lines: "lines = first # ls" and headers: "h_headers h = headers_of ls"
    using assms(2) by (rule parsed)
  have "\<exists>l \<in> set ls. header_of l = Some (n, v)"
    using assms(3) by (force simp: headers headers_of_def List.map_filter_def)
  then obtain l where l: "l \<in> set ls" "header_of l = Some (n, v)" by blast
  have "utf8_valid l"
    using head_read_text [of err "[]" 0 inp lines rest] assms(1) l(1)
    by (simp add: head_read_def lines list_all_iff)
  moreover have "LF \<notin> set l" using read_lines_plain [OF assms(1)] l(1) lines by simp
  ultimately show "utf8_valid n" "utf8_valid v" "CHR '':'' \<notin> set n" "LF \<notin> set n" "LF \<notin> set v"
    "trim n = n" "trim v = v" "v = [] \<or> last v \<noteq> CR"
    using header_of_text [OF _ _ l(2)] by blast+
qed

lemma suffix_text:
  assumes "endpoint_of path = Inr e" and "utf8_valid path"
  shows "utf8_valid (suffix_of e)"
proof (cases "\<exists>i suffix. e = Dedicated i suffix")
  case True
  then obtain i s where "path = ''/models/'' @ i @ CHR ''/'' # s" "suffix_of e = CHR ''/'' # s"
    using assms(1) by (auto simp: endpoint_of_def Let_def strip_prefix_Some split_once_Some
        split: if_splits option.splits prod.splits)
  then show ?thesis
    using utf8_around(2) [of "''/models/'' @ i" "CHR ''/''" s] assms(2)
    by (simp add: utf8_valid.simps(2))
next
  case False
  with assms show ?thesis
    by (auto simp: endpoint_of_def Let_def utf8_valid_ascii split: if_splits option.splits prod.splits)
qed

text \<open>The methods that reach a child, none of which begins as a length's name does.\<close>

definition plain_method :: "string \<Rightarrow> bool" where
  "plain_method m = (m \<in> {''GET'', ''HEAD'', ''POST'', ''OPTIONS''})"

lemma relayed_plain:
  assumes "head_read err inp = (Inr lines, rest)" and "head_parse lines = Inr h"
    and "plain_method (h_method h)" and "list_all visible upstream" and "upstream \<noteq> []"
  shows "list_all plain_line (relayed h upstream)"
proof -
  obtain first ls path ws where lines: "lines = first # ls"
    and ws: "split_whitespace first = h_method h # path # ws" "endpoint_of path = Inr (h_endpoint h)"
    and headers: "h_headers h = headers_of ls"
    using assms(2) by (rule parsed)
  have valid: "list_all utf8_valid lines"
    using head_read_text [of err "[]" 0 inp lines rest] assms(1) by (simp add: head_read_def)
  have plain: "LF \<notin> set l" if "l \<in> set lines" for l
    using read_lines_plain [OF assms(1)] that by blast
  have verb: "utf8_valid (h_method h)" "LF \<notin> set (h_method h)" "h_method h \<noteq> []"
    using assms(3) by (auto simp: plain_method_def utf8_valid_ascii)
  have "utf8_valid path" using utf8_words [of first path] valid ws(1) by (simp add: lines)
  then have suffix: "utf8_valid (suffix_of (h_endpoint h))" using suffix_text ws(2) by blast
  have "LF \<notin> set path" using split_whitespace_sub [of path first] ws(1) plain [of first] lines by auto
  then have "LF \<notin> set (suffix_of (h_endpoint h))" using endpoint_suffix [OF ws(2)] by simp
  with verb suffix have "plain_line (h_method h @ '' '' @ suffix_of (h_endpoint h) @ '' HTTP/1.1'')"
    by (simp add: plain_line_def utf8_valid_append utf8_valid_Cons)
  moreover have "plain_line (''Host: '' @ upstream)"
  proof (rule plain_ascii)
    have "visible c \<Longrightarrow> (of_char c :: nat) < 128" for c using visible_ascii by blast
    then show "list_all (\<lambda>c. (of_char c :: nat) < 128) (''Host: '' @ upstream)"
      using assms(4) by (auto simp: list_all_iff)
    have upstream: "LF \<notin> set upstream" "CR \<notin> set upstream"
      using assms(4) visible_ascii by (auto simp: list_all_iff)
    then show "LF \<notin> set (''Host: '' @ upstream)" by simp
    have "last upstream \<noteq> CR" using upstream(2) last_in_set [OF assms(5)] by metis
    then show "last (''Host: '' @ upstream) \<noteq> CR" using assms(5) by simp
  qed simp
  moreover have "plain_line ''Connection: close''" by (simp add: plain_line_def utf8_valid_ascii)
  moreover have "plain_line (n @ '': '' @ v)" if "(n, v) \<in> set (h_headers h)" for n v
    using read_header_facts [OF assms(1,2) that]
    by (auto simp: plain_line_def utf8_valid_append utf8_valid_Cons)
  ultimately show ?thesis by (auto simp: relayed_def list_all_iff)
qed

text \<open>The length the router frames a body by is the last one said, the child's the first.\<close>

definition said_length :: "string \<Rightarrow> length_header" where
  "said_length v = (case parse_unsigned (2 ^ 64) v of None \<Rightarrow> Malformed v | Some k \<Rightarrow> Given k)"

lemma header_step_length:
  "h_length (header_step h l) =
     (case header_of l of
        None \<Rightarrow> h_length h
      | Some (n, v) \<Rightarrow> if length_name n then said_length v else h_length h)"
  by (cases h)
    (simp add: header_step_def header_of_def length_name_def said_length_def Let_def split: option.split)

lemma header_steps_length:
  "h_length (foldl header_step h ls) =
     foldl (\<lambda>len (n, v). if length_name n then said_length v else len) (h_length h) (headers_of ls)"
proof (induction ls arbitrary: h)
  case Nil
  then show ?case by (simp add: headers_of_def List.map_filter_simps)
next
  case (Cons l ls)
  then show ?case
    by (simp add: headers_of_def List.map_filter_simps header_step_length split: option.split)
qed

definition lengths_said :: "head \<Rightarrow> string list" where
  "lengths_said h = map snd (filter (\<lambda>(n, _). length_name n) (h_headers h))"

lemma fold_lengths:
  "foldl (\<lambda>len (n, v). if length_name n then said_length v else len) len hs =
     (case rev (map snd (filter (\<lambda>(n, _). length_name n) hs)) of [] \<Rightarrow> len | v # _ \<Rightarrow> said_length v)"
proof (induction hs arbitrary: len)
  case Nil
  then show ?case by simp
next
  case (Cons h hs)
  then show ?case
    by (cases h) (auto split: list.split simp: append_eq_Cons_conv)
qed

lemma parsed_length:
  assumes "head_parse lines = Inr h"
  shows "h_length h = (case rev (lengths_said h) of [] \<Rightarrow> Absent | v # _ \<Rightarrow> said_length v)"
proof -
  obtain first ls path ws where lines: "lines = first # ls"
    and ws: "split_whitespace first = h_method h # path # ws" "endpoint_of path = Inr (h_endpoint h)"
    and headers: "h_headers h = headers_of ls"
    using assms by (rule parsed)
  let ?h0 = "\<lparr>h_method = h_method h, h_endpoint = h_endpoint h, h_headers = [], h_length = Absent,
    h_chunked = False, h_expects_continue = False, h_room = Inr Any\<rparr>"
  have "h = foldl header_step ?h0 ls" using assms ws by (simp add: head_parse_def lines)
  then have "h_length h = h_length (foldl header_step ?h0 ls)" by (rule arg_cong)
  then show ?thesis
    by (simp only: header_steps_length fold_lengths lengths_said_def headers head.simps)
qed

lemma find_map_filter_split:
  assumes "\<forall>(n, v) \<in> set hs. CHR '':'' \<notin> set n \<and> trim n = n"
  shows "find (\<lambda>(n, v). eq_ignore_case (trim n) ''content-length'')
      (List.map_filter (split_once (CHR '':'')) (map (\<lambda>(n, v). n @ '': '' @ v) hs)) =
    map_option (\<lambda>(n, v). (n, CHR '' '' # v)) (find (\<lambda>(n, v). length_name n) hs)"
  using assms
proof (induction hs)
  case Nil
  then show ?case by (simp add: List.map_filter_simps)
next
  case (Cons h hs)
  obtain n v where h: "h = (n, v)" by (cases h)
  with Cons.prems have n: "CHR '':'' \<notin> set n" "trim n = n" by auto
  then have "split_once (CHR '':'') (n @ CHR '':'' # CHR '' '' # v) = Some (n, CHR '' '' # v)"
    by (simp add: split_once_Some)
  with Cons n h show ?case by (simp add: List.map_filter_simps length_name_def)
qed

lemma find_length_filter:
  "map_option snd (find (\<lambda>(n, v). length_name n) (filter (\<lambda>(n, _). \<not> answered_header n) hs)) =
     (case map snd (filter (\<lambda>(n, _). length_name n) hs) of [] \<Rightarrow> None | v # _ \<Rightarrow> Some v)"
proof (induction hs)
  case Nil
  then show ?case by simp
next
  case (Cons h hs)
  have apart: "\<not> eq_ignore_case ''content-length'' ''host''" "\<not> eq_ignore_case ''content-length'' ''connection''"
    "\<not> eq_ignore_case ''content-length'' ''expect''"
    by code_simp+
  have "length_name n \<Longrightarrow> \<not> answered_header n" for n
    using apart by (auto simp: length_name_def answered_header_def eq_ignore_case_def)
  with Cons show ?case by (cases h) auto
qed

text \<open>None of the lines the router writes itself is a length.\<close>

lemma request_line_no_length:
  assumes "plain_method m" and "split_once (CHR '':'') (m @ '' '' @ rest) = Some (n, v)"
  shows "\<not> eq_ignore_case (trim n) ''content-length''"
proof
  assume eq: "eq_ignore_case (trim n) ''content-length''"
  have n: "m @ '' '' @ rest = n @ CHR '':'' # v" "CHR '':'' \<notin> set n"
    using assms(2) by (simp_all add: split_once_Some)
  have m: "m \<noteq> []" "visible (hd m)" "hd m \<noteq> CHR '':''" "lower_char (hd m) \<noteq> CHR ''c''"
  proof -
    have "list_all (\<lambda>m. m \<noteq> [] \<and> visible (hd m) \<and> hd m \<noteq> CHR '':'' \<and> lower_char (hd m) \<noteq> CHR ''c'')
        [''GET'', ''HEAD'', ''POST'', ''OPTIONS'']"
      by code_simp
    then show "m \<noteq> []" "visible (hd m)" "hd m \<noteq> CHR '':''" "lower_char (hd m) \<noteq> CHR ''c''"
      using assms(1) unfolding plain_method_def list_all_iff by auto
  qed
  have hd: "n \<noteq> []" "hd n = hd m" using n(1) m(1,3) by (cases n; cases m; simp)+
  then have "trim_start n = n"
    using m(2) by (cases n) (simp_all add: trim_start_def drop_lead_stop lead_visible)
  then have "trim n = rev (drop_lead white_rev (rev n))" by (simp add: trim_def trim_end_def)
  moreover obtain q where "rev n = q @ drop_lead white_rev (rev n)" using drop_lead_suffix by blast
  ultimately have t: "n = trim n @ rev q" by (metis rev_append rev_rev_ident)
  have "trim n \<noteq> []" using eq by (auto simp: eq_ignore_case_def ascii_lower_def)
  then have "hd (trim n) = hd m" using t hd(2) by (metis hd_append2)
  moreover have "lower_char (hd (trim n)) = CHR ''c''"
    using eq \<open>trim n \<noteq> []\<close>
    by (cases "trim n") (auto simp: eq_ignore_case_def ascii_lower_def lower_char_def)
  ultimately show False using m(4) by simp
qed

lemma stub_length:
  assumes "head_read err inp = (Inr lines, rest)" and "head_parse lines = Inr h"
    and "plain_method (h_method h)"
  shows "stub_content_length (relayed h upstream) =
    (case lengths_said h of [] \<Rightarrow> 0
     | v # _ \<Rightarrow> (case parse_unsigned (2 ^ 64) v of None \<Rightarrow> 0 | Some k \<Rightarrow> k))"
proof -
  let ?P = "\<lambda>(n, v). eq_ignore_case (trim n) ''content-length''"
  let ?hs = "filter (\<lambda>(n, _). \<not> answered_header n) (h_headers h)"
  let ?lines = "map (\<lambda>(n, v). n @ '': '' @ v) ?hs"
  have facts: "CHR '':'' \<notin> set n \<and> trim n = n \<and> trim v = v" if "(n, v) \<in> set (h_headers h)" for n v
    using read_header_facts [OF assms(1,2) that] by blast
  have own: "\<not> eq_ignore_case (trim ''Host'') ''content-length''"
    "\<not> eq_ignore_case (trim ''Connection'') ''content-length''"
    by code_simp+
  have "find ?P (List.map_filter (split_once (CHR '':'')) (relayed h upstream)) =
      find ?P (List.map_filter (split_once (CHR '':'')) ?lines)"
    using request_line_no_length [OF assms(3), of "suffix_of (h_endpoint h) @ '' HTTP/1.1''"] own
    by (auto simp: relayed_def List.map_filter_simps split: option.split)
  also have "\<dots> = map_option (\<lambda>(n, v). (n, CHR '' '' # v)) (find (\<lambda>(n, v). length_name n) ?hs)"
    using facts by (intro find_map_filter_split) auto
  finally have found: "find ?P (List.map_filter (split_once (CHR '':'')) (relayed h upstream)) =
      map_option (\<lambda>(n, v). (n, CHR '' '' # v)) (find (\<lambda>(n, v). length_name n) ?hs)" .
  show ?thesis
  proof (cases "find (\<lambda>(n, v). length_name n) ?hs")
    case None
    then have "lengths_said h = []"
      using find_length_filter [of "h_headers h"] by (auto simp: lengths_said_def split: list.splits)
    with None show ?thesis by (simp add: stub_content_length_def found)
  next
    case (Some nv)
    obtain n v where nv: "nv = (n, v)" by (cases nv)
    with Some have "\<exists>vs. lengths_said h = v # vs"
      using find_length_filter [of "h_headers h"] by (auto simp: lengths_said_def split: list.splits)
    moreover have "(n, v) \<in> set (h_headers h)" using Some nv by (auto dest: find_SomeD)
    then have "trim (CHR '' '' # v) = v" using facts by (simp add: trim_after_space)
    ultimately show ?thesis using Some nv by (auto simp: stub_content_length_def found)
  qed
qed

lemma stub_reads_relayed:
  assumes "head_read err inp = (Inr lines, rest)" and "head_parse lines = Inr h"
    and "plain_method (h_method h)" and "list_all visible upstream" and "upstream \<noteq> []"
    and "length (lengths_said h) \<le> 1" and "length (rewrite h upstream) \<le> HEAD_LIMIT"
    and "length body = body_bytes h"
  shows "stub_read_request \<lparr>i_bytes = rewrite h upstream @ body, i_end = e\<rparr> =
    (Inr (relayed h upstream, body), \<lparr>i_bytes = [], i_end = e\<rparr>)"
proof -
  have "stub_head_loop [] 0 \<lparr>i_bytes = lined (relayed h upstream) @ crlf @ body, i_end = e\<rparr> =
      (Inr (relayed h upstream), \<lparr>i_bytes = body, i_end = e\<rparr>)"
    using stub_head_lines [OF relayed_plain [OF assms(1-5)], of 0 "[]" body e] assms(7)
    by (simp add: rewrite_relayed)
  moreover have "stub_content_length (relayed h upstream) = length body"
    using stub_length [OF assms(1-3), of upstream] parsed_length [OF assms(2)] assms(6,8)
    by (cases "lengths_said h") (auto simp: body_bytes_def said_length_def split: option.splits)
  ultimately show ?thesis
    by (simp add: stub_read_request_def stub_read_head_def rewrite_relayed take_exact_def Let_def)
qed

section \<open>A request, for the witnesses\<close>

definition echo_lines :: "string list \<Rightarrow> string list" where
  "echo_lines lengths = ''POST /v1/echo HTTP/1.1'' # map (\<lambda>l. ''Content-Length: '' @ l) lengths"

definition echo_head :: "string list \<Rightarrow> nat \<Rightarrow> head" where
  "echo_head lengths n =
     \<lparr>h_method = ''POST'', h_endpoint = Generic ''/v1/echo'',
      h_headers = map (Pair ''Content-Length'') lengths, h_length = Given n, h_chunked = False,
      h_expects_continue = False, h_room = Inr Any\<rparr>"

lemma length_step:
  assumes "trim l = l" and "parse_unsigned (2 ^ 64) l = Some n"
  shows "header_step h (''Content-Length: '' @ l) =
    h\<lparr>h_length := Given n, h_headers := h_headers h @ [(''Content-Length'', l)]\<rparr>"
proof -
  have "trim ''Content-Length'' = ''Content-Length''" "unread_name ''Content-Length''"
    "length_name ''Content-Length''"
    by code_simp+
  moreover have "split_once (CHR '':'') (''Content-Length: '' @ l) = Some (''Content-Length'', CHR '' '' # l)"
    by simp
  ultimately show ?thesis
    using header_step_plain [of "''Content-Length: '' @ l" "''Content-Length''" "CHR '' '' # l" h] assms
    by (simp only: trim_after_space if_True option.case)
qed

lemma digit_lengths:
  "trim ''2'' = ''2''" "parse_unsigned (2 ^ 64) ''2'' = Some 2"
  "trim ''3'' = ''3''" "parse_unsigned (2 ^ 64) ''3'' = Some 3"
  by (simp_all add: trim_digits is_digit_def parse_unsigned_def digits_val_def digit_val_def)

lemma echo_words:
  "split_whitespace ''POST /v1/echo HTTP/1.1'' = [''POST'', ''/v1/echo'', ''HTTP/1.1'']"
  "endpoint_of ''/v1/echo'' = Inr (Generic ''/v1/echo'')"
  by code_simp+

lemma echo_parsed:
  "head_parse (echo_lines [''2'']) = Inr (echo_head [''2''] 2)"
  "head_parse (echo_lines [''3'', ''2'']) = Inr (echo_head [''3'', ''2''] 2)"
  using length_step digit_lengths
  by (simp_all only: head_parse_def echo_lines_def echo_words list.case sum.case list.map foldl_Cons
      foldl_Nil) (simp_all add: echo_head_def)

lemma echo_read:
  assumes "set lengths \<subseteq> {''2'', ''3''}" and "length lengths \<le> 2"
  shows "head_read err \<lparr>i_bytes = lined (echo_lines lengths) @ crlf @ body, i_end = e\<rparr> =
    (Inr (echo_lines lengths), \<lparr>i_bytes = body, i_end = e\<rparr>)"
proof (rule head_reads_back)
  have "plain_line ''Content-Length: 2''" "plain_line ''Content-Length: 3''" "plain_line ''POST /v1/echo HTTP/1.1''"
    by (simp_all add: plain_line_def utf8_valid_ascii)
  then show "list_all plain_line (echo_lines lengths)"
    using assms(1) by (auto simp: echo_lines_def list_all_iff)
  obtain l1 l2 where "lengths = [] \<or> lengths = [l1] \<or> lengths = [l1, l2]"
    using assms(2) by (cases lengths; cases "tl lengths"; cases "tl (tl lengths)") auto
  then show "length (lined (echo_lines lengths) @ crlf) \<le> MAX_HEAD_BYTES"
    using assms(1) by (auto simp: echo_lines_def crlf_def MAX_HEAD_BYTES_def)
  show "length (echo_lines lengths) \<le> MAX_HEADERS"
    using assms(2) by (simp add: echo_lines_def MAX_HEADERS_def)
qed

lemma length_name_own: "length_name ''Content-Length''"
  by code_simp

section \<open>Properties of the relayed request\<close>

text \<open>What a caller sends is what the child reads: for a request the router reads, that says its
  length at most once and whose body arrives, the child reads back the request line with the
  path's suffix, the caller's headers but for those that are the connection's own, and exactly
  the caller's body, with nothing left over, however the body's reads were cut.\<close>

lemma child_reads_what_the_caller_sent:
  assumes "head_read err inp = (Inr lines, rest)" and "head_parse lines = Inr h"
    and "plain_method (h_method h)" and "list_all visible upstream" and "upstream \<noteq> []"
    and "length (lengths_said h) \<le> 1" and "length (rewrite h upstream) \<le> HEAD_LIMIT"
    and "body_bytes h \<le> length (i_bytes rest)"
  shows "\<exists>sent left. relay_request TakesAll chunk h upstream None rest = ((True, sent), left) \<and>
    stub_read_request \<lparr>i_bytes = sent, i_end = e\<rparr> =
      (Inr (relayed h upstream, take (body_bytes h) (i_bytes rest)), \<lparr>i_bytes = [], i_end = e\<rparr>)"
proof -
  let ?body = "take (body_bytes h) (i_bytes rest)"
  have "relay_request TakesAll chunk h upstream None rest =
      ((True, rewrite h upstream @ ?body), rest\<lparr>i_bytes := drop (body_bytes h) (i_bytes rest)\<rparr>)"
    using assms(8) by (simp add: relay_request_def up_write_def forward_body_def forward_loop_exact takes_enough_def)
  moreover have "stub_read_request \<lparr>i_bytes = rewrite h upstream @ ?body, i_end = e\<rparr> =
      (Inr (relayed h upstream, ?body), \<lparr>i_bytes = [], i_end = e\<rparr>)"
    using assms(8) by (intro stub_reads_relayed [OF assms(1-7)]) simp
  ultimately show ?thesis by blast
qed

lemma child_reads_what_the_caller_sent_witness:
  "\<exists>sent left. relay_request TakesAll (\<lambda>_. 1) (echo_head [''2''] 2) ''127.0.0.1:9'' None
       \<lparr>i_bytes = ''hi!'', i_end = Closed\<rparr> = ((True, sent), left) \<and>
     stub_read_request \<lparr>i_bytes = sent, i_end = Closed\<rparr> =
       (Inr (relayed (echo_head [''2''] 2) ''127.0.0.1:9'', ''hi''), \<lparr>i_bytes = [], i_end = Closed\<rparr>)"
proof -
  have read: "head_read (\<lambda>_. []) \<lparr>i_bytes = lined (echo_lines [''2'']) @ crlf @ ''hi!'', i_end = Closed\<rparr> =
      (Inr (echo_lines [''2'']), \<lparr>i_bytes = ''hi!'', i_end = Closed\<rparr>)"
    by (rule echo_read) simp_all
  have plain: "plain_method (h_method (echo_head [''2''] 2))" "list_all visible ''127.0.0.1:9''"
    "''127.0.0.1:9'' \<noteq> []" "length (lengths_said (echo_head [''2''] 2)) \<le> 1"
    by (simp_all add: echo_head_def plain_method_def visible_def lengths_said_def length_name_own)
  have "length (rewrite (echo_head [''2''] 2) ''127.0.0.1:9'') \<le> HEAD_LIMIT"
    by (simp add: echo_head_def rewrite_def crlf_def HEAD_LIMIT_def)
  from child_reads_what_the_caller_sent [OF read echo_parsed(1) plain this, of "\<lambda>_. 1" Closed]
  show ?thesis by (simp add: echo_head_def body_bytes_def numeral_2_eq_2)
qed

text \<open>C29: A head that says its length more than once is framed apart: the router takes the body by
  the last length, and the head it sends on still carries the first, by which a child such as
  the stub reads it.\<close>

theorem repeated_length_is_framed_apart:
  assumes "head_read err inp = (Inr lines, rest)" and "head_parse lines = Inr h"
    and "plain_method (h_method h)" and "lengths_said h = first # more_said" and "more_said \<noteq> []"
    and "parse_unsigned (2 ^ 64) first = Some k"
    and "parse_unsigned (2 ^ 64) (last more_said) = Some m"
  shows "body_bytes h = m \<and> stub_content_length (relayed h upstream) = k"
proof -
  have "rev (lengths_said h) = last more_said # tl (rev more_said) @ [first]"
    using assms(4,5) by (cases more_said rule: rev_cases) simp_all
  then have "h_length h = Given m"
    using parsed_length [OF assms(2)] assms(7) by (simp add: said_length_def)
  then show ?thesis
    using stub_length [OF assms(1-3), of upstream] assms(4,6) by (simp add: body_bytes_def)
qed

theorem repeated_length_is_framed_apart_witness:
  "body_bytes (echo_head [''3'', ''2''] 2) = 2 \<and>
   stub_content_length (relayed (echo_head [''3'', ''2''] 2) ''127.0.0.1:9'') = 3"
proof -
  have "head_read (\<lambda>_. []) \<lparr>i_bytes = lined (echo_lines [''3'', ''2'']) @ crlf @ ''hi!'', i_end = Closed\<rparr> =
      (Inr (echo_lines [''3'', ''2'']), \<lparr>i_bytes = ''hi!'', i_end = Closed\<rparr>)"
    by (rule echo_read) simp_all
  moreover have "plain_method (h_method (echo_head [''3'', ''2''] 2))"
    "lengths_said (echo_head [''3'', ''2''] 2) = [''3'', ''2'']"
    by (simp_all add: echo_head_def plain_method_def lengths_said_def length_name_own)
  ultimately show ?thesis
    using repeated_length_is_framed_apart [OF _ echo_parsed(2), of "\<lambda>_. []" _ _ "''3''" "[''2'']" 3 2]
      digit_lengths by simp
qed

end
