(* ===== verification/Custody_Runs.thy ===== *)
theory Custody_Runs
  imports Custody Answer_Facts
begin

text \<open>
  The calls as the code writes them -- the fast path, admission and its wait, the load, the answer
  to a connection -- are runs of the calls of the custody machine, whatever the other threads do in
  between as long as that is one too.
\<close>

section \<open>Moves\<close>

text \<open>
  A run of the machine that keeps the slots well formed and gives no process one of the numbers
  \<open>N\<close>, which the system has still to give out.
\<close>

definition moves :: "nat set \<Rightarrow> slots \<Rightarrow> slots \<Rightarrow> bool" where
  "moves N s s' =
     (slots_ok s' \<and> custody_call\<^sup>*\<^sup>* (custody_of s) (custody_of s') \<and>
      (\<forall>ch \<in> N. heap_of s ch = None \<longrightarrow> heap_of s' ch = None))"

text \<open>What other threads do at one point, and what they do while the admission lock is held.\<close>

definition mover :: "nat set \<Rightarrow> (slots \<Rightarrow> slots) \<Rightarrow> bool" where
  "mover N f = (\<forall>s. slots_ok s \<longrightarrow> moves N s (f s))"

definition loads_nothing :: "(slots \<Rightarrow> slots) \<Rightarrow> bool" where
  "loads_nothing f = (\<forall>s i. slots_ok s \<and> held_in s i = None \<longrightarrow> held_in (f s) i = None)"

lemma movesD: "moves N s s' \<Longrightarrow> slots_ok s'"
  by (simp add: moves_def)

lemma moves_refl: "slots_ok s \<Longrightarrow> moves N s s"
  by (simp add: moves_def)

lemma moves_trans [trans]: "moves N s s' \<Longrightarrow> moves N s' s'' \<Longrightarrow> moves N s s''"
  unfolding moves_def by (blast intro: rtranclp_trans)

lemma moves_use: "mover N f \<Longrightarrow> slots_ok s \<Longrightarrow> moves N s (f s)"
  by (simp add: mover_def)

lemma moves_later: "mover N f \<Longrightarrow> moves N s s' \<Longrightarrow> moves N s (f s')"
  using moves_trans moves_use movesD by blast

lemma mover_id [simp]: "mover N (\<lambda>s. s)"
  by (simp add: mover_def moves_refl)

lemma loads_nothing_id [simp]: "loads_nothing (\<lambda>s. s)"
  by (simp add: loads_nothing_def)

lemma loads_nothing_use: "loads_nothing f \<Longrightarrow> slots_ok s \<Longrightarrow> held_in s i = None \<Longrightarrow> held_in (f s) i = None"
  by (simp add: loads_nothing_def)

lemma moves_quietly: "quietly s s' \<Longrightarrow> custody_call (custody_of s) (custody_of s') \<Longrightarrow> moves N s s'"
  by (auto simp: moves_def quietly_def)

lemma moves_sweep: "slots_ok s \<Longrightarrow> moves N s (sweep_exited c s)"
  by (rule moves_quietly [OF quietly_exits exits.gives_up_only])

lemma moves_unload: "slots_ok s \<Longrightarrow> moves N s (fst (unload is s))"
  by (rule moves_quietly [OF quietly_unload unloading.gives_up_only])

lemma moves_let_go: "slots_ok s \<Longrightarrow> moves N s (fst (let_go i s))"
  by (rule moves_quietly [OF quietly_let_go letting.gives_up_only])

lemma moves_resync: "slots_ok s \<Longrightarrow> moves N s (resync c s)"
  by (rule moves_quietly [OF quietly_resync reload.gives_up_only])

lemma custody_frames [simp]:
  "custody_of (say l s) = custody_of s" "custody_of (leave_line t s) = custody_of s"
  "custody_of (fst (join_line t s)) = custody_of s"
  by (simp_all add: custody_of_def)

lemma custody_touch [simp]: "custody_of (touch i now s) = custody_of s"
  by (auto simp: custody_of_def touch_def fun_eq_iff split: option.split)

lemma moves_still: "quietly s s' \<Longrightarrow> custody_of s' = custody_of s \<Longrightarrow> moves N s s'"
  by (simp add: moves_def quietly_def)

lemma moves_say: "slots_ok s \<Longrightarrow> moves N s (say l s)"
  by (simp add: moves_still quietly_say)

lemma moves_touch: "slots_ok s \<Longrightarrow> moves N s (touch i now s)"
  by (simp add: moves_still quietly_touch)

lemma moves_join: "slots_ok s \<Longrightarrow> moves N s (fst (join_line t s))"
  by (simp add: moves_still quietly_join)

lemma moves_leave: "slots_ok s \<Longrightarrow> moves N s (leave_line t s)"
  by (simp add: moves_still quietly_leave)

lemma moves_running:
  assumes "slots_ok s" and "running e now s = (s', r)"
  shows "moves N s s'"
proof (cases r)
  case None
  with assms show ?thesis using quietly_running custody_running by (blast intro: moves_quietly)
next
  case (Some ch)
  have ok: "slots_ok s'" by (rule ok_running [OF assms])
  have "heap_of s' c = None" if "heap_of s c = None" for c
  proof -
    have none: "\<not> in_custody (custody_of s) c" using alive_in_custody [OF assms(1)] that by blast
    from assms(2) have "\<not> in_custody (custody_of s') c"
      by (cases rule: running_cases) (use none Some in \<open>auto simp: in_custody_def split: if_splits\<close>)
    with alive_in_custody [OF ok] show ?thesis by blast
  qed
  with ok custody_running [OF assms] show ?thesis by (auto simp: moves_def)
qed

section \<open>The wait\<close>

lemma moves_unloading:
  assumes "slots_ok s" and "mover N race"
  shows "moves N s (fst (unload is (race (say l s))))"
  using moves_trans [OF moves_later [OF assms(2) moves_say [OF assms(1)]] moves_unload]
    movesD [OF moves_later [OF assms(2) moves_say [OF assms(1)]]] .

lemma moves_look:
  assumes "look c a device race may s = (s', r)" and "slots_ok s" and "mover N race"
  shows "moves N s s'"
  using assms moves_unloading [OF assms(2,3)]
  by (auto simp: look_def Let_def moves_refl split: option.splits decision.splits if_splits prod.splits)
    (metis fst_conv)+

lemma look_loads_nothing:
  assumes "look c a device race may s = (s', r)" and "slots_ok s" and "mover N race"
    and "loads_nothing race" and "held_in s i = None"
  shows "held_in s' i = None"
proof -
  have "held_in (race (say l s)) i = None" for l
    using loads_nothing_use [OF assms(4) movesD [OF moves_say [OF assms(2)]]] assms(5) by simp
  then have "held_in (fst (unload is (race (say l s)))) i = None" for "is" l
    using unload_lesser lesser_None by (metis prod.collapse)
  with assms(1,5) show ?thesis
    by (auto simp: look_def Let_def split: option.splits decision.splits if_splits prod.splits)
      (metis fst_conv)+
qed

text \<open>What others do in a turn: between a look and its unloading with the lock held, and in the sleep.\<close>

definition turn_mover :: "nat set \<Rightarrow> turn \<Rightarrow> bool" where
  "turn_mover N t = (mover N (t_race t) \<and> loads_nothing (t_race t) \<and> mover N (t_sleep t))"

lemma moves_turn:
  assumes "turn_step fs c a root arrived ticket t s = (s', r)" and "slots_ok s" and "turn_mover N t"
  shows "moves N s s' \<and> (r = Inl (Inr None) \<longrightarrow> held_in s' (e_id (a_entry a)) = None)"
  using assms(1)
proof (cases rule: turn_cases)
  case reloaded
  with assms(2) show ?thesis by (simp add: moves_refl)
next
  case (found ch)
  with moves_running [OF assms(2)] show ?thesis by simp
next
  case (missing f)
  with moves_running [OF assms(2)] show ?thesis by simp
next
  case (looked s1 s2 x)
  have one: "moves N s s1" "held_in s1 (e_id (a_entry a)) = None"
    using moves_running [OF assms(2) looked(1)] running_None [OF looked(1)] by simp_all
  have two: "moves N s1 s2" "held_in s2 (e_id (a_entry a)) = None"
    using looked(2) one(2) moves_sweep moves_refl movesD [OF one(1)]
      fewer_lesser_None [OF fewer_sweep_exited, of s1] by auto
  have three: "moves N s2 s'" "held_in s' (e_id (a_entry a)) = None"
    using moves_look [OF looked(3) movesD [OF two(1)]] look_loads_nothing [OF looked(3) movesD [OF two(1)]]
      assms(3) two(2) by (auto simp: turn_mover_def)
  from moves_trans [OF moves_trans [OF one(1) two(1)] three(1)] three(2) show ?thesis by simp
qed

lemma moves_room:
  assumes "room_for fs c a root now ts s = Some (s', r)" and "slots_ok s" and "list_all (turn_mover N) ts"
  shows "moves N s s' \<and> (r = Inr None \<longrightarrow> held_in s' (e_id (a_entry a)) = None)"
proof -
  have turns: "turn_mover N t" if "t \<in> set ts" for t using that assms(3) by (simp add: list_all_iff)
  obtain s1 ticket where w: "wait_loop fs c a root (now + wait_duration (slots_wait s))
      (reloads (line s)) ts None s = Some (s1, ticket, r)" and s': "s' = leave_line ticket s1"
    using assms(1) by (auto simp: room_for_def Let_def split: option.splits)
  have on: "moves N s (t_sleep t (fst (join_line tk s1)))"
    if "t \<in> set ts" "moves N s s0" "turn_step fs c a root (reloads (line s)) tk t s0 = (s1, Inr m)" for t tk s0 s1 m
  proof -
    have "moves N s s1"
      using moves_turn [OF that(3) movesD [OF that(2)] turns [OF that(1)]] that(2) by (blast intro: moves_trans)
    then have "moves N s (fst (join_line tk s1))" using moves_join movesD by (blast intro: moves_trans)
    with turns [OF that(1)] show ?thesis by (simp add: turn_mover_def moves_later)
  qed
  obtain t s0 tk where last: "t \<in> set ts" "moves N s s0"
      "turn_step fs c a root (reloads (line s)) tk t s0 = (s1, Inl r) \<or>
       (\<exists>m m'. turn_step fs c a root (reloads (line s)) tk t s0 = (s1, Inr m) \<and> r = Inl m')"
    by (rule wait_loop_from [where P = "moves N s", OF w moves_refl [OF assms(2)]]) (use on in blast)+
  have "moves N s0 s1 \<and> (r = Inr None \<longrightarrow> held_in s1 (e_id (a_entry a)) = None)"
    using last(3) moves_turn [OF _ movesD [OF last(2)] turns [OF last(1)]] by fastforce
  then show ?thesis
    using last(2) s' moves_leave movesD by (auto intro: moves_trans)
qed

section \<open>A load, and the whole call\<close>

text \<open>The number of the process a load starts, which nobody has before.\<close>

definition news :: "loading \<Rightarrow> nat set" where
  "news ld = (case ld_server ld of Inl _ \<Rightarrow> {} | Inr ch \<Rightarrow> {ch_pid ch})"

definition unborn :: "loading \<Rightarrow> slots \<Rightarrow> bool" where
  "unborn ld s = (\<forall>ch \<in> news ld. heap_of s ch = None)"

definition load_mover :: "loading \<Rightarrow> bool" where
  "load_mover ld = (mover (news ld) (ld_race ld) \<and> loads_nothing (ld_race ld))"

lemma unborn_later: "unborn ld s \<Longrightarrow> moves (news ld) s s' \<Longrightarrow> unborn ld s'"
  by (auto simp: unborn_def moves_def)

lemma moves_any: "moves N s s' \<Longrightarrow> moves {} s s'"
  by (simp add: moves_def)

text \<open>What a call comes to: a run, at whose end the child it returns is lent.\<close>

definition gets :: "slots \<Rightarrow> failure + nat \<Rightarrow> slots \<Rightarrow> bool" where
  "gets s r s' = (moves {} s s' \<and> (\<forall>ch. r = Inr ch \<longrightarrow> ch \<in># leases s'))"

lemma moves_gets: "moves N s s' \<Longrightarrow> gets s' r s'' \<Longrightarrow> gets s r s''"
  using moves_trans [OF moves_any] by (auto simp: gets_def)

lemma leases_running: "running e now s = (s', Some ch) \<Longrightarrow> ch \<in># leases s'"
  by (cases rule: running_cases) auto

lemma gets_running:
  assumes "slots_ok s" and "running e now s = (s', Some ch)"
  shows "gets s (Inr ch) s'"
  using moves_any [OF moves_running [OF assms]] leases_running [OF assms(2)] by (simp add: gets_def)

lemma gets_start:
  assumes "slots_ok s" and "held_in s (e_id (a_entry a)) = None" and "load_mover ld" and "unborn ld s"
  shows "case slots_start a ld s of
      (s', Inl f) \<Rightarrow> moves {} s s'
    | (s', Inr new) \<Rightarrow>
        gets s (Inr (snd (insert_child (e_id (a_entry a)) new s'))) (fst (insert_child (e_id (a_entry a)) new s'))"
proof -
  let ?i = "e_id (a_entry a)"
  define s1 where "s1 = say (?i @ '': loading, estimated at ''
     @ dec (unat (e_memory_estimate_mib (a_entry a))) @ '' MiB'') s"
  have s1: "moves (news ld) s s1" "held_in s1 ?i = None"
    using moves_say [OF assms(1)] assms(2) by (simp_all add: s1_def)
  let ?s2 = "ld_race ld s1"
  have s2: "moves (news ld) s ?s2" "held_in ?s2 ?i = None"
    using assms(3) moves_later [OF _ s1(1)] loads_nothing_use [OF _ movesD [OF s1(1)] s1(2)]
    by (simp_all add: load_mover_def)
  have said: "moves (news ld) s (say l ?s2)" for l
    using moves_trans [OF s2(1) moves_say [OF movesD [OF s2(1)]]] .
  show ?thesis
  proof (cases "ld_server ld")
    case (Inl f)
    with moves_any [OF said] show ?thesis
      unfolding slots_start_def Let_def s1_def [symmetric] by simp
  next
    case (Inr ch)
    have "gets s (Inr (snd (insert_child ?i new (on_heap (arc_new (s_child new)) (say l ?s2)))))
        (fst (insert_child ?i new (on_heap (arc_new (s_child new)) (say l ?s2))))"
      if "s_child new = ch_pid ch" for new l
    proof -
      let ?s3 = "say l ?s2"
      have "heap_of ?s3 (s_child new) = None"
        using unborn_later [OF assms(4) said] that Inr by (simp add: unborn_def news_def)
      moreover have "held_in ?s3 ?i = None" using s2(2) by simp
      moreover have "snd (insert_child ?i new u) = s_child new" for u
        by (simp add: insert_child_def Let_def)
      ultimately have "gets ?s3 (Inr (s_child new)) (fst (insert_child ?i new (on_heap (arc_new (s_child new)) ?s3)))"
        using ok_load [OF movesD [OF said]] custody_loads [OF movesD [OF said]]
        by (simp add: gets_def moves_def insert_frames r_into_rtranclp)
      with moves_gets [OF said] show ?thesis by (simp add: insert_child_def Let_def)
    qed
    then show ?thesis
      unfolding slots_start_def Let_def s1_def [symmetric] using Inr by simp
  qed
qed

text \<open>A wait that ends with a child found it running at a last look.\<close>

lemma room_found:
  assumes "room_for fs c a root now ts s = Some (s', Inr (Some ch))"
  obtains s0 s1 t ticket where "running (a_entry a) t s0 = (s1, Some ch)" and "s' = leave_line ticket s1"
proof -
  obtain s1 ticket where w: "wait_loop fs c a root (now + wait_duration (slots_wait s))
      (reloads (line s)) ts None s = Some (s1, ticket, Inr (Some ch))" and s': "s' = leave_line ticket s1"
    using assms by (auto simp: room_for_def Let_def split: option.splits)
  obtain t s0 tk where "turn_step fs c a root (reloads (line s)) tk t s0 = (s1, Inl (Inr (Some ch)))"
    by (rule wait_loop_from [where P = "\<lambda>_. True", OF w]) auto
  then have "running (a_entry a) (t_now t) s0 = (s1, Some ch)"
    by (cases rule: turn_cases) (auto simp: ended_def split: sum.splits seen.splits)
  with that s' show thesis by blast
qed

lemma room_leases: "room_for fs c a root now ts s = Some (s', Inr (Some ch)) \<Longrightarrow> ch \<in># leases s'"
  by (erule room_found) (simp add: leave_line_def leases_running split: prod.split)

lemma gets_admitted:
  assumes "admit_entry fs c a root now ts ld s = Some (s', r)" and "slots_ok s"
    and "list_all (turn_mover (news ld)) ts" and "load_mover ld" and "unborn ld s"
  shows "gets s r s'"
proof (cases "by_id s (e_id (a_entry a))")
  case None
  with assms(1,2) show ?thesis by (auto simp: admit_entry_def Let_def gets_def moves_refl)
next
  case (Some cell)
  then obtain s1 x where room: "room_for fs c a root now ts s = Some (s1, x)"
    using assms(1) by (auto simp: admit_entry_def Let_def split: option.splits)
  have m: "moves (news ld) s s1" and empty: "x = Inr None \<longrightarrow> held_in s1 (e_id (a_entry a)) = None"
    using moves_room [OF room assms(2,3)] by simp_all
  consider (failed) f where "x = Inl f" | (found) ch where "x = Inr (Some ch)" | (made) "x = Inr None"
    by (metis obj_sumE option.exhaust)
  then show ?thesis
  proof cases
    case failed
    with m room Some assms(1) show ?thesis by (auto simp: admit_entry_def Let_def gets_def moves_any)
  next
    case (found ch)
    with room_leases [of fs c a root now ts s s1 ch] m room Some assms(1) show ?thesis
      by (auto simp: admit_entry_def Let_def gets_def moves_any)
  next
    case made
    then have "gets s1 r s'"
      using gets_start [OF movesD [OF m] _ assms(4) unborn_later [OF assms(5) m], of a]
        assms(1) room empty Some
      by (auto simp: admit_entry_def Let_def gets_def split: prod.splits sum.splits)
    with m show ?thesis by (rule moves_gets)
  qed
qed

lemma gets_child:
  assumes "child_for fs c a root now race now' ts ld s = Some (s', r)" and "slots_ok s"
    and "mover (news ld) race" and "list_all (turn_mover (news ld)) ts" and "load_mover ld" and "unborn ld s"
  shows "gets s r s'"
proof -
  obtain s1 x where run: "running (a_entry a) now s = (s1, x)" by fastforce
  show ?thesis
  proof (cases x)
    case None
    have m: "moves (news ld) s (race s1)" using moves_later [OF assms(3) moves_running [OF assms(2) run]] .
    have "admit_entry fs c a root now' ts ld (race s1) = Some (s', r)"
      using assms(1) run None by (simp add: child_for_def)
    from gets_admitted [OF this movesD [OF m] assms(4,5) unborn_later [OF assms(6) m]] m
    show ?thesis by (rule moves_gets [rotated])
  next
    case (Some ch)
    with assms(1) run gets_running [OF assms(2), of "a_entry a" now s1 ch] show ?thesis
      by (auto simp: child_for_def)
  qed
qed

section \<open>Answering\<close>

definition router_mover :: "nat set \<Rightarrow> (router \<Rightarrow> router) \<Rightarrow> bool" where
  "router_mover N f = (\<forall>r. slots_ok (rt_slots r) \<longrightarrow> moves N (rt_slots r) (rt_slots (f r)))"

lemma router_moves_use:
  "router_mover N f \<Longrightarrow> slots_ok (rt_slots r) \<Longrightarrow> moves N (rt_slots r) (rt_slots (f r))"
  by (simp add: router_mover_def)

lemma router_mover_id [simp]: "router_mover N (\<lambda>r. r)"
  by (simp add: router_mover_def moves_refl)

definition moving_calling :: "calling \<Rightarrow> bool" where
  "moving_calling k =
     (let N = news (cl_loading k) in
      router_mover N (cl_between k) \<and> mover N (cl_race k) \<and> list_all (turn_mover N) (cl_turns k) \<and>
      load_mover (cl_loading k))"

text \<open>
  A connection among others: wherever they are let in they do what the machine allows, nobody
  takes the number of the process this request starts, and during its relay nobody gives back the
  lease that is this request's own.
\<close>

definition moving_caller :: "caller \<Rightarrow> router \<Rightarrow> bool" where
  "moving_caller cn r =
     (router_mover (news (cl_loading (cn_calling cn))) (cn_reading cn) \<and>
      router_mover {} (cn_race cn) \<and> router_mover {} (cn_relaying cn) \<and> mover {} (cn_meanwhile cn) \<and>
      moving_calling (cn_calling cn) \<and> unborn (cl_loading (cn_calling cn)) (rt_slots r) \<and>
      (\<forall>a r2 ch. shared_child (cn_files cn) a (cn_calling cn) (cn_reading cn r) = Some (r2, Inr ch) \<longrightarrow>
        ch \<in># leases (rt_slots (cn_relaying cn r2))))"

lemma gets_shared:
  assumes "shared_child fs a k r = Some (r', x)" and "slots_ok (rt_slots r)"
    and "moving_calling k" and "unborn (cl_loading k) (rt_slots r)"
  shows "gets (rt_slots r) x (rt_slots r')"
proof -
  let ?N = "news (cl_loading k)" and ?r1 = "cl_between k r"
  have m: "moves ?N (rt_slots r) (rt_slots ?r1)"
    using assms(2,3) by (simp add: moving_calling_def Let_def router_moves_use)
  obtain s where c: "child_for fs (rt_catalog ?r1) a (rt_root ?r1) (cl_now k) (cl_race k)
      (cl_admitted k) (cl_turns k) (cl_loading k) (rt_slots ?r1) = Some (s, x)" and s: "rt_slots r' = s"
    using assms(1) by (auto simp: shared_child_def Let_def split: option.splits)
  have "gets (rt_slots ?r1) x s"
    using gets_child [OF c movesD [OF m]] unborn_later [OF assms(4) m] assms(3)
    by (simp add: moving_calling_def Let_def)
  with moves_gets [OF m] s show ?thesis by simp
qed

lemma moves_lease_drop:
  assumes "slots_ok s" and "ch \<in># leases s"
  shows "moves {} s (lease_drop ch s)"
  using custody_others [OF release [OF assms(2)] assms(1)] ok_lease_drop [OF assms]
  by (simp add: moves_def r_into_rtranclp)

lemma moves_answer_child:
  assumes "ch \<in># leases (rt_slots r)" and "ch \<in># leases (rt_slots (cn_relaying cn r))"
    and "slots_ok (rt_slots r)" and "router_mover {} (cn_relaying cn)"
  shows "moves {} (rt_slots r) (rt_slots (fst (answer_child cn before h buffered rest e ch r)))"
proof -
  have m: "moves {} (rt_slots r) (rt_slots (cn_relaying cn r))"
    using router_moves_use [OF assms(4,3)] .
  have "moves {} (rt_slots r) (touch i now (rt_slots (cn_relaying cn r)))" for i now
    using moves_trans [OF m moves_touch [OF movesD [OF m]]] .
  moreover have "leases (touch i now s) = leases s" for i now s
    by (simp add: touch_def split: option.split)
  ultimately have "moves {} (rt_slots r) (lease_drop ch (touch i now (rt_slots (cn_relaying cn r))))" for i now
    using moves_trans moves_lease_drop movesD assms(2) by metis
  with moves_lease_drop [OF assms(3,1)] show ?thesis
    by (auto simp: answer_child_def Let_def split: prod.split)
qed

lemma moves_answer_load:
  assumes "answer_load cn before e room r = Some (r', out)" and "slots_ok (rt_slots r)"
    and "moving_calling (cn_calling cn)" and "unborn (cl_loading (cn_calling cn)) (rt_slots r)"
  shows "moves {} (rt_slots r) (rt_slots r')"
proof -
  obtain r1 x where c: "shared_child (cn_files cn) \<lparr>a_entry = e, a_room = room\<rparr> (cn_calling cn) r = Some (r1, x)"
    using assms(1) by (auto simp: answer_load_def split: option.splits)
  have g: "gets (rt_slots r) x (rt_slots r1)" by (rule gets_shared [OF c assms(2-4)])
  show ?thesis
  proof (cases x)
    case (Inl f)
    with assms(1) c g show ?thesis by (auto simp: answer_load_def gets_def)
  next
    case (Inr ch)
    with g have "moves {} (rt_slots r) (rt_slots r1)" "ch \<in># leases (rt_slots r1)" by (simp_all add: gets_def)
    then have "moves {} (rt_slots r) (lease_drop ch (rt_slots r1))"
      using moves_lease_drop movesD by (blast intro: moves_trans)
    with assms(1) c Inr show ?thesis by (auto simp: answer_load_def)
  qed
qed

lemma moves_reload:
  assumes "slots_ok (rt_slots r)" and "router_mover {} race" and "mover {} meanwhile"
  shows "moves {} (rt_slots r) (rt_slots (fst (reload_catalog toml src race meanwhile r)))"
proof -
  have m: "moves {} (rt_slots r) (meanwhile (rt_slots (race r)))"
    using moves_later [OF assms(3) router_moves_use [OF assms(2,1)]] .
  then have "moves {} (rt_slots r) (resync c (meanwhile (rt_slots (race r))))" for c
    using moves_resync movesD by (blast intro: moves_trans)
  with moves_refl [OF assms(1)] show ?thesis
    by (auto simp: reload_catalog_def Let_def split: sum.split)
qed

lemma moves_to_model:
  assumes "to_model cn h room rest r = Some (r', out)" and "slots_ok (rt_slots r)" and "moving_caller cn r"
  shows "moves {} (rt_slots r) (rt_slots r')"
proof -
  let ?r1 = "cn_reading cn r" and ?k = "cn_calling cn"
  obtain before w where w: "model_wanted cn h rest = (before, w)" by fastforce
  have m: "moves (news (cl_loading ?k)) (rt_slots r) (rt_slots ?r1)"
    using assms(2,3) by (simp add: moving_caller_def router_moves_use)
  note ok = movesD [OF m] and first = moves_trans [OF moves_any [OF m]]
  have k: "moving_calling ?k" "unborn (cl_loading ?k) (rt_slots ?r1)"
    using assms(3) unborn_later [OF _ m] by (simp_all add: moving_caller_def)
  have between: "moves {} (rt_slots ?r1) (rt_slots (cl_between ?k ?r1))"
    using k(1) ok by (auto simp: moving_calling_def Let_def intro: moves_any router_moves_use)
  have "moves {} (rt_slots ?r1) (rt_slots r')"
    if found: "w = Inr (i, buffered, rest')" "catalog_entry (rt_catalog ?r1) i = Some e"
    for i buffered rest' e
  proof -
    consider (load) "h_endpoint h = Load" | (unload) "h_endpoint h = UnloadModel"
      | (model) "h_endpoint h \<noteq> Load" "h_endpoint h \<noteq> UnloadModel" by blast
    then show ?thesis
    proof cases
      case load
      with assms(1) w found have "answer_load cn before e room ?r1 = Some (r', out)"
        by (simp add: to_model_def Let_def)
      from moves_answer_load [OF this ok k] show ?thesis .
    next
      case unload
      with assms(1) w found moves_let_go [OF ok, of "{}" "e_id e"] show ?thesis
        by (auto simp: to_model_def answer_unload_def Let_def split: prod.splits)
    next
      case model
      with assms(1) w found obtain r2 x where c: "shared_child (cn_files cn)
          \<lparr>a_entry = e, a_room = room\<rparr> ?k ?r1 = Some (r2, x)"
        and ends: "case x of Inl f \<Rightarrow> r' = r2
          | Inr child \<Rightarrow> r' = fst (answer_child cn before h buffered rest' e child r2)"
        by (auto simp: to_model_def Let_def split: option.splits sum.splits endpoint.splits)
      have g: "gets (rt_slots ?r1) x (rt_slots r2)" by (rule gets_shared [OF c ok k])
      show ?thesis
      proof (cases x)
        case (Inl f)
        with g ends show ?thesis by (simp add: gets_def)
      next
        case (Inr ch)
        with g have m2: "moves {} (rt_slots ?r1) (rt_slots r2)" "ch \<in># leases (rt_slots r2)"
          by (simp_all add: gets_def)
        have "ch \<in># leases (rt_slots (cn_relaying cn r2))" "router_mover {} (cn_relaying cn)"
          using assms(3) c Inr unfolding moving_caller_def by blast+
        from moves_answer_child [OF m2(2) this(1) movesD [OF m2(1)] this(2)] m2(1) ends Inr
        show ?thesis by (auto intro: moves_trans)
      qed
    qed
  qed
  with assms(1) w moves_refl [OF assms(2)] first first [OF between] show ?thesis
    by (auto simp: to_model_def Let_def split: sum.splits option.splits)
qed

lemma answer_reload_router:
  "fst (answer_reload cn r) =
     fst (reload_catalog (cn_toml cn) (cn_catalog cn) (cn_race cn) (cn_meanwhile cn) r)"
  by (auto simp: answer_reload_def split: prod.split sum.split)

lemma moves_answer:
  assumes "answer_to cn r = Some (r', out)" and "slots_ok (rt_slots r)" and "moving_caller cn r"
  shows "moves {} (rt_slots r) (rt_slots r')"
proof (cases "screened cn (rt_access r)")
  case (Inl rp)
  with assms show ?thesis by (simp add: answer_to_def moves_refl)
next
  case (Inr x)
  then obtain h room rest where s: "screened cn (rt_access r) = Inr (h, room, rest)" by (cases x) auto
  show ?thesis
  proof (cases "h_endpoint h = Reload")
    case True
    have "moves {} (rt_slots r) (rt_slots (fst (answer_reload cn r)))"
      using moves_reload [OF assms(2)] assms(3) by (simp add: moving_caller_def answer_reload_router)
    with True assms(1) s show ?thesis by (simp add: answer_to_def Let_def)
  next
    case False
    with assms s have "r' = r \<or> to_model cn h room rest r = Some (r', out)"
      by (auto simp: answer_to_def Let_def split: endpoint.splits)
    with moves_to_model [OF _ assms(2,3)] moves_refl [OF assms(2)] show ?thesis by auto
  qed
qed

section \<open>Who the others are\<close>

text \<open>
  What may come in between is met by the program's own threads: the reaper's sweeps, an unload on
  request, a lease dropped, and another connection being answered from its first byte to its last.
\<close>

lemma sweeps_are_movers:
  "mover N (sweep_exited c)" "mover N (\<lambda>s. fst (sweep_idle c w now s))" "mover N (\<lambda>s. fst (let_go i s))"
  "loads_nothing (sweep_exited c)" "loads_nothing (\<lambda>s. fst (sweep_idle c w now s))"
  "loads_nothing (\<lambda>s. fst (let_go i s))"
  using moves_quietly [OF quietly_idles idles.gives_up_only] quietly_exits quietly_idles quietly_let_go
  by (auto simp: mover_def loads_nothing_def moves_sweep moves_let_go quietly_def)

lemma releases_are_movers: "mover {} (\<lambda>s. if ch \<in># leases s then lease_drop ch s else s)"
  by (simp add: mover_def moves_refl moves_lease_drop)

lemma answers_are_movers:
  assumes "\<And>r. slots_ok (rt_slots r) \<Longrightarrow> moving_caller cn r"
  shows "router_mover {} (\<lambda>r. case answer_to cn r of None \<Rightarrow> r | Some (r', _) \<Rightarrow> r')"
  using moves_answer assms by (auto simp: router_mover_def moves_refl split: option.split)

end
