(* ===== verification/Request_Claims.thy ===== *)
theory Request_Claims
  imports Answer_Claims Stub_Claims Custody_Runs
begin

text \<open>
  A request from the caller to the child: whose child it is handed to, and what that child reads,
  over the whole of \<open>answer_to\<close> -- the head, the look-up, admission and its wait, the load, and the
  relay.
\<close>

section \<open>Whose child is handed out\<close>

text \<open>The child a slot holds for an identifier.\<close>

definition has_child :: "slots \<Rightarrow> string \<Rightarrow> nat \<Rightarrow> bool" where
  "has_child s i ch = (map_option s_child (held_in s i) = Some ch)"

lemma has_child_running: "running e now s = (s', Some ch) \<Longrightarrow> has_child s' (e_id e) ch"
  by (cases rule: running_cases) (auto simp: has_child_def)

lemma has_child_leave [simp]: "has_child (leave_line ticket s) i ch = has_child s i ch"
  by (simp add: has_child_def leave_line_def split: prod.split)

lemma has_child_insert:
  "insert_child i new s = (s', ch) \<Longrightarrow> has_child s' i ch"
  by (auto simp: has_child_def insert_child_def Let_def split: option.splits)

lemma has_child_room:
  "room_for fs c a root now ts s = Some (s', Inr (Some ch)) \<Longrightarrow> has_child s' (e_id (a_entry a)) ch"
  by (erule room_found) (simp add: has_child_running)

lemma has_child_admitted:
  assumes "admit_entry fs c a root now ts ld s = Some (s', Inr ch)"
  shows "has_child s' (e_id (a_entry a)) ch"
  using assms
  by (auto simp: admit_entry_def Let_def has_child_room has_child_insert
      split: option.splits sum.splits prod.splits)

lemma has_child_shared:
  assumes "shared_child fs a k r = Some (r', Inr ch)"
  shows "has_child (rt_slots r') (e_id (a_entry a)) ch"
  using assms
  by (auto simp: shared_child_def child_for_def Let_def has_child_running has_child_admitted
      split: option.splits prod.splits)

section \<open>What that child is sent\<close>

lemma answer_child_sends:
  assumes "oc_sent (snd (answer_child cn before h buffered rest e ch r)) = Some (child, sent)"
  shows "child = ch \<and> cn_upstream cn \<noteq> Refuses \<and>
    (\<exists>ok left. relay_request (cn_upstream cn) (cn_chunk cn) h (cn_endpoint cn ch) buffered rest =
      ((ok, sent), left))"
  using assms by (auto simp: answer_child_def Let_def split: if_splits prod.splits)

text \<open>A body read to find the model it names is the body that is sent.\<close>

lemma wanted_body:
  assumes "model_wanted cn h rest = (before, Inr (i, Some bytes, rest'))"
  shows "bytes = take (body_bytes h) (i_bytes rest)"
proof -
  from assms obtain n rest2 where "h_length h = Given n"
      "body_read (cn_err cn) (model_of (cn_json cn)) n rest = (Inr (bytes, i), rest2)"
    by (auto simp: model_wanted_def declared_body_def
        split: endpoint.splits length_header.splits if_splits sum.splits prod.splits)
  then show ?thesis
    by (auto simp: body_read_def take_exact_def body_bytes_def split: sum.splits option.splits if_splits)
qed

lemma wanted_unread:
  assumes "model_wanted cn h rest = (before, Inr (i, None, rest'))"
  shows "rest' = rest"
  using assms by (auto simp: model_wanted_def split: endpoint.splits sum.splits if_splits prod.splits)

text \<open>What is sent is always the beginning of the rewritten head and the body declared.\<close>

lemma sent_prefix:
  assumes "model_wanted cn h rest = (before, Inr (i, buffered, rest'))"
    and "relay_request up chunk h endpoint buffered rest' = ((ok, sent), left)" and "up \<noteq> Refuses"
  shows "prefix sent (rewrite h endpoint @ take (body_bytes h) (i_bytes rest))"
proof -
  obtain ok1 sent1 where head: "up_write up [] (rewrite h endpoint) = (ok1, sent1)" by fastforce
  show ?thesis
  proof (cases ok1)
    case False
    then have "sent = sent1" using assms(2,3) head by (simp add: relay_request_def)
    then show ?thesis using up_write_prefix(1) [OF head] by simp
  next
    case True
    then have sent1: "sent1 = rewrite h endpoint" using up_write_prefix(2) [OF head] by simp
    show ?thesis
    proof (cases buffered)
      case None
      then have "sent = snd (fst (forward_body up chunk h sent1 rest'))"
        using assms(2,3) head True by (auto simp: relay_request_def split: prod.splits)
      then show ?thesis
        using forward_loop_prefix [of up chunk 0 "body_bytes h" sent1 rest'] sent1
          wanted_unread [of cn h rest before i rest'] assms(1) None
        by (simp add: forward_body_def)
    next
      case (Some bytes)
      then have "up_write up sent1 bytes = (ok, sent)"
        using assms(2,3) head True by (simp add: relay_request_def)
      then show ?thesis using up_write_prefix(1) wanted_body assms(1) Some sent1 by fastforce
    qed
  qed
qed

text \<open>All of it is, when the body arrived and the child takes as much.\<close>

lemma sent_body:
  assumes "model_wanted cn h rest = (before, Inr (i, buffered, rest'))"
    and "relay_request up chunk h endpoint buffered rest' = ((ok, sent), left)" and "up \<noteq> Refuses"
    and "body_bytes h \<le> length (i_bytes rest)"
    and "takes_enough up (length (rewrite h endpoint) + body_bytes h)"
  shows "sent = rewrite h endpoint @ take (body_bytes h) (i_bytes rest)"
proof -
  have head: "up_write up [] (rewrite h endpoint) = (True, rewrite h endpoint)"
    using up_write_enough [of up "[]" "rewrite h endpoint"] takes_enough_less [OF assms(5)] by simp
  show ?thesis
  proof (cases buffered)
    case None
    then show ?thesis
      using assms(2,3) head wanted_unread [of cn h rest before i rest'] assms(1)
        forward_loop_exact [OF assms(5)]
      by (auto simp: relay_request_def forward_body_def split: prod.splits)
  next
    case (Some bytes)
    then have bytes: "bytes = take (body_bytes h) (i_bytes rest)" using wanted_body assms(1) by blast
    then have "up_write up (rewrite h endpoint) bytes = (True, rewrite h endpoint @ bytes)"
      using assms(4,5) by (intro up_write_enough) simp
    with Some assms(2,3) head bytes show ?thesis by (simp add: relay_request_def)
  qed
qed

lemma refusals_send_nothing [simp]:
  "oc_sent (turned_away cn before rf) = None" "oc_sent (answered cn before x) = None"
  by (simp_all add: turned_away_def answered_def split: sum.split)

lemma to_model_sends:
  assumes "to_model cn h room rest r = Some (r', out)" and "oc_sent out = Some (child, sent)"
  obtains before i buffered rest' e r2 ok left
  where "model_wanted cn h rest = (before, Inr (i, buffered, rest'))"
    and "catalog_entry (rt_catalog (cn_reading cn r)) i = Some e"
    and "shared_child (cn_files cn) \<lparr>a_entry = e, a_room = room\<rparr> (cn_calling cn) (cn_reading cn r) =
      Some (r2, Inr child)"
    and "relay_request (cn_upstream cn) (cn_chunk cn) h (cn_endpoint cn child) buffered rest' =
      ((ok, sent), left)"
    and "cn_upstream cn \<noteq> Refuses"
proof -
  obtain before w where w: "model_wanted cn h rest = (before, w)" by fastforce
  obtain i buffered rest' where found: "w = Inr (i, buffered, rest')"
    using assms w by (cases w) (auto simp: to_model_def split: option.splits)
  obtain e where e: "catalog_entry (rt_catalog (cn_reading cn r)) i = Some e"
    using assms w found by (cases "catalog_entry (rt_catalog (cn_reading cn r)) i")
      (auto simp: to_model_def Let_def)
  have "h_endpoint h \<noteq> Load" "h_endpoint h \<noteq> UnloadModel"
    using assms w found e
    by (auto simp: to_model_def Let_def answer_load_def answer_unload_def
        split: option.splits sum.splits prod.splits)
  then have m: "(case shared_child (cn_files cn) \<lparr>a_entry = e, a_room = room\<rparr> (cn_calling cn) (cn_reading cn r) of
        None \<Rightarrow> None
      | Some (r2, Inl f) \<Rightarrow> Some (r2, turned_away cn before (refusal_from f))
      | Some (r2, Inr ch) \<Rightarrow> Some (answer_child cn before h buffered rest' e ch r2)) = Some (r', out)"
    using assms(1) w found e by (cases "h_endpoint h") (simp_all add: to_model_def Let_def)
  with assms(2) obtain r2 ch where
      c: "shared_child (cn_files cn) \<lparr>a_entry = e, a_room = room\<rparr> (cn_calling cn) (cn_reading cn r) =
        Some (r2, Inr ch)"
    by (auto split: option.splits sum.splits)
  with m have "out = snd (answer_child cn before h buffered rest' e ch r2)" by simp
  then have "child = ch" and "cn_upstream cn \<noteq> Refuses"
    and "\<exists>ok left. relay_request (cn_upstream cn) (cn_chunk cn) h (cn_endpoint cn child) buffered rest' =
      ((ok, sent), left)"
    using answer_child_sends assms(2) by blast+
  with that w found e c show ?thesis by blast
qed

lemma screened_read:
  assumes "screened cn ac = Inr (h', room, rest')"
    and "head_read (cn_err cn) (cn_input cn) = (Inr lines, rest)" and "head_parse lines = Inr h"
  shows "h' = h \<and> rest' = rest" and "plain_method (h_method h)"
  using screenedD [OF assms(1)] assms(2,3) allowed_methods(1) by (fastforce simp: plain_method_def)+

section \<open>Properties of a request\<close>

text \<open>C6: A request goes to the child of the model it names and to no other: whatever is sent to a
  child goes to the one that the slot of the named model holds when it is handed out -- running
  already, found while waiting, or started for this request -- and is the beginning of the
  rewritten head and the declared body. That child reads back the request line with the path's
  suffix, the caller's headers but for the connection's own, and exactly the caller's body, with
  nothing left over, provided the head says its length at most once, the rewritten head is
  within the child's limit, the whole body has arrived, and the connection to the child takes
  all of it. (A length said twice is \<open>repeated_length_is_framed_apart\<close>.)\<close>

theorem request_reaches_its_models_child:
  assumes "answer_to cn r = Some (r', out)" and "oc_sent out = Some (child, sent)"
    and "head_read (cn_err cn) (cn_input cn) = (Inr lines, rest)" and "head_parse lines = Inr h"
    and "list_all visible (cn_endpoint cn child)" and "cn_endpoint cn child \<noteq> []"
  shows "(\<exists>i e room r2. names_model cn h rest i \<and> catalog_entry (rt_catalog (cn_reading cn r)) i = Some e \<and>
      shared_child (cn_files cn) \<lparr>a_entry = e, a_room = room\<rparr> (cn_calling cn) (cn_reading cn r) =
        Some (r2, Inr child) \<and>
      has_child (rt_slots r2) i child) \<and>
    prefix sent (rewrite h (cn_endpoint cn child) @ take (body_bytes h) (i_bytes rest)) \<and>
    (length (lengths_said h) \<le> 1 \<and> length (rewrite h (cn_endpoint cn child)) \<le> HEAD_LIMIT \<and>
      body_bytes h \<le> length (i_bytes rest) \<and>
      takes_enough (cn_upstream cn) (length (rewrite h (cn_endpoint cn child)) + body_bytes h) \<longrightarrow>
      stub_read_request \<lparr>i_bytes = sent, i_end = e\<rparr> =
        (Inr (relayed h (cn_endpoint cn child), take (body_bytes h) (i_bytes rest)),
         \<lparr>i_bytes = [], i_end = e\<rparr>))"
proof -
  obtain room where s: "screened cn (rt_access r) = Inr (h, room, rest)"
      and plain: "plain_method (h_method h)"
    using assms(1,2) screened_read [OF _ assms(3,4)]
    by (cases "screened cn (rt_access r)") (auto simp: answer_to_def told_def)
  have "to_model cn h room rest r = Some (r', out)"
    using assms(1,2) s
    by (auto simp: answer_to_def told_def answer_reload_def Let_def
        split: endpoint.splits prod.splits sum.splits)
  from to_model_sends [OF this assms(2)] obtain before i buffered rest' en r2 ok left where
    w: "model_wanted cn h rest = (before, Inr (i, buffered, rest'))"
    and en: "catalog_entry (rt_catalog (cn_reading cn r)) i = Some en"
    and c: "shared_child (cn_files cn) \<lparr>a_entry = en, a_room = room\<rparr> (cn_calling cn) (cn_reading cn r) =
      Some (r2, Inr child)"
    and rel: "relay_request (cn_upstream cn) (cn_chunk cn) h (cn_endpoint cn child) buffered rest' =
      ((ok, sent), left)" "cn_upstream cn \<noteq> Refuses"
    by blast
  have "stub_read_request \<lparr>i_bytes = sent, i_end = e\<rparr> =
        (Inr (relayed h (cn_endpoint cn child), take (body_bytes h) (i_bytes rest)),
         \<lparr>i_bytes = [], i_end = e\<rparr>)"
    if "length (lengths_said h) \<le> 1" "length (rewrite h (cn_endpoint cn child)) \<le> HEAD_LIMIT"
      "body_bytes h \<le> length (i_bytes rest)"
      "takes_enough (cn_upstream cn) (length (rewrite h (cn_endpoint cn child)) + body_bytes h)"
    unfolding sent_body [OF w rel that(3,4)]
    using that(3) by (intro stub_reads_relayed [OF assms(3,4) plain assms(5,6) that(1,2)]) simp
  then show ?thesis
    using model_wanted_names [OF w] en c has_child_shared [OF c] catalog_entry_Some [OF en]
      sent_prefix [OF w rel] by auto
qed

theorem request_reaches_its_models_child_witness:
  "\<exists>r' out sent. answer_to demo_caller demo_router = Some (r', out) \<and> oc_sent out = Some (7, sent) \<and>
     (\<exists>e room r2. shared_child (cn_files demo_caller) \<lparr>a_entry = e, a_room = room\<rparr> demo_calling demo_router =
        Some (r2, Inr 7) \<and> has_child (rt_slots r2) ''m'' 7) \<and>
     stub_read_request \<lparr>i_bytes = sent, i_end = Closed\<rparr> =
       (Inr ([''GET /x HTTP/1.1'', ''Host: 127.0.0.1:9'', ''Connection: close''], []),
        \<lparr>i_bytes = [], i_end = Closed\<rparr>)"
proof -
  obtain r' out sent where a: "answer_to demo_caller demo_router = Some (r', out)" "oc_sent out = Some (7, sent)"
    using demo_answered by blast
  have up: "cn_endpoint demo_caller 7 = ''127.0.0.1:9''" by (simp add: demo_caller_def)
  have "length (lengths_said demo_head) \<le> 1" "length (rewrite demo_head ''127.0.0.1:9'') \<le> HEAD_LIMIT"
    "body_bytes demo_head = 0" "list_all visible ''127.0.0.1:9''"
    "relayed demo_head ''127.0.0.1:9'' = [''GET /x HTTP/1.1'', ''Host: 127.0.0.1:9'', ''Connection: close'']"
    by (simp_all add: demo_head_def lengths_said_def rewrite_def relayed_def crlf_def HEAD_LIMIT_def
        body_bytes_def visible_def)
  moreover have "takes_enough (cn_upstream demo_caller) n" for n
    by (simp add: takes_enough_def demo_caller_def)
  moreover have "names_model demo_caller demo_head inp i \<Longrightarrow> i = ''m''" for inp i
    by (simp add: names_model_def demo_head_def)
  ultimately show ?thesis
    using request_reaches_its_models_child [OF a demo_read, of Closed] a up
    by (fastforce simp: demo_caller_def)
qed

text \<open>C7: Answering a connection is a run of the custody machine: whatever is asked, however it
  ends, and whatever the other threads do meanwhile -- loading, lending, giving back, unloading
  what nobody reads, at every point where the code lets them in -- the slots stay well formed and
  what happens to the children is a sequence of lendings, givings back, givings up and loads,
  so no step of the request takes a child from a slot while anyone reads from it.\<close>

theorem answering_is_a_custody_run:
  assumes "answer_to cn r = Some (r', out)" and "slots_ok (rt_slots r)" and "moving_caller cn r"
  shows "slots_ok (rt_slots r') \<and> custody_call\<^sup>*\<^sup>* (custody_of (rt_slots r)) (custody_of (rt_slots r'))"
  using moves_answer [OF assms] by (simp add: moves_def)

theorem answering_is_a_custody_run_witness:
  "\<exists>r' out sent. answer_to demo_caller demo_router = Some (r', out) \<and> oc_sent out = Some (7, sent) \<and>
     custody_call\<^sup>*\<^sup>* (custody_of demo_loaded) (custody_of (rt_slots r'))"
proof -
  obtain r' out sent where a: "answer_to demo_caller demo_router = Some (r', out)" "oc_sent out = Some (7, sent)"
    using demo_answered by blast
  have slots: "rt_slots demo_router = demo_loaded" by (simp add: demo_router_def)
  have ok: "slots_ok demo_loaded" using reachable_steady [OF demo_reached] by (simp add: steady_def)
  have k: "moving_calling demo_calling" "news (cl_loading demo_calling) = {}"
    by (simp_all add: moving_calling_def load_mover_def news_def demo_calling_def demo_load_def)
  have "ch \<in># leases (rt_slots r2)"
    if "shared_child (cn_files demo_caller) b demo_calling demo_router = Some (r2, Inr ch)" for b r2 ch
    using gets_shared [OF that] k ok slots by (simp add: gets_def unborn_def)
  with k have "moving_caller demo_caller demo_router"
    by (simp add: moving_caller_def unborn_def demo_caller_def)
  with answering_is_a_custody_run [OF a(1)] ok slots a show ?thesis by auto
qed

end
