(* ===== verification/Gguf_Facts.thy ===== *)
theory Gguf_Facts
  imports Gguf
begin

text \<open>
  Reading back what the format writes: an encoder for metadata, what each pair means, and the
  proof that reading an encoded file yields exactly the meaning of its pairs and that reading
  any proper prefix of it is a fault.
\<close>

section \<open>Where a reader stands\<close>

definition advance :: "nat \<Rightarrow> reader \<Rightarrow> reader" where
  "advance n r = r\<lparr>g_pos := g_pos r + n\<rparr>"

definition stands :: "reader \<Rightarrow> string \<Rightarrow> bool" where
  "stands r s =
     (g_pos r \<le> length (g_bytes r) \<and> length (g_bytes r) < 2 ^ 63 \<and> drop (g_pos r) (g_bytes r) = s)"

lemma advance_simps [simp]:
  "advance 0 r = r"
  "advance m (advance n r) = advance (n + m) r"
  "g_bytes (advance n r) = g_bytes r"
  "g_pos (advance n r) = g_pos r + n"
  by (simp_all add: advance_def)

lemma stands_advance: "stands r (a @ b) \<Longrightarrow> stands (advance (length a) r) b"
proof -
  assume r: "stands r (a @ b)"
  then have "length (g_bytes r) - g_pos r = length a + length b"
    by (metis length_append length_drop stands_def)
  with r have "g_pos r + length a \<le> length (g_bytes r)" by (auto simp: stands_def)
  moreover have "drop (g_pos r + length a) (g_bytes r) = b"
    using r by (metis append_eq_conv_conj drop_drop add.commute stands_def)
  ultimately show ?thesis using r by (simp add: stands_def)
qed

lemma read_stands:
  assumes "stands r (a @ b)" and "length a = n"
  shows "read_exact n r = Inr (a, advance n r)"
proof -
  have "g_pos r + n \<le> length (g_bytes r)"
    using stands_advance [OF assms(1)] assms(2) by (simp add: stands_def)
  moreover have "take n (drop (g_pos r) (g_bytes r)) = a" using assms by (simp add: stands_def)
  ultimately show ?thesis using assms(2) by (auto simp: read_exact_def advance_def)
qed

lemma skip_stands:
  assumes "stands r (a @ b)" and "length a = n"
  shows "skip_bytes r n = Inr (advance n r)"
proof -
  have "g_pos r + n \<le> length (g_bytes r)" and "length (g_bytes r) < 2 ^ 63"
    using stands_advance [OF assms(1)] assms by (simp_all add: stands_def)
  then show ?thesis by (simp add: skip_bytes_def advance_def)
qed

section \<open>The encoder\<close>

fun enc_le :: "nat \<Rightarrow> nat \<Rightarrow> string" where
  "enc_le 0 n = []"
| "enc_le (Suc k) n = char_of (n mod 256) # enc_le k (n div 256)"

lemma length_enc_le [simp]: "length (enc_le k n) = k"
  by (induction k arbitrary: n) simp_all

lemma le_nat_enc [simp]: "n < 256 ^ k \<Longrightarrow> le_nat (enc_le k n) = n"
proof (induction k arbitrary: n)
  case 0
  then show ?case by simp
next
  case (Suc k)
  then have "n div 256 < 256 ^ k" by (simp add: less_mult_imp_div_less mult.commute)
  with Suc.IH show ?case by simp
qed

definition enc_text :: "string \<Rightarrow> string" where
  "enc_text s = enc_le 8 (length s) @ s"

definition scalar_width :: "nat \<Rightarrow> nat" where
  "scalar_width kind = (case width kind of Inl _ \<Rightarrow> 0 | Inr w \<Rightarrow> w)"

definition enc_scalar :: "nat \<Rightarrow> nat \<Rightarrow> string" where
  "enc_scalar kind n = enc_le (scalar_width kind) n"

datatype gvalue =
    GText string | GScalar nat nat | GTexts "string list" | GScalars nat "nat list"

fun kind_tag :: "gvalue \<Rightarrow> nat" where
  "kind_tag (GText _) = 8"
| "kind_tag (GScalar kind _) = kind"
| "kind_tag (GTexts _) = 9"
| "kind_tag (GScalars _ _) = 9"

fun enc_value :: "gvalue \<Rightarrow> string" where
  "enc_value (GText s) = enc_text s"
| "enc_value (GScalar kind n) = enc_scalar kind n"
| "enc_value (GTexts ss) = enc_le 4 8 @ enc_le 8 (length ss) @ concat (map enc_text ss)"
| "enc_value (GScalars kind ns) =
     enc_le 4 kind @ enc_le 8 (length ns) @ concat (map (enc_scalar kind) ns)"

definition enc_pair :: "string \<times> gvalue \<Rightarrow> string" where
  "enc_pair p = enc_text (fst p) @ enc_le 4 (kind_tag (snd p)) @ enc_value (snd p)"

definition enc_file :: "nat \<Rightarrow> (string \<times> gvalue) list \<Rightarrow> string" where
  "enc_file tensors ps =
     ''GGUF'' @ enc_le 4 3 @ enc_le 8 tensors @ enc_le 8 (length ps) @ concat (map enc_pair ps)"

section \<open>What a pair means\<close>

definition scalar_means :: "nat \<Rightarrow> nat \<Rightarrow> nat option" where
  "scalar_means kind n =
     (if kind \<in> {0, 2, 4, 10} then Some n
      else if kind = 7 then Some (if n = 0 then 0 else 1)
      else if kind \<in> {1, 3, 5, 11} then (if 2 * n < 256 ^ scalar_width kind then Some n else None)
      else None)"

definition keep_layers :: "metadata \<Rightarrow> string \<Rightarrow> nat option list \<Rightarrow> metadata" where
  "keep_layers m key xs =
     (let ns = List.map_filter id xs in
      if ns = [] then m
      else m\<lparr>m_numbers := tree_insert key (Max (set ns)) (m_numbers m),
             m_layers := tree_insert key ns (m_layers m)\<rparr>)"

fun learn :: "metadata \<Rightarrow> string \<times> gvalue \<Rightarrow> metadata" where
  "learn m (key, GText s) =
     (if key = ''general.architecture''
      then m\<lparr>m_architecture := (if length s \<le> 256 then Some s else None)\<rparr> else m)"
| "learn m (key, GScalar kind n) =
     (case scalar_means kind n of
        Some x \<Rightarrow>
          if starts_with ''tokenizer.'' key then m
          else m\<lparr>m_numbers := tree_insert key x (m_numbers m)\<rparr>
      | None \<Rightarrow> m)"
| "learn m (key, GTexts _) = m"
| "learn m (key, GScalars kind ns) =
     (if is_per_layer key then keep_layers m key (map (scalar_means kind) ns) else m)"

definition scalar_ok :: "nat \<Rightarrow> nat \<Rightarrow> bool" where
  "scalar_ok kind n = (\<not> isl (width kind) \<and> n < 256 ^ scalar_width kind)"

fun gvalue_ok :: "string \<Rightarrow> gvalue \<Rightarrow> bool" where
  "gvalue_ok key (GText s) = utf8_valid s"
| "gvalue_ok key (GScalar kind n) = scalar_ok kind n"
| "gvalue_ok key (GTexts ss) = True"
| "gvalue_ok key (GScalars kind ns) =
     (\<not> isl (width kind) \<and> list_all (scalar_ok kind) ns \<and>
      (is_per_layer key \<longrightarrow> length ns \<le> MAX_LAYER_ARRAY))"

definition pair_ok :: "string \<times> gvalue \<Rightarrow> bool" where
  "pair_ok p = (length (fst p) \<le> MAX_KEY_BYTES \<and> utf8_valid (fst p) \<and> gvalue_ok (fst p) (snd p))"

section \<open>Reading what was written\<close>

lemma stands_small: "stands r (a @ b) \<Longrightarrow> length a < 2 ^ 63"
  using stands_advance [of r a b] by (simp add: stands_def)

lemma stands_skip2: "stands r (a @ b @ c) \<Longrightarrow> stands (advance (length a + length b) r) c"
  using stands_advance [of r "a @ b" c] by simp

lemma u32_stands:
  assumes "stands r (enc_le 4 n @ b)" and "n < 2 ^ 32"
  shows "u32_at r = Inr (n, advance 4 r)"
  using read_stands [OF assms(1)] assms(2) by (simp add: u32_at_def)

lemma u64_stands:
  assumes "stands r (enc_le 8 n @ b)" and "n < 2 ^ 64"
  shows "u64_at r = Inr (n, advance 8 r)"
  using read_stands [OF assms(1)] assms(2) by (simp add: u64_at_def)

lemma length_enc_text [simp]: "length (enc_text s) = 8 + length s"
  by (simp add: enc_text_def)

lemma text_stands:
  assumes "stands r (enc_text s @ b)"
  shows "text_at r keep =
    Inr (if length s \<le> keep then Some (utf8_lossy s) else None, advance (length (enc_text s)) r)"
proof -
  have r: "stands r (enc_le 8 (length s) @ s @ b)" using assms by (simp add: enc_text_def)
  have "length s < 2 ^ 64" using stands_small [OF assms] by simp
  then have u: "u64_at r = Inr (length s, advance 8 r)" by (rule u64_stands [OF r])
  have s: "stands (advance 8 r) (s @ b)" using stands_advance [OF r] by simp
  show ?thesis
    by (simp add: text_at_def u read_stands [OF s] skip_stands [OF s])
qed

lemma scalar_stands:
  assumes "stands r (enc_scalar kind n @ b)" and "scalar_ok kind n"
  shows "scalar_at r kind = Inr (scalar_means kind n, advance (length (enc_scalar kind n)) r)"
proof -
  obtain w where w: "width kind = Inr w" using assms(2) by (cases "width kind") (simp_all add: scalar_ok_def)
  have sw: "scalar_width kind = w" by (simp add: scalar_width_def w)
  have "read_exact w r = Inr (enc_scalar kind n, advance w r)"
    by (rule read_stands [OF assms(1)]) (simp add: enc_scalar_def sw)
  have "le_nat (enc_scalar kind n) = n" "length (enc_scalar kind n) = w"
    using assms(2) by (simp_all add: enc_scalar_def scalar_ok_def sw)
  then have "unsigned_scalar kind (enc_scalar kind n) = scalar_means kind n"
    by (simp only: unsigned_scalar_def scalar_means_def sw)
  moreover note \<open>read_exact w r = Inr (enc_scalar kind n, advance w r)\<close>
    \<open>length (enc_scalar kind n) = w\<close>
  ultimately show ?thesis by (simp add: scalar_at_def w)
qed

lemma scalars_stands:
  assumes "stands r (concat (map (enc_scalar kind) ns) @ b)" and "list_all (scalar_ok kind) ns"
  shows "scalars_at kind r (length ns) =
    Inr (map (scalar_means kind) ns, advance (length (concat (map (enc_scalar kind) ns))) r)"
  using assms
proof (induction ns arbitrary: r)
  case Nil
  then show ?case by simp
next
  case (Cons n ns)
  then have r: "stands r (enc_scalar kind n @ concat (map (enc_scalar kind) ns) @ b)" by simp
  from Cons.IH [OF stands_advance [OF r]] Cons.prems(2) scalar_stands [OF r]
  show ?case by (simp add: add.commute)
qed

lemma texts_stands:
  assumes "stands r (concat (map enc_text ss) @ b)"
  shows "skip_texts r (length ss) = Inr (advance (length (concat (map enc_text ss))) r)"
  using assms
proof (induction ss arbitrary: r)
  case Nil
  then show ?case by simp
next
  case (Cons s ss)
  then have r: "stands r (enc_text s @ concat (map enc_text ss) @ b)" by simp
  from Cons.IH [OF stands_advance [OF r]] text_stands [OF r, of 0]
  show ?case by (simp add: ac_simps)
qed

lemma Max_insert_max: "finite S \<Longrightarrow> Max (insert (max a b) S) = Max (insert a (insert b S))"
  by (cases "S = {}") (simp_all add: max.assoc)

lemma foldl_largest:
  "foldl max_option (Some m) xs = Some (Max (insert m (set (List.map_filter id xs))))"
proof (induction xs arbitrary: m)
  case Nil
  then show ?case by (simp add: List.map_filter_simps)
next
  case (Cons x xs)
  then show ?case
    by (cases x) (simp_all add: List.map_filter_simps max_option_def Max_insert_max del: Max_insert)
qed

lemma largest_Max:
  "largest xs = (if List.map_filter id xs = [] then None else Some (Max (set (List.map_filter id xs))))"
proof (induction xs)
  case Nil
  then show ?case by (simp add: largest_def List.map_filter_simps)
next
  case (Cons x xs)
  then show ?case
    by (cases x) (simp_all add: largest_def List.map_filter_simps max_option_def foldl_largest id_def)
qed

lemma length_enc_scalars:
  "length (concat (map (enc_scalar kind) ns)) = length ns * scalar_width kind"
  by (induction ns) (simp_all add: enc_scalar_def)

lemma layer_array_means:
  assumes "scalars_at kind r n = Inr (xs, r')" and "n \<le> MAX_LAYER_ARRAY"
  shows "layer_array m r key kind n = Inr (keep_layers m key xs, r')"
  using assms by (simp add: layer_array_def keep_layers_def largest_Max Let_def)

lemma scalar_kind: "\<not> isl (width kind) \<Longrightarrow> kind < 2 ^ 32 \<and> kind \<noteq> 8 \<and> kind \<noteq> 9"
  by (auto simp: width_def split: if_splits)

lemma array_stands:
  assumes "stands r (enc_value v @ b)" and "gvalue_ok key v" and "kind_tag v = 9"
    and "\<And>kind n. v \<noteq> GScalar kind n"
  shows "array_at m r key = Inr (learn m (key, v), advance (length (enc_value v)) r)"
proof (cases v)
  case (GTexts ss)
  let ?c = "concat (map enc_text ss)"
  have r: "stands r (enc_le 4 8 @ enc_le 8 (length ss) @ ?c @ b)" using assms(1) by (simp add: GTexts)
  have r1: "stands (advance 4 r) (enc_le 8 (length ss) @ ?c @ b)" using stands_advance [OF r] by simp
  have r2: "stands (advance 12 r) (?c @ b)" using stands_advance [OF r1] by simp
  have "8 * length ss \<le> length ?c" by (induction ss) simp_all
  then have "length ss < 2 ^ 64" using stands_small [OF r2] by simp
  then show ?thesis
    using u32_stands [OF r] u64_stands [OF r1] texts_stands [OF r2]
    by (simp add: array_at_def GTexts)
next
  case (GScalars kind ns)
  let ?c = "concat (map (enc_scalar kind) ns)"
  have r: "stands r (enc_le 4 kind @ enc_le 8 (length ns) @ ?c @ b)" using assms(1) by (simp add: GScalars)
  have r1: "stands (advance 4 r) (enc_le 8 (length ns) @ ?c @ b)" using stands_advance [OF r] by simp
  have r2: "stands (advance 12 r) (?c @ b)" using stands_advance [OF r1] by simp
  from assms(2) have ok: "\<not> isl (width kind)" "list_all (scalar_ok kind) ns"
    "is_per_layer key \<longrightarrow> length ns \<le> MAX_LAYER_ARRAY" by (simp_all add: GScalars)
  then obtain w where w: "width kind = Inr w" by (cases "width kind") simp_all
  have len: "length ?c = length ns * w" by (simp add: length_enc_scalars scalar_width_def w)
  have "0 < w" using w by (auto simp: width_def split: if_splits)
  then have "length ns \<le> length ns * w" by simp
  moreover have "length ns * w < 2 ^ 63" using stands_small [OF r2] by (simp only: len)
  moreover have "(2 :: nat) ^ 63 < 2 ^ 64" by simp
  ultimately have "length ns < 2 ^ 64" "length ns * w < 2 ^ 64"
    by (metis le_less_trans less_trans)+
  then show ?thesis
    using u32_stands [OF r] u64_stands [OF r1] scalars_stands [OF r2 ok(2)] skip_stands [OF r2 len]
      scalar_kind [OF ok(1)] ok(3) layer_array_means [OF scalars_stands [OF r2 ok(2)]]
    by (simp add: array_at_def GScalars w len)
qed (use assms in simp_all)

lemma value_stands:
  assumes "stands r (enc_value v @ b)" and "gvalue_ok key v"
  shows "value_at m r key (kind_tag v) = Inr (learn m (key, v), advance (length (enc_value v)) r)"
proof (cases v)
  case (GText s)
  then have "stands r (enc_text s @ b)" and "utf8_valid s" using assms by simp_all
  then show ?thesis
    by (simp add: value_at_def GText text_stands utf8_lossy_valid MAX_KEPT_TEXT_BYTES_def)
next
  case (GScalar kind n)
  with assms have r: "stands r (enc_scalar kind n @ b)" and ok: "scalar_ok kind n" by simp_all
  have "kind \<noteq> 8" "kind \<noteq> 9" using ok scalar_kind [of kind] by (simp_all add: scalar_ok_def)
  then show ?thesis
    using scalar_stands [OF r ok] by (simp add: value_at_def GScalar split: option.split)
next
  case (GTexts ss)
  then show ?thesis using array_stands [OF assms, of m] by (simp add: value_at_def)
next
  case (GScalars kind ns)
  then show ?thesis using array_stands [OF assms, of m] by (simp add: value_at_def)
qed

lemma pairs_stands:
  assumes "stands r (concat (map enc_pair ps) @ b)" and "list_all pair_ok ps"
  shows "pairs_at m r (length ps) =
    Inr (foldl learn m ps, advance (length (concat (map enc_pair ps))) r)"
  using assms
proof (induction ps arbitrary: r m)
  case Nil
  then show ?case by simp
next
  case (Cons p ps)
  obtain k v where p: "p = (k, v)" by (cases p)
  let ?rest = "concat (map enc_pair ps) @ b"
  have r: "stands r (enc_text k @ enc_le 4 (kind_tag v) @ enc_value v @ ?rest)"
    using Cons.prems(1) by (simp add: enc_pair_def [of "(k, v)"] p)
  note r1 = stands_advance [OF r]
  have r2: "stands (advance (12 + length k) r) (enc_value v @ ?rest)"
    using stands_advance [OF r1] by (simp add: ac_simps)
  note r3 = stands_advance [OF r2]
  have ok: "length k \<le> MAX_KEY_BYTES" "utf8_valid k" "gvalue_ok k v" "list_all pair_ok ps"
    using Cons.prems(2) by (simp_all add: pair_ok_def [of "(k, v)"] p)
  have "kind_tag v < 2 ^ 32"
    using ok(3) scalar_kind by (cases v) (auto simp: scalar_ok_def)
  then have "u32_at (advance (8 + length k) r) = Inr (kind_tag v, advance (12 + length k) r)"
    using u32_stands [OF r1] by (simp add: ac_simps)
  moreover have "text_at r MAX_KEY_BYTES = Inr (Some k, advance (8 + length k) r)"
    using text_stands [OF r] ok by (simp add: utf8_lossy_valid)
  ultimately show ?case
    using value_stands [OF r2 ok(3), of m] Cons.IH [OF r3 ok(4)]
    by (simp add: p enc_pair_def ac_simps)
qed

text \<open>Everything \<open>fill\<close> reads, before it looks where it stopped.\<close>

definition filled :: "reader \<Rightarrow> fault + metadata \<times> reader" where
  "filled r =
     attempt_read (read_exact 4 r) (\<lambda>(magic, r1).
       if magic \<noteq> ''GGUF'' then Inl NoMagic
       else attempt_read (u32_at r1) (\<lambda>(version, r2).
         if version < 2 \<or> 3 < version then Inl (BadVersion version)
         else attempt_read (u64_at r2) (\<lambda>(tensors, r3).
           attempt_read (u64_at r3) (\<lambda>(pairs, r4).
             if MAX_PAIRS < pairs then Inl (TooManyPairs pairs)
             else pairs_at metadata_new r4 pairs))))"

lemma fill_filled:
  "fill r = attempt_read (filled r)
     (\<lambda>(m, r'). if length (g_bytes r) < g_pos r' then Inl EndsBefore else Inr m)"
  by (simp add: fill_def filled_def attempt_read_def case_prod_beta split: sum.split)

lemma filled_stands:
  assumes "list_all pair_ok ps" and "length ps \<le> MAX_PAIRS" and "tensors < 2 ^ 64"
    and "length (enc_file tensors ps @ data) < 2 ^ 63"
  shows "filled \<lparr>g_bytes = enc_file tensors ps @ data, g_pos = 0\<rparr> =
    Inr (foldl learn metadata_new ps,
      \<lparr>g_bytes = enc_file tensors ps @ data, g_pos = length (enc_file tensors ps)\<rparr>)"
proof -
  let ?r = "\<lparr>g_bytes = enc_file tensors ps @ data, g_pos = 0\<rparr>"
  let ?c = "concat (map enc_pair ps)"
  have magic: "length ''GGUF'' = 4" by simp
  have r: "stands ?r (''GGUF'' @ enc_le 4 3 @ enc_le 8 tensors @ enc_le 8 (length ps) @ ?c @ data)"
    using assms(4) by (simp add: stands_def enc_file_def)
  have r1: "stands (advance 4 ?r) (enc_le 4 3 @ enc_le 8 tensors @ enc_le 8 (length ps) @ ?c @ data)"
    using stands_advance [OF r] unfolding magic .
  have r2: "stands (advance 8 ?r) (enc_le 8 tensors @ enc_le 8 (length ps) @ ?c @ data)"
    using stands_advance [OF r1] by simp
  have r3: "stands (advance 16 ?r) (enc_le 8 (length ps) @ ?c @ data)"
    using stands_advance [OF r2] by simp
  have r4: "stands (advance 24 ?r) (?c @ data)"
    using stands_advance [OF r3] by simp
  have "length ps < 2 ^ 64" using assms(2) by (simp add: MAX_PAIRS_def)
  moreover have "advance (24 + length ?c) ?r =
      \<lparr>g_bytes = enc_file tensors ps @ data, g_pos = length (enc_file tensors ps)\<rparr>"
    by (simp add: enc_file_def advance_def)
  ultimately show ?thesis
    using read_stands [OF r magic] u32_stands [OF r1] u64_stands [OF r2 assms(3)] u64_stands [OF r3]
      pairs_stands [OF r4 assms(1), of metadata_new] assms(2)
    by (simp add: filled_def)
qed

section \<open>More bytes change nothing that was read\<close>

definition longer :: "string \<Rightarrow> reader \<Rightarrow> reader" where
  "longer c r = r\<lparr>g_bytes := g_bytes r @ c\<rparr>"

definition reads_on :: "string \<Rightarrow> fault + 'a \<times> reader \<Rightarrow> fault + 'a \<times> reader \<Rightarrow> bool" where
  "reads_on c p q = (\<forall>x r. p = Inr (x, r) \<longrightarrow> q = Inr (x, longer c r))"

definition kept_at :: "string \<Rightarrow> fault + reader \<Rightarrow> fault + reader \<Rightarrow> bool" where
  "kept_at c p q = (\<forall>r. p = Inr r \<longrightarrow> q = Inr (longer c r))"

named_theorems kept_rules \<open>reading through more bytes\<close>

lemma kept_plain [kept_rules]:
  "reads_on c (Inl e) q"
  "reads_on c (Inr (x, r)) (Inr (x, longer c r))"
  "kept_at c (Inl e) p"
  "kept_at c (Inr r) (Inr (longer c r))"
  by (simp_all add: reads_on_def kept_at_def)

lemma kept_bind [kept_rules]:
  "reads_on c p q \<Longrightarrow> (\<And>x r. reads_on c (f (x, r)) (g (x, longer c r))) \<Longrightarrow>
     reads_on c (attempt_read p f) (attempt_read q g)"
  by (auto simp: reads_on_def attempt_read_Inr)

lemma kept_bind_at [kept_rules]:
  "kept_at c p' q' \<Longrightarrow> (\<And>r. reads_on c (f' r) (g' (longer c r))) \<Longrightarrow>
     reads_on c (attempt_read p' f') (attempt_read q' g')"
  by (auto simp: reads_on_def kept_at_def attempt_read_Inr)

lemma kept_at_bind [kept_rules]:
  "reads_on c p q \<Longrightarrow> (\<And>x r. kept_at c (f (x, r)) (g (x, longer c r))) \<Longrightarrow>
     kept_at c (attempt_read p f) (attempt_read q g)"
  by (auto simp: reads_on_def kept_at_def attempt_read_Inr)

lemma kept_pure [kept_rules]:
  "(\<And>w. reads_on c (f w) (g w)) \<Longrightarrow> reads_on c (attempt_read (width k) f) (attempt_read (width k) g)"
  by (cases "width k") (simp_all add: kept_plain)

lemma kept_if [kept_rules]:
  "(b \<Longrightarrow> reads_on c p q) \<Longrightarrow> (\<not> b \<Longrightarrow> reads_on c p' q') \<Longrightarrow>
     reads_on c (if b then p else p') (if b then q else q')"
  by simp

lemma kept_read [kept_rules]: "reads_on c (read_exact n r) (read_exact n (longer c r))"
  by (auto simp: reads_on_def read_exact_def longer_def)

lemma kept_skip [kept_rules]: "kept_at c (skip_bytes r n) (skip_bytes (longer c r) n)"
  by (auto simp: kept_at_def skip_bytes_def longer_def)

lemma kept_u32 [kept_rules]: "reads_on c (u32_at r) (u32_at (longer c r))"
  unfolding u32_at_def prod.case by (rule kept_rules | simp)+

lemma kept_u64 [kept_rules]: "reads_on c (u64_at r) (u64_at (longer c r))"
  unfolding u64_at_def by (rule kept_rules | simp)+

lemma kept_scalar [kept_rules]: "reads_on c (scalar_at r kind) (scalar_at (longer c r) kind)"
  unfolding scalar_at_def by (rule kept_pure) (rule kept_rules | simp)+

lemma kept_text [kept_rules]: "reads_on c (text_at r keep) (text_at (longer c r) keep)"
  unfolding text_at_def by (rule kept_rules | simp only: prod.case)+

lemma kept_scalars [kept_rules]: "reads_on c (scalars_at kind r n) (scalars_at kind (longer c r) n)"
proof (induction n arbitrary: r)
  case 0
  show ?case by (simp add: kept_plain)
next
  case (Suc n)
  show ?case unfolding scalars_at.simps by (rule kept_rules Suc | simp only: prod.case)+
qed

lemma kept_texts [kept_rules]: "kept_at c (skip_texts r n) (skip_texts (longer c r) n)"
proof (induction n arbitrary: r)
  case 0
  show ?case by (simp add: kept_plain)
next
  case (Suc n)
  show ?case unfolding skip_texts.simps by (rule kept_rules Suc | simp only: prod.case)+
qed

lemma kept_layer_array [kept_rules]:
  "reads_on c (layer_array m r key kind n) (layer_array m (longer c r) key kind n)"
  unfolding layer_array_def by (rule kept_rules | simp only: prod.case Let_def)+

lemma kept_array [kept_rules]: "reads_on c (array_at m r key) (array_at m (longer c r) key)"
  unfolding array_at_def by (rule kept_pure kept_rules | simp only: prod.case)+

lemma kept_value [kept_rules]: "reads_on c (value_at m r key kind) (value_at m (longer c r) key kind)"
  unfolding value_at_def by (rule kept_rules | simp only: prod.case)+

lemma kept_pairs [kept_rules]: "reads_on c (pairs_at m r n) (pairs_at m (longer c r) n)"
proof (induction n arbitrary: m r)
  case 0
  show ?case by (simp add: kept_plain)
next
  case (Suc n)
  have key: "reads_on c (case key of None \<Rightarrow> Inl LongKey | Some k \<Rightarrow> f k) (case key of None \<Rightarrow> Inl LongKey | Some k \<Rightarrow> g k)"
    if "\<And>k. reads_on c (f k) (g k)" for key and f g :: "string \<Rightarrow> fault + metadata \<times> reader"
    using that by (simp add: kept_plain split: option.split)
  show ?case unfolding pairs_at.simps by (rule kept_rules key Suc | simp only: prod.case)+
qed

lemma kept_filled: "reads_on c (filled r) (filled (longer c r))"
  unfolding filled_def by (rule kept_rules | simp only: prod.case)+

section \<open>Properties\<close>

text \<open>C31: Reading a model file gives back what its metadata says: for a file that begins with
  the encoding of at most 65536 pairs, exactly what those pairs mean, whatever tensor data
  follows; and a file that ends anywhere inside them is refused, so a truncated download never
  passes for a model with fewer layers. The pairs are within the reader's limits: keys of at most
  1024 bytes that are UTF-8, texts that are UTF-8, scalars and arrays of a known width with values
  that fit it, and no more than \<open>2 ^ 20\<close> elements in an array kept layer by layer. An unsigned or
  non-negative integer means its value and a flag means one or nothing; a negative integer and a
  float mean nothing.\<close>

theorem metadata_round_trip:
  assumes "list_all pair_ok ps" and "length ps \<le> MAX_PAIRS" and "tensors < 2 ^ 64"
    and "length (enc_file tensors ps @ data) < 2 ^ 63"
  shows "metadata_read (Some (enc_file tensors ps @ data)) = Inr (foldl learn metadata_new ps) \<and>
    (n < length (enc_file tensors ps) \<longrightarrow>
      isl (metadata_read (Some (take n (enc_file tensors ps @ data)))))"
proof (intro conjI impI)
  let ?f = "enc_file tensors ps"
  note full = filled_stands [OF assms]
  then show "metadata_read (Some (?f @ data)) = Inr (foldl learn metadata_new ps)"
    by (simp add: metadata_read_def fill_filled)
  assume n: "n < length ?f"
  let ?r = "\<lparr>g_bytes = take n (?f @ data), g_pos = 0\<rparr>"
  show "isl (metadata_read (Some (take n (?f @ data))))"
  proof (cases "filled ?r")
    case (Inl e)
    then show ?thesis by (simp add: metadata_read_def fill_filled)
  next
    case (Inr mr)
    obtain m r' where mr: "mr = (m, r')" by (cases mr)
    have "longer (drop n (?f @ data)) ?r = \<lparr>g_bytes = ?f @ data, g_pos = 0\<rparr>"
      by (simp only: longer_def append_take_drop_id reader.simps)
    with kept_filled [of "drop n (?f @ data)" ?r]
    have "filled \<lparr>g_bytes = ?f @ data, g_pos = 0\<rparr> = Inr (m, longer (drop n (?f @ data)) r')"
      unfolding reads_on_def Inr mr by (simp only: simp_thms)
    with full have "longer (drop n (?f @ data)) r' = \<lparr>g_bytes = ?f @ data, g_pos = length ?f\<rparr>"
      by (simp only: sum.inject prod.inject)
    from arg_cong [OF this, of g_pos] have "n < g_pos r'" using n by (simp add: longer_def)
    with n Inr mr show ?thesis by (simp add: metadata_read_def fill_filled)
  qed
qed

text \<open>A Qwen file's first pairs: its architecture, its layers, and the heads of each of two.\<close>

definition small_pairs :: "(string \<times> gvalue) list" where
  "small_pairs =
     [(''general.architecture'', GText ''qwen3''), (''qwen3.block_count'', GScalar 4 2),
      (''qwen3.attention.head_count_kv'', GScalars 5 [8, 4])]"

lemma small_pairs_ok: "list_all pair_ok small_pairs"
proof -
  have "utf8_valid ''general.architecture''" "utf8_valid ''qwen3.block_count''"
    "utf8_valid ''qwen3.attention.head_count_kv''" "utf8_valid ''qwen3''"
    by (rule utf8_valid_ascii, simp)+
  moreover have "scalar_ok 4 2" "scalar_ok 5 8" "scalar_ok 5 4" "width 5 = Inr 4"
    by (simp_all add: scalar_ok_def scalar_width_def width_def)
  ultimately show ?thesis
    by (simp add: small_pairs_def pair_ok_def MAX_KEY_BYTES_def MAX_LAYER_ARRAY_def)
qed

lemma small_file: "length (enc_file 0 small_pairs @ []) = 163"
  by (simp add: small_pairs_def enc_file_def enc_pair_def scalar_width_def width_def enc_scalar_def)

theorem metadata_round_trip_witness:
  "\<exists>m. metadata_read (Some (enc_file 0 small_pairs @ [])) = Inr m \<and>
     of_model m ''block_count'' = Some 2 \<and> of_model m ''attention.head_count_kv'' = Some 8 \<and>
     per_layer m ''attention.head_count_kv'' = Some [8, 4] \<and>
     isl (metadata_read (Some (take 100 (enc_file 0 small_pairs @ []))))"
proof -
  have "length small_pairs \<le> MAX_PAIRS" by (simp add: small_pairs_def MAX_PAIRS_def)
  with metadata_round_trip [OF small_pairs_ok, of 0 "[]" 100] small_file
  have r: "metadata_read (Some (enc_file 0 small_pairs @ [])) = Inr (foldl learn metadata_new small_pairs)"
    "isl (metadata_read (Some (take 100 (enc_file 0 small_pairs @ []))))" by simp_all
  have "of_model (foldl learn metadata_new small_pairs) ''block_count'' = Some 2"
    "of_model (foldl learn metadata_new small_pairs) ''attention.head_count_kv'' = Some 8"
    "per_layer (foldl learn metadata_new small_pairs) ''attention.head_count_kv'' = Some [8, 4]"
    by (simp_all add: small_pairs_def of_model_def number_def per_layer_def scalar_means_def
        metadata_new_def keep_layers_def starts_with_def scalar_width_def width_def is_per_layer_def
        ends_with_def List.map_filter_simps map_of_tree_insert del: tree_insert.simps)
  with r show ?thesis by blast
qed

end
