(* ===== verification/Estimate_Facts.thy ===== *)
theory Estimate_Facts
  imports Estimate
begin

text \<open>
  What the estimate of an entry comes to: shard names round trip, the cache is the sum over the
  layers modulo \<open>2 ^ 128\<close>, and the figure is the sum of its terms, rounded up and saturated.
\<close>

section \<open>Splitting from the right\<close>

lemma rsplit_onceD:
  "rsplit_once p s = Some (a, b) \<Longrightarrow> s = a @ p @ b \<and> rsplit_once p (tl (a @ p @ b)) =
     (case a of [] \<Rightarrow> None | _ # a' \<Rightarrow> Some (a', b))"
proof (induction s arbitrary: a)
  case Nil
  then show ?case by simp
next
  case (Cons c s)
  show ?case
  proof (cases "rsplit_once p s")
    case None
    with Cons.prems have "starts_with p (c # s)" "a = []" "b = drop (length p) (c # s)"
      by (simp_all split: if_splits)
    moreover from this have "p @ b = c # s" by (metis append_take_drop_id starts_with_def)
    ultimately show ?thesis using None by simp
  next
    case (Some ab)
    with Cons.prems obtain a' where a: "a = c # a'" "rsplit_once p s = Some (a', b)"
      by (cases ab) auto
    with Cons.IH show ?thesis by simp
  qed
qed

lemma rsplit_once_last: "rsplit_once p s = Some (a, b) \<Longrightarrow> rsplit_once p (tl (p @ b)) = None"
proof (induction a arbitrary: s)
  case Nil
  from rsplit_onceD [OF this] show ?case by simp
next
  case (Cons c a)
  from rsplit_onceD [OF Cons.prems] have "rsplit_once p (a @ p @ b) = Some (a, b)" by simp
  then show ?case by (rule Cons.IH)
qed

lemma rsplit_once_append:
  "p \<noteq> [] \<Longrightarrow> rsplit_once p (tl (p @ b)) = None \<Longrightarrow> rsplit_once p (a @ p @ b) = Some (a, b)"
proof (induction a)
  case Nil
  then obtain c p' where p: "p = c # p'" by (cases p) auto
  have "starts_with p (c # p' @ b)" by (simp add: starts_with_def p)
  with Nil p show ?case by simp
next
  case (Cons c a)
  then show ?case by simp
qed

lemma rsplit_digits: "c \<notin> set b \<Longrightarrow> rsplit_once (c # p) b = None"
  by (induction b) (auto simp: starts_with_def)

section \<open>Digits\<close>

lemma digits_val_append1: "digits_val (s @ [c]) = 10 * digits_val s + digit_val c"
  by (simp add: digits_val_def)

lemma digit_val_less: "is_digit c \<Longrightarrow> digit_val c < 10"
  by (auto simp: is_digit_def digit_val_def)

lemma digit_val_inj: "is_digit c \<Longrightarrow> is_digit d \<Longrightarrow> digit_val c = digit_val d \<Longrightarrow> c = d"
proof -
  assume "is_digit c" "is_digit d" "digit_val c = digit_val d"
  then have "(of_char c :: nat) = of_char d" unfolding is_digit_def digit_val_def by linarith
  then show "c = d" by simp
qed

lemma digits_val_inj:
  "length s = length t \<Longrightarrow> list_all is_digit s \<Longrightarrow> list_all is_digit t \<Longrightarrow>
     digits_val s = digits_val t \<Longrightarrow> s = t"
proof (induction s arbitrary: t rule: rev_induct)
  case Nil
  then show ?case by simp
next
  case (snoc c s)
  then obtain d u where t: "t = u @ [d]" by (cases t rule: rev_cases) auto
  have "10 * digits_val s + digit_val c = 10 * digits_val u + digit_val d"
    using snoc.prems(4) by (simp add: t digits_val_append1)
  moreover have "digit_val c < 10" "digit_val d < 10"
    using snoc.prems by (simp_all add: t digit_val_less)
  ultimately have "digits_val s = digits_val u" "digit_val c = digit_val d" by presburger+
  with snoc show ?case by (simp add: t digit_val_inj)
qed

lemma digits_val_zeros: "digits_val (replicate k (CHR ''0'') @ s) = digits_val s"
  by (induction k) (simp_all add: digits_val_def digit_val_def)

lemma digits_val_bound: "list_all is_digit s \<Longrightarrow> digits_val s < 10 ^ length s"
proof (induction s rule: rev_induct)
  case Nil
  then show ?case by (simp add: digits_val_def)
next
  case (snoc c s)
  then have "digits_val s < 10 ^ length s" "digit_val c < 10" by (simp_all add: digit_val_less)
  then show ?case by (simp add: digits_val_append1)
qed

lemma zero_padded:
  assumes "length (dec n) \<le> w"
  shows "length (zero_padded w n) = w" and "list_all is_digit (zero_padded w n)"
    and "digits_val (zero_padded w n) = n"
  using assms dec_digits [of n]
  by (auto simp: zero_padded_def digits_val_zeros list_all_iff is_digit_def)

lemma zero_padded_digits:
  assumes "list_all is_digit s" and "s \<noteq> []"
  shows "zero_padded (length s) (digits_val s) = s"
proof -
  have "length (dec (digits_val s)) \<le> length s"
    using length_dec [of "length s"] digits_val_bound [OF assms(1)] assms(2) by simp
  from zero_padded [OF this] show ?thesis by (intro digits_val_inj) (simp_all add: assms(1))
qed

lemma parse_digits:
  "s \<noteq> [] \<Longrightarrow> list_all is_digit s \<Longrightarrow>
     parse_unsigned bound s = (if digits_val s < bound then Some (digits_val s) else None)"
  by (cases s) (auto simp: parse_unsigned_def is_digit_def)

section \<open>Shards\<close>

lemma shard_ofD:
  assumes "shard_of name = Some s"
  obtains index where "name = sh_stem s @ ''-'' @ index @ ''-of-'' @ sh_total s @ ''.'' @ sh_extension s"
    and "list_all is_digit index" and "length index = length (sh_total s)" and "sh_total s \<noteq> []"
    and "list_all is_digit (sh_total s)" and "sh_index s = digits_val index"
    and "rsplit_once ''.'' (sh_extension s) = None" and "sh_index s < 2 ^ 64"
proof -
  obtain rest ext where dot: "rsplit_once ''.'' name = Some (rest, ext)"
    using assms by (auto simp: shard_of_def split: option.splits)
  obtain front whole where of': "rsplit_once ''-of-'' rest = Some (front, whole)"
    using assms dot by (auto simp: shard_of_def split: option.splits)
  obtain stem index where dash: "rsplit_once ''-'' front = Some (stem, index)"
    using assms dot of' by (auto simp: shard_of_def split: option.splits)
  have ok: "whole \<noteq> []" "list_all is_digit whole" "length index = length whole" "list_all is_digit index"
    using assms dot of' dash by (auto simp: shard_of_def split: if_splits)
  then have "index \<noteq> []" by auto
  with ok assms dot of' dash have s: "s = \<lparr>sh_stem = stem, sh_index = digits_val index,
      sh_total = whole, sh_extension = ext\<rparr>" "digits_val index < 2 ^ 64"
    by (auto simp: shard_of_def parse_digits split: if_splits)
  show thesis
    using that [of index] s ok rsplit_onceD [OF dot] rsplit_onceD [OF of'] rsplit_onceD [OF dash]
      rsplit_once_last [OF dot]
    by simp
qed

lemma shard_of_name:
  assumes "list_all is_digit index" and "length index = length whole" and "whole \<noteq> []"
    and "list_all is_digit whole" and "rsplit_once ''.'' ext = None" and "digits_val index < 2 ^ 64"
  shows "shard_of (stem @ ''-'' @ index @ ''-of-'' @ whole @ ''.'' @ ext) =
    Some \<lparr>sh_stem = stem, sh_index = digits_val index, sh_total = whole, sh_extension = ext\<rparr>"
proof -
  have no_dash: "CHR ''-'' \<notin> set whole" "CHR ''-'' \<notin> set index"
    using assms(1,4) by (auto simp: list_all_iff is_digit_def)
  have dot: "rsplit_once ''.'' ((stem @ ''-'' @ index @ ''-of-'' @ whole) @ ''.'' @ ext) =
      Some (stem @ ''-'' @ index @ ''-of-'' @ whole, ext)"
    by (rule rsplit_once_append) (simp_all add: assms(5))
  obtain d ds where whole: "whole = d # ds" using assms(3) by (cases whole) auto
  moreover have "\<not> is_digit (CHR ''o'')" by (simp add: is_digit_def)
  ultimately have d: "d \<noteq> CHR ''o''" using assms(4) by auto
  have "rsplit_once ''-of-'' (''of-'' @ whole) = None"
    using no_dash d by (auto simp: rsplit_digits starts_with_def whole)
  then have of': "rsplit_once ''-of-'' ((stem @ ''-'' @ index) @ ''-of-'' @ whole) =
      Some (stem @ ''-'' @ index, whole)"
    by (intro rsplit_once_append) simp_all
  have dash: "rsplit_once ''-'' (stem @ ''-'' @ index) = Some (stem, index)"
    by (rule rsplit_once_append) (simp_all add: rsplit_digits no_dash)
  have "index \<noteq> []" using assms(2,3) by auto
  with assms dot of' dash show ?thesis
    by (simp add: shard_of_def parse_digits)
qed

section \<open>Sums of words\<close>

lemma unat_sum_list_mod:
  "unat (sum_list xs :: 'a :: len word) = sum_list (map unat xs) mod 2 ^ LENGTH('a)"
proof (induction xs)
  case Nil
  then show ?case by simp
next
  case (Cons x xs)
  then show ?case by (simp add: unat_word_ariths mod_add_right_eq)
qed

text \<open>The cache as the repository describes it: layer by layer, in natural numbers.\<close>

definition layer_total :: "nat \<Rightarrow> nat \<Rightarrow> nat \<Rightarrow> nat \<Rightarrow> nat \<Rightarrow> nat \<Rightarrow> nat" where
  "layer_total span heads key keys val values = span * heads * (key * keys + val * values)"

lemma unat_span_cost:
  "unat (span_cost span heads key keys val values) =
     layer_total span heads key keys val values mod 2 ^ 128"
  unfolding span_cost_def layer_total_def
  by (simp flip: of_nat_mult of_nat_add add: unat_of_nat)

definition value_length_of :: "metadata \<Rightarrow> nat \<Rightarrow> nat" where
  "value_length_of m key_length =
     (case of_model m ''attention.value_length'' of None \<Rightarrow> key_length | Some l \<Rightarrow> l)"

text \<open>
  The cost of the layer at an index: a layer the pattern marks attends to the window, with the
  window's own lengths, and every other layer attends to the whole context.
\<close>

definition windowed_total ::
    "metadata \<Rightarrow> nat \<Rightarrow> nat \<Rightarrow> nat \<Rightarrow> nat \<Rightarrow> nat \<Rightarrow> nat list \<Rightarrow> nat \<Rightarrow> nat \<Rightarrow> nat" where
  "windowed_total m context keys values kv_heads key_length pattern window layer =
     (let heads = (case per_layer m ''attention.head_count_kv'' of
            Some hs \<Rightarrow> if layer < length hs then hs ! layer else kv_heads | None \<Rightarrow> kv_heads);
          swa_keys = (case of_model m ''attention.key_length_swa'' of
            None \<Rightarrow> key_length | Some l \<Rightarrow> l);
          swa_values = (case of_model m ''attention.value_length_swa'' of
            None \<Rightarrow> swa_keys | Some l \<Rightarrow> l) in
      if pattern ! layer = 0
      then layer_total context heads key_length keys (value_length_of m key_length) values
      else layer_total (min context window) heads swa_keys keys swa_values values)"

definition cache_total :: "metadata \<Rightarrow> nat \<Rightarrow> nat \<Rightarrow> nat \<Rightarrow> nat option" where
  "cache_total m context keys values =
     (case (caching_layers m,
            or_else (of_model m ''attention.head_count_kv'') (of_model m ''attention.head_count''),
            key_length_of m) of
        (Some layers, Some kv_heads, Some key_length) \<Rightarrow>
          (case (or_else (per_layer m ''attention.sliding_window_pattern'') (assumed_pattern m),
                 of_model m ''attention.sliding_window'') of
             (Some pattern, Some window) \<Rightarrow>
               Some (\<Sum>layer < length pattern.
                 windowed_total m context keys values kv_heads key_length pattern window layer)
           | _ \<Rightarrow> Some (layers *
               layer_total context kv_heads key_length keys (value_length_of m key_length) values))
      | _ \<Rightarrow> None)"

lemma sum_list_enumerate:
  "sum_list (map (\<lambda>(i, x). f i x) (enumerate k xs)) =
     (\<Sum>i < length xs. (f (k + i) (xs ! i) :: 'b :: comm_monoid_add))"
proof (induction xs arbitrary: k)
  case Nil
  then show ?case by simp
next
  case (Cons x xs)
  then show ?case by (simp add: sum.lessThan_Suc_shift del: sum.lessThan_Suc)
qed

lemma unat_sum_mod:
  "unat (\<Sum>i < (n :: nat). g i :: 'a :: len word) = (\<Sum>i < n. unat (g i)) mod 2 ^ LENGTH('a)"
proof (induction n)
  case 0
  then show ?case by simp
next
  case (Suc n)
  then show ?case by (simp add: unat_word_ariths mod_add_left_eq)
qed

lemma sum_mod_cong:
  "(\<Sum>i < (n :: nat). f i mod b) mod b = (\<Sum>i < n. f i) mod (b :: nat)"
  by (rule mod_sum_eq)

lemma unat_div_16: "unat (x div 16 :: u128) = unat x div 16"
  by (simp add: unat_div)

lemma windowed_cost:
  fixes hs_of :: "nat \<Rightarrow> nat"
  shows "unat ((\<Sum>layer < length pattern. if pattern ! layer = (0 :: nat)
      then span_cost context (hs_of layer) key keys val values
      else span_cost span (hs_of layer) key' keys val' values) :: u128) =
    (\<Sum>layer < length pattern. if pattern ! layer = 0
      then layer_total context (hs_of layer) key keys val values
      else layer_total span (hs_of layer) key' keys val' values) mod 2 ^ 128"
proof -
  let ?g = "\<lambda>layer. if pattern ! layer = 0
      then layer_total context (hs_of layer) key keys val values
      else layer_total span (hs_of layer) key' keys val' values"
  have "unat (if pattern ! layer = 0 then span_cost context (hs_of layer) key keys val values
      else span_cost span (hs_of layer) key' keys val' values) = ?g layer mod 2 ^ 128" for layer
    by (simp add: unat_span_cost)
  then show ?thesis by (simp add: unat_sum_mod sum_mod_cong del: word_of_nat_eq_0_iff)
qed

lemma dense_cost:
  "unat (of_nat layers * of_nat context * (of_nat heads * (of_nat key * of_nat keys
      + of_nat val * of_nat values)) :: u128) =
    layers * layer_total context heads key keys val values mod 2 ^ 128"
proof -
  have "(of_nat layers * of_nat context * (of_nat heads * (of_nat key * of_nat keys
      + of_nat val * of_nat values)) :: u128) = of_nat (layers * layer_total context heads key keys val values)"
    by (simp add: layer_total_def ac_simps)
  then show ?thesis by (simp only: unat_of_nat) simp
qed

lemma cache_exact:
  "map_option unat (cache_bytes m context keys values) =
     map_option (\<lambda>total. total mod 2 ^ 128 div 16) (cache_total m context keys values)"
proof (cases "caching_layers m")
  case None
  then show ?thesis by (simp add: cache_bytes_def cache_total_def)
next
  case layers: (Some layers)
  let ?kv = "or_else (of_model m ''attention.head_count_kv'') (of_model m ''attention.head_count'')"
  let ?pat = "or_else (per_layer m ''attention.sliding_window_pattern'') (assumed_pattern m)"
  let ?win = "of_model m ''attention.sliding_window''"
  show ?thesis
  proof (cases "?kv = None \<or> key_length_of m = None")
    case True
    then show ?thesis by (auto simp: cache_bytes_def cache_total_def layers split: option.split)
  next
    case False
    then obtain kv kl where kv: "?kv = Some kv" and kl: "key_length_of m = Some kl" by auto
    show ?thesis
    proof (cases "?pat = None \<or> ?win = None")
      case True
      then have "cache_total m context keys values = Some (layers *
          layer_total context kv kl keys (value_length_of m kl) values)"
        by (auto simp: cache_total_def layers kv kl split: option.split)
      moreover have "cache_bytes m context keys values = Some (of_nat layers * of_nat context
          * (of_nat kv * (of_nat kl * of_nat keys + of_nat (value_length_of m kl) * of_nat values)) div 16)"
        using True by (auto simp: cache_bytes_def layers kv kl value_length_of_def Let_def split: option.split)
      ultimately show ?thesis by (simp add: unat_div_16 dense_cost)
    next
      case False
      then obtain pat win where pat: "?pat = Some pat" and win: "?win = Some win" by auto
      have "cache_total m context keys values = Some (\<Sum>layer < length pat.
          windowed_total m context keys values kv kl pat win layer)"
        by (simp only: cache_total_def layers kv kl pat win option.case prod.case)
      moreover have "map_option unat (cache_bytes m context keys values) = Some ((\<Sum>layer < length pat.
          windowed_total m context keys values kv kl pat win layer) mod 2 ^ 128 div 16)"
        unfolding cache_bytes_def layers kv kl pat win option.case prod.case Let_def
          windowed_total_def value_length_of_def option.map sum_list_enumerate unat_div_16 add_0
          windowed_cost ..
      ultimately show ?thesis by simp
    qed
  qed
qed

section \<open>The figure\<close>

lemma unat_MIB: "unat (of_nat MIB :: u128) = MIB"
  by (simp add: MIB_def)

lemma ceil_div: "0 < (b :: nat) \<Longrightarrow> a div b + (if a mod b = 0 then 0 else 1) = (a + b - 1) div b"
proof -
  assume b: "0 < b"
  have "a + b - 1 = (a mod b + b - 1) + a div b * b" using b by simp
  also have "\<dots> div b = a div b + (a mod b + b - 1) div b"
    using b by (intro div_mult_self1) simp
  finally have "(a + b - 1) div b = a div b + (a mod b + b - 1) div b" .
  moreover have "(a mod b + b - 1) div b = (if a mod b = 0 then 0 else 1)"
    using b mod_less_divisor [OF b, of a] by (simp add: div_nat_eqI)
  ultimately show ?thesis by simp
qed

lemma unat_to_mib: "unat (to_mib x) = min (2 ^ 32 - 1) ((unat x + MIB - 1) div MIB)"
proof -
  let ?n = "(unat x + MIB - 1) div MIB"
  have pos: "0 < MIB" by (simp add: MIB_def)
  have "unat (x div of_nat MIB) = unat x div MIB" by (simp only: unat_div unat_MIB)
  moreover have "x mod of_nat MIB = 0 \<longleftrightarrow> unat x mod MIB = 0"
    by (metis unat_MIB unat_eq_zero unat_mod)
  ultimately have "to_mib x = (if ?n < 2 ^ 32 then of_nat ?n else - 1)"
    using ceil_div [OF pos, of "unat x"] by (simp add: to_mib_def Let_def)
  moreover have "unat (- 1 :: u32) = 2 ^ 32 - 1" by (simp add: unsigned_minus_1_eq_mask mask_eq_exp_minus_1)
  ultimately show ?thesis by (auto simp: unat_of_nat min_def)
qed

definition model_cache :: "contents \<Rightarrow> string \<Rightarrow> entry \<Rightarrow> u128 option" where
  "model_cache fs root e =
     (case result_option (metadata_read (fs (resolve (e_path e) root))) of
        None \<Rightarrow> None
      | Some m \<Rightarrow> cache_bytes m (unat (e_context_size e))
          (sixteenths (e_flags e) [''ctk'', ''cache-type-k''])
          (sixteenths (e_flags e) [''ctv'', ''cache-type-v'']))"

definition own_weights :: "contents \<Rightarrow> string \<Rightarrow> entry \<Rightarrow> string + u64" where
  "own_weights fs root e =
     (let model = resolve (e_path e) root in
      weights_of fs model (result_option (metadata_read (fs model))))"

text \<open>The four terms, in natural numbers: weights, caches, fragmentation and overhead.\<close>

definition estimate_total :: "contents \<Rightarrow> string \<Rightarrow> entry \<Rightarrow> u64 \<Rightarrow> nat" where
  "estimate_total fs root e own =
     (let on_device = \<not> runs_on_processor (e_flags e);
          w = (if on_device then
                 unat own + unat (draft_weights fs root e) + unat (projector_weights fs root e) else 0) in
      case model_cache fs root e of
        Some c \<Rightarrow>
          w + (if on_device \<and> \<not> keeps_no_cache (e_flags e) then unat c else 0)
          + (if on_device then unat (draft_cache fs root e) else 0) + w * 5 div 100 + OVERHEAD_BYTES
      | None \<Rightarrow> w + w div 4 + OVERHEAD_BYTES)"

lemma unat_add_small: "unat x + unat y < 2 ^ LENGTH('a) \<Longrightarrow> unat (x + y :: 'a :: len word) = unat x + unat y"
  by (simp add: unat_word_ariths)

lemma derive_total:
  assumes "derive fs root e = Inr d" and "own_weights fs root e = Inr own"
    and small: "unat own + unat (draft_weights fs root e) + unat (projector_weights fs root e) < 2 ^ 64"
    and cache: "\<And>c. model_cache fs root e = Some c \<Longrightarrow> unat c < 2 ^ 126"
    and draft: "unat (draft_cache fs root e) < 2 ^ 126"
  shows "unat (d_mib d) = min (2 ^ 32 - 1) ((estimate_total fs root e own + MIB - 1) div MIB)"
proof -
  define on_device where "on_device = (\<not> runs_on_processor (e_flags e))"
  define w where "w = (if on_device then
      ucast (own + draft_weights fs root e + projector_weights fs root e) else 0 :: u128)"
  have sum: "unat (own + draft_weights fs root e + projector_weights fs root e) =
      unat own + unat (draft_weights fs root e) + unat (projector_weights fs root e)"
    using small by (simp add: unat_add_small)
  then have uw: "unat w = (if on_device then
      unat own + unat (draft_weights fs root e) + unat (projector_weights fs root e) else 0)"
    using small by (simp add: w_def unsigned_ucast_eq take_bit_nat_eq_self)
  then have w64: "unat w < 2 ^ 64" using small by (simp split: if_splits)
  have over: "unat (of_nat OVERHEAD_BYTES :: u128) = OVERHEAD_BYTES"
    by (simp add: OVERHEAD_BYTES_def MIB_def)
  have five: "unat (w * 5 div 100) = unat w * 5 div 100"
    using w64 by (simp add: unat_div unat_word_ariths)
  have quarter: "unat (w div 4) = unat w div 4" by (simp add: unat_div)
  have o_small: "OVERHEAD_BYTES < 2 ^ 64" by (simp add: OVERHEAD_BYTES_def MIB_def)
  show ?thesis
  proof (cases "model_cache fs root e")
    case None
    then have d: "d_mib d = to_mib (w + w div 4 + of_nat OVERHEAD_BYTES)"
      using assms(1,2)
      by (auto simp: derive_def own_weights_def model_cache_def Let_def w_def on_device_def
          split: option.splits)
    have "unat (w + w div 4 + of_nat OVERHEAD_BYTES) = unat w + unat w div 4 + OVERHEAD_BYTES"
      using w64 o_small by (simp add: unat_word_ariths over quarter)
    then show ?thesis
      by (simp add: d unat_to_mib estimate_total_def None Let_def uw flip: on_device_def)
  next
    case (Some c)
    define a where "a = (if on_device \<and> \<not> keeps_no_cache (e_flags e) then c else 0)"
    define b where "b = (if on_device then draft_cache fs root e else 0)"
    have ab: "unat a < 2 ^ 126" "unat b < 2 ^ 126"
      using cache [OF Some] draft by (simp_all add: a_def b_def)
    have "d_mib d = to_mib (w + a + b + w * 5 div 100 + of_nat OVERHEAD_BYTES)"
      using assms(1,2) Some
      by (auto simp: derive_def own_weights_def model_cache_def Let_def w_def on_device_def a_def b_def
          split: option.splits)
    moreover have "unat (w + a + b + w * 5 div 100 + of_nat OVERHEAD_BYTES) =
        unat w + unat a + unat b + unat w * 5 div 100 + OVERHEAD_BYTES"
      using w64 o_small ab by (simp add: unat_word_ariths over five)
    ultimately show ?thesis
      by (simp add: unat_to_mib estimate_total_def Some Let_def uw a_def b_def flip: on_device_def)
  qed
qed

section \<open>Properties\<close>

text \<open>A split model's files are found by name: from the name of one shard, the name of
  every other is read back as the same model's shard with that number, and its own number
  gives its own name.\<close>

lemma shard_names_round_trip:
  assumes "shard_of name = Some s" and "length (dec i) \<le> length (sh_total s)" and "i < 2 ^ 64"
  shows "shard_of (shard_name s i) = Some (s\<lparr>sh_index := i\<rparr>) \<and> shard_name s (sh_index s) = name"
proof -
  from assms(1) obtain index where n: "name = sh_stem s @ ''-'' @ index @ ''-of-'' @ sh_total s @ ''.'' @ sh_extension s"
    and index: "list_all is_digit index" "length index = length (sh_total s)" "sh_index s = digits_val index"
    and whole: "sh_total s \<noteq> []" "list_all is_digit (sh_total s)"
    and ext: "rsplit_once ''.'' (sh_extension s) = None"
    by (rule shard_ofD)
  note pad = zero_padded [OF assms(2)]
  have "shard_of (shard_name s i) = Some \<lparr>sh_stem = sh_stem s,
      sh_index = digits_val (zero_padded (length (sh_total s)) i), sh_total = sh_total s,
      sh_extension = sh_extension s\<rparr>"
    unfolding shard_name_def
    using assms(3) by (intro shard_of_name) (simp_all add: pad whole ext)
  moreover have "index \<noteq> []" using index(2) whole(1) by auto
  then have "zero_padded (length (sh_total s)) (sh_index s) = index"
    using zero_padded_digits [OF index(1)] by (simp add: index(2,3))
  ultimately show ?thesis by (simp add: n shard_name_def pad)
qed

lemma shard_names_round_trip_witness:
  "\<exists>s. shard_of ''Big-00002-of-00004.gguf'' = Some s \<and>
     shard_of ''Big-00004-of-00004.gguf'' = Some (s\<lparr>sh_index := 4\<rparr>)"
proof -
  let ?s = "\<lparr>sh_stem = ''Big'', sh_index = 2, sh_total = ''00004'', sh_extension = ''gguf''\<rparr>"
  have s: "shard_of ''Big-00002-of-00004.gguf'' = Some ?s"
    using shard_of_name [of "''00002''" "''00004''" "''gguf''" "''Big''"]
    by (simp add: is_digit_def digits_val_def digit_val_def starts_with_def)
  have d: "dec 4 = ''4''" by code_simp
  then have "shard_name ?s 4 = ''Big-00004-of-00004.gguf''"
    by (simp add: shard_name_def zero_padded_def eval_nat_numeral)
  with d shard_names_round_trip [OF s, of 4] s show ?thesis by simp
qed

text \<open>C36: The cache is the sum over the layers of span times heads times the width of a key and
  a value, in sixteenths of a byte, a sliding layer charged for its window only. The sum is taken
  modulo \<open>2 ^ 128\<close>, and only then divided by the sixteen: it is exact below that, and a file may
  claim a shape whose cache wraps around to nothing. A model that does not say its layers, heads
  or key length has no figure.\<close>

theorem cache_is_the_sum_over_the_layers:
  "map_option unat (cache_bytes m context keys values) =
     map_option (\<lambda>total. total mod 2 ^ 128 div 16) (cache_total m context keys values) \<and>
   (\<exists>huge total. cache_total huge 4096 32 32 = Some total \<and> 2 ^ 128 \<le> total \<and>
     cache_bytes huge 4096 32 32 = Some 0)"
proof
  show "map_option unat (cache_bytes m context keys values) =
      map_option (\<lambda>total. total mod 2 ^ 128 div 16) (cache_total m context keys values)"
    by (rule cache_exact)
next
  let ?m = "\<lparr>m_architecture = Some ''llama'',
    m_numbers = [(''llama.attention.head_count'', 2 ^ 40), (''llama.attention.key_length'', 2 ^ 39),
      (''llama.block_count'', 2 ^ 32)], m_layers = []\<rparr>"
  have "cache_total ?m 4096 32 32 = Some (2 ^ 129)"
    by (simp add: cache_total_def caching_layers_def of_model_def number_def or_else_def
        key_length_of_def per_layer_def assumed_pattern_def value_length_of_def layer_total_def)
  moreover have "cache_bytes ?m 4096 32 32 = Some 0"
    by (simp add: cache_bytes_def caching_layers_def of_model_def number_def or_else_def
        key_length_of_def per_layer_def assumed_pattern_def Let_def)
  ultimately show "\<exists>huge total. cache_total huge 4096 32 32 = Some total \<and> 2 ^ 128 \<le> total \<and>
      cache_bytes huge 4096 32 32 = Some 0"
    by (intro exI [of _ ?m] exI [of _ "2 ^ 129"]) simp
qed

theorem cache_is_the_sum_over_the_layers_witness:
  "map_option unat (cache_bytes
     \<lparr>m_architecture = Some ''llama'', m_numbers = [(''llama.attention.head_count'', 8),
        (''llama.attention.key_length'', 128), (''llama.block_count'', 2)], m_layers = []\<rparr>
     4096 32 17) = Some (2 * 4096 * 8 * 128 * (32 + 17) div 16)"
  unfolding cache_is_the_sum_over_the_layers [THEN conjunct1]
  by (simp add: cache_total_def caching_layers_def of_model_def number_def or_else_def
      key_length_of_def per_layer_def assumed_pattern_def value_length_of_def layer_total_def)

text \<open>C35: As long as the weights add up within 64 bits and each cache is below \<open>2 ^ 126\<close> bytes, a
  derived estimate is, in bytes rounded up to whole MiB and saturated at what 32 bits hold: where
  the file's metadata gives a cache figure, the weights of the model, its draft and its projector,
  the model's cache unless the flags keep none, the draft's cache, five percent of the weights for
  fragmentation and 1024 MiB of overhead; and where it does not, the weights, a quarter again and
  the same overhead. An entry pinned to the processor is charged for no weights and no cache,
  and so the overhead alone. No estimate is below the overhead, and none below the weights it
  counts and the overhead together unless it is saturated.\<close>

theorem estimate_is_the_sum_of_its_terms:
  assumes "derive fs root e = Inr d" and "own_weights fs root e = Inr own"
    and "unat own + unat (draft_weights fs root e) + unat (projector_weights fs root e) < 2 ^ 64"
    and "\<And>c. model_cache fs root e = Some c \<Longrightarrow> unat c < 2 ^ 126"
    and "unat (draft_cache fs root e) < 2 ^ 126"
  shows "unat (d_mib d) = min (2 ^ 32 - 1) ((estimate_total fs root e own + MIB - 1) div MIB) \<and>
    1024 \<le> unat (d_mib d) \<and>
    (runs_on_processor (e_flags e) \<longrightarrow> unat (d_mib d) = 1024) \<and>
    (\<not> runs_on_processor (e_flags e) \<longrightarrow>
      unat own + unat (draft_weights fs root e) + unat (projector_weights fs root e) + OVERHEAD_BYTES
        \<le> unat (d_mib d) * MIB \<or> unat (d_mib d) = 2 ^ 32 - 1)"
proof -
  let ?t = "estimate_total fs root e own"
  have d: "unat (d_mib d) = min (2 ^ 32 - 1) ((?t + MIB - 1) div MIB)"
    by (rule derive_total [OF assms])
  have over: "OVERHEAD_BYTES \<le> ?t"
    by (auto simp: estimate_total_def Let_def split: option.split)
  then have "(OVERHEAD_BYTES + MIB - 1) div MIB \<le> (?t + MIB - 1) div MIB"
    by (intro div_le_mono diff_le_mono add_right_mono)
  then have low: "1024 \<le> unat (d_mib d)" unfolding d by (simp add: OVERHEAD_BYTES_def MIB_def)
  have processor: "?t = OVERHEAD_BYTES" if "runs_on_processor (e_flags e)"
    using that by (simp add: estimate_total_def Let_def split: option.split)
  have "?t \<le> ((?t + MIB - 1) div MIB) * MIB"
    using mod_less_divisor [of MIB "?t + MIB - 1"] div_mult_mod_eq [of "?t + MIB - 1" MIB]
    by (simp add: MIB_def)
  moreover have "unat own + unat (draft_weights fs root e) + unat (projector_weights fs root e)
      + OVERHEAD_BYTES \<le> ?t" if "\<not> runs_on_processor (e_flags e)"
    using that by (auto simp: estimate_total_def Let_def split: option.split)
  ultimately have "unat own + unat (draft_weights fs root e) + unat (projector_weights fs root e)
      + OVERHEAD_BYTES \<le> unat (d_mib d) * MIB \<or> unat (d_mib d) = 2 ^ 32 - 1"
    if "\<not> runs_on_processor (e_flags e)"
    using that unfolding d by (fastforce simp: min_def)
  with d low processor show ?thesis by (auto simp: OVERHEAD_BYTES_def MIB_def)
qed

theorem estimate_is_the_sum_of_its_terms_witness:
  "\<exists>d. derive (\<lambda>_. Some ''not a model'') ''r'' (plain_entry ''m'' 0 OnDemand) = Inr d \<and>
     unat (d_mib d) = 1025"
proof -
  let ?fs = "\<lambda>_. Some ''not a model''"
  let ?e = "plain_entry ''m'' 0 OnDemand"
  have m: "metadata_read (Some ''not a model'') = Inl NoMagic"
    by (simp add: metadata_read_def fill_def read_exact_def)
  have name: "file_name ''r/m.gguf'' = Some ''m.gguf''" "shard_of ''m.gguf'' = None"
    by code_simp+
  have model: "resolve (e_path ?e) ''r'' = ''r/m.gguf''"
    by (simp add: plain_entry_def resolve_def path_join_def starts_with_def)
  have own: "own_weights ?fs ''r'' ?e = Inr 11"
    by (simp add: own_weights_def weights_of_def size_of_def m model name Let_def)
  obtain d where d: "derive ?fs ''r'' ?e = Inr d"
    using own by (auto simp: derive_def own_weights_def Let_def split: sum.splits)
  have none: "draft_weights ?fs ''r'' ?e = 0" "projector_weights ?fs ''r'' ?e = 0"
    "draft_cache ?fs ''r'' ?e = 0" "model_cache ?fs ''r'' ?e = None"
    by (simp_all add: plain_entry_def draft_weights_def projector_weights_def draft_cache_def
        model_cache_def m result_option_def)
  have device: "\<not> runs_on_processor (e_flags ?e)"
    by (simp add: plain_entry_def runs_on_processor_def flag_first_def List.map_filter_simps)
  have "estimate_total ?fs ''r'' ?e 11 = 13 + OVERHEAD_BYTES"
    using device by (simp add: estimate_total_def none Let_def)
  with estimate_is_the_sum_of_its_terms [OF d own] none d show ?thesis
    by (simp add: OVERHEAD_BYTES_def MIB_def)
qed

end
