(* ===== verification/Catalog_Resolve.thy ===== *)
theory Catalog_Resolve
  imports Estimate Catalog_Read
begin

text \<open>
  Reading a catalog against a models root: \<open>catalog/resolve.rs\<close>, \<open>catalog/discover/name.rs\<close>
  and \<open>catalog/discover/walk.rs\<close>. The disk is an argument: the files and their contents, what
  each directory lists, and which paths are directories. Notes are returned in the order found.
\<close>

record disk =
  dk_files :: contents
  dk_listing :: "string \<Rightarrow> string list option"
  dk_is_dir :: "string \<Rightarrow> bool"

section \<open>What a file's name says\<close>

definition RESERVED :: "string list" where
  "RESERVED = [''load'', ''unload'', ''sse'', ''props'', ''models'']"

text \<open>\<open>Path::extension\<close> of one component: nothing before the dot is no extension.\<close>

definition extension_of :: "string \<Rightarrow> string option" where
  "extension_of name =
     (case rsplit_once ''.'' name of
        None \<Rightarrow> None | Some (stem, ext) \<Rightarrow> if stem = [] then None else Some ext)"

definition name_segments :: "string \<Rightarrow> string list" where
  "name_segments s = split_on (CHR '' '') (map (\<lambda>c. if is_alnum c then c else CHR '' '') s)"

definition is_model :: "string \<Rightarrow> bool" where
  "is_model name =
     (let lower = ascii_lower name in
      (case extension_of name of None \<Rightarrow> False | Some ext \<Rightarrow> eq_ignore_case ext ''gguf'') \<and>
      \<not> contains_text ''mmproj'' lower \<and>
      \<not> list_ex (ends_with ''mtp'') (name_segments lower) \<and>
      (case shard_of name of None \<Rightarrow> True | Some s \<Rightarrow> sh_index s = 1))"

definition trim_hyphens :: "string \<Rightarrow> string" where
  "trim_hyphens s =
     (let drop_front = dropWhile (\<lambda>c. c = CHR ''-'') in rev (drop_front (rev (drop_front s))))"

definition sanitised_step :: "string \<Rightarrow> char \<Rightarrow> string" where
  "sanitised_step out c =
     (if is_alnum c then out @ [lower_char c]
      else if out = [] \<or> last out \<noteq> CHR ''-'' then out @ ''-'' else out)"

definition sanitised :: "string \<Rightarrow> string" where
  "sanitised s = trim_hyphens (foldl sanitised_step [] s)"

definition parent_name :: "string \<Rightarrow> string option" where
  "parent_name p =
     (case dropWhile (\<lambda>s. s = [] \<or> s = ''.'') (tl (path_segments p)) of
        [] \<Rightarrow> None | s # _ \<Rightarrow> if s = ''..'' then None else Some s)"

definition as_utf8 :: "string \<Rightarrow> string option" where
  "as_utf8 s = (if utf8_valid s then Some s else None)"

definition stem_of :: "string \<Rightarrow> string" where
  "stem_of name =
     (case shard_of name of
        Some s \<Rightarrow> sh_stem s
      | None \<Rightarrow> (case rsplit_once ''.'' name of None \<Rightarrow> name | Some (stem, _) \<Rightarrow> stem))"

definition shown :: "string \<Rightarrow> string" where
  "shown p = quoted (utf8_lossy p)"

text \<open>The identifier a file gets, the names then taken, and the notes with what was said.\<close>

definition identifier_of ::
    "string \<Rightarrow> string set \<Rightarrow> string list \<Rightarrow> string option \<times> string set \<times> string list" where
  "identifier_of file taken notes =
     (case Option.bind (file_name file) as_utf8 of
        None \<Rightarrow> (None, taken, notes)
      | Some name \<Rightarrow>
          (let wanted = sanitised (stem_of name);
               parent = (case Option.bind (parent_name file) as_utf8 of
                 None \<Rightarrow> [] | Some p \<Rightarrow> sanitised p);
               instead = parent @ ''-'' @ wanted in
           if wanted = [] then (None, taken, notes)
           else if wanted \<notin> taken then (Some wanted, insert wanted taken, notes)
           else if parent = [] \<or> instead \<in> taken then
             (None, taken, notes @ [''skipped '' @ shown file @ '': '' @ quoted wanted
                @ '' is already taken, and so is '' @ quoted instead])
           else
             (Some instead, insert instead taken, notes @ [''discovered '' @ shown file @ '' as ''
                @ quoted instead @ '', because '' @ quoted wanted @ '' is already taken''])))"

section \<open>Walking the root\<close>

definition MAX_DEPTH :: nat where "MAX_DEPTH = 16"
definition FALLBACK_CONTEXT :: u32 where "FALLBACK_CONTEXT = 4096"

text \<open>The walk stops below the deepest directory it may enter, counted down.\<close>

fun walk_below :: "disk \<Rightarrow> nat \<Rightarrow> string \<Rightarrow> string list" where
  "walk_below d 0 dir = []"
| "walk_below d (Suc n) dir =
     (case dk_listing d dir of
        None \<Rightarrow> []
      | Some names \<Rightarrow>
          concat (map (\<lambda>name.
            (let p = path_join dir name in
             if dk_is_dir d p then walk_below d n p
             else if utf8_valid name \<and> is_model name then [p] else [])) (sort names)))"

definition walk :: "disk \<Rightarrow> string \<Rightarrow> string list" where
  "walk d root = walk_below d (Suc MAX_DEPTH) root"

text \<open>The components of a path, which is how paths are compared and taken apart.\<close>

definition components :: "string \<Rightarrow> string list" where
  "components p = filter (\<lambda>s. s \<noteq> [] \<and> s \<noteq> ''.'') (split_on (CHR ''/'') p)"

definition path_key :: "string \<Rightarrow> bool \<times> string list" where
  "path_key p = (starts_with ''/'' p, components p)"

definition relative_to :: "string \<Rightarrow> string \<Rightarrow> relative_path option" where
  "relative_to root file =
     (let front = components root; parts = components file in
      if starts_with ''/'' root \<noteq> starts_with ''/'' file \<or> take (length front) parts \<noteq> front then None
      else
        (let rest = drop (length front) parts in
         if \<not> list_all utf8_valid rest then None
         else (case relative_path_new (join ''/'' rest) of Inl _ \<Rightarrow> None | Inr p \<Rightarrow> Some p)))"

text \<open>The context a model file says it was trained for.\<close>

definition trained_for :: "disk \<Rightarrow> string \<Rightarrow> nat option" where
  "trained_for d file =
     (case result_option (metadata_read (dk_files d file)) of
        None \<Rightarrow> None
      | Some m \<Rightarrow>
          (case of_model m ''context_length'' of
             None \<Rightarrow> None
           | Some n \<Rightarrow> if 0 < n \<and> n < 2 ^ 32 then Some n else None))"

definition discovered_context :: "u32 option \<Rightarrow> nat option \<Rightarrow> u32" where
  "discovered_context dflt trained =
     (let wanted = (case dflt of
            Some n \<Rightarrow> n
          | None \<Rightarrow> (case trained of Some n \<Rightarrow> of_nat n | None \<Rightarrow> FALLBACK_CONTEXT)) in
      min wanted (case trained of Some n \<Rightarrow> of_nat n | None \<Rightarrow> - 1))"

definition discovered_entry ::
    "disk \<Rightarrow> string \<Rightarrow> string \<Rightarrow> relative_path \<Rightarrow> defaults \<Rightarrow> entry" where
  "discovered_entry d root i location df =
     \<lparr>e_id = i, e_path = location, e_draft_path = None, e_projector_path = None,
      e_context_size = discovered_context (df_context_size df) (trained_for d (resolve location root)),
      e_residency = OnDemand, e_memory_estimate_mib = 0,
      e_reasoning_format = df_reasoning_format df, e_reasoning_effort = df_reasoning_effort df,
      e_startup_timeout_seconds = (case df_startup_timeout_seconds df of
         None \<Rightarrow> DEFAULT_STARTUP_TIMEOUT_SECONDS | Some s \<Rightarrow> s),
      e_runtime = None, e_flags = df_flags df\<rparr>"

definition discover_one ::
    "disk \<Rightarrow> string \<Rightarrow> string \<Rightarrow> relative_path \<Rightarrow> defaults \<Rightarrow> string list \<Rightarrow> entry option \<times> string list" where
  "discover_one d root i location df notes =
     (let e = discovered_entry d root i location df in
      case derive (dk_files d) root e of
        Inr dv \<Rightarrow>
          (Some (e\<lparr>e_memory_estimate_mib := d_mib dv\<rparr>),
           notes @ [''discovered '' @ quoted i @ '' at '' @ as_str location @ '': ''
             @ dec (unat (d_mib dv)) @ '' MiB estimated at '' @ dec (unat (e_context_size e))
             @ '' tokens of context''
             @ (case d_basis dv of FromMetadata \<Rightarrow> [] | FromSize \<Rightarrow> '', from file size alone'')])
      | Inl reason \<Rightarrow> (None, notes @ [''skipped '' @ quoted (as_str location) @ '': '' @ reason]))"

record search =
  se_found :: "entry list"
  se_taken :: "string set"
  se_notes :: "string list"

definition discover_step ::
    "disk \<Rightarrow> string \<Rightarrow> defaults \<Rightarrow> (bool \<times> string list) set \<Rightarrow> search \<Rightarrow> string \<Rightarrow> search" where
  "discover_step d root df referenced s file =
     (if path_key file \<in> referenced then s
      else
        (case relative_to root file of
           None \<Rightarrow> s\<lparr>se_notes := se_notes s @ [''skipped '' @ shown file
             @ '': its path is not text this catalog can carry'']\<rparr>
         | Some location \<Rightarrow>
             (case identifier_of file (se_taken s) (se_notes s) of
                (None, taken, notes) \<Rightarrow> s\<lparr>se_taken := taken, se_notes := notes\<rparr>
              | (Some i, taken, notes) \<Rightarrow>
                  (case discover_one d root i location df notes of
                     (None, notes') \<Rightarrow> s\<lparr>se_taken := taken, se_notes := notes'\<rparr>
                   | (Some e, notes') \<Rightarrow>
                       \<lparr>se_found = se_found s @ [e], se_taken = taken, se_notes = notes'\<rparr>))))"

definition entry_locations :: "entry \<Rightarrow> relative_path list" where
  "entry_locations e =
     e_path e # (case e_draft_path e of None \<Rightarrow> [] | Some p \<Rightarrow> [p])
     @ (case e_projector_path e of None \<Rightarrow> [] | Some p \<Rightarrow> [p])"

definition referenced_keys :: "string \<Rightarrow> entry list \<Rightarrow> (bool \<times> string list) set" where
  "referenced_keys root es = set (concat (map (\<lambda>e. map (\<lambda>p. path_key (resolve p root)) (entry_locations e)) es))"

definition discover_under ::
    "disk \<Rightarrow> string \<Rightarrow> entry list \<Rightarrow> defaults \<Rightarrow> string list \<Rightarrow> search" where
  "discover_under d root es df notes =
     foldl (discover_step d root df (referenced_keys root es))
       \<lparr>se_found = [], se_taken = set (map e_id es) \<union> set RESERVED, se_notes = notes\<rparr>
       (walk d root)"

section \<open>Settling every estimate\<close>

record settling =
  st_entries :: "entry list"
  st_notes :: "string list"
  st_problems :: "string list"
  st_derived :: "string set"

definition settle :: "disk \<Rightarrow> string \<Rightarrow> string list \<Rightarrow> settling \<Rightarrow> entry \<Rightarrow> settling" where
  "settle d root undeclared l e =
     (let scope = entry_scope (e_id e) in
      if e_id e \<notin> set undeclared then
        l\<lparr>st_entries := st_entries l @ [e],
          st_notes := st_notes l @
            (case derive (dk_files d) root e of
               Inr dv \<Rightarrow>
                 (if e_memory_estimate_mib e < d_mib dv then
                    [scope @ '': memory_estimate_mib is declared as ''
                     @ dec (unat (e_memory_estimate_mib e)) @ '' MiB, but its files suggest ''
                     @ dec (unat (d_mib dv)) @ '' MiB; keeping the declared value'']
                  else [])
             | Inl _ \<Rightarrow> [])\<rparr>
      else
        (case derive (dk_files d) root e of
           Inr dv \<Rightarrow>
             l\<lparr>st_entries := st_entries l @ [e\<lparr>e_memory_estimate_mib := d_mib dv\<rparr>],
               st_notes := st_notes l @
                 (if d_basis dv = FromSize then
                    [scope @ '': memory estimate of '' @ dec (unat (d_mib dv))
                     @ '' MiB derived from file size alone, because the model file''
                     @ quote1 @ ''s metadata could not be read'']
                  else []),
               st_derived := insert (e_id e) (st_derived l)\<rparr>
         | Inl reason \<Rightarrow>
             l\<lparr>st_problems := st_problems l @ [problem scope ''memory_estimate_mib''
                 (''is required, because it could not be derived: '' @ reason)]\<rparr>))"

record reading =
  rd_catalog :: catalog
  rd_notes :: "string list"
  rd_declared :: nat
  rd_root :: string

definition catalog_read ::
    "(string \<Rightarrow> string + table) \<Rightarrow> disk \<Rightarrow> string \<Rightarrow> string \<Rightarrow> string list + reading" where
  "catalog_read toml d root text =
     (case drafts_of toml text of
        Inl ps \<Rightarrow> Inl ps
      | Inr ds \<Rightarrow>
          (let l = foldl (settle d root (ds_undeclared ds))
                 \<lparr>st_entries = [], st_notes = [], st_problems = ds_problems ds, st_derived = {}\<rparr>
                 (ds_entries ds) in
           if st_problems l \<noteq> [] then Inl (st_problems l)
           else
             (let s = discover_under d root (st_entries l) (ds_defaults ds) (st_notes l);
                  found = set (map e_id (se_found s)) in
              Inr \<lparr>rd_catalog =
                     \<lparr>c_version = (case ds_version ds of None \<Rightarrow> 0 | Some v \<Rightarrow> v),
                      c_entries = sort_key e_id (st_entries l @ se_found s),
                      c_derived = st_derived l \<union> found, c_discovered = found\<rparr>,
                   rd_notes = se_notes s, rd_declared = length (st_entries l), rd_root = root\<rparr>)))"

definition reading_discovered :: "reading \<Rightarrow> nat" where
  "reading_discovered r = length (c_entries (rd_catalog r)) - rd_declared r"

definition reading_summary :: "reading \<Rightarrow> string" where
  "reading_summary r =
     dec (rd_declared r) @ '' entries from the catalog, '' @ dec (reading_discovered r)
     @ '' discovered under '' @ utf8_lossy (rd_root r)"

end
