(* ===== verification/Resolve_Facts.thy ===== *)
theory Resolve_Facts
  imports Catalog_Resolve Catalog_Claims
begin

text \<open>
  What reading a catalog against a models root guarantees, and that it agrees with reading the
  text alone on every entry the text itself carries.
\<close>

section \<open>Discovery\<close>

lemma identifier_new:
  assumes "identifier_of file taken notes = (Some i, taken', notes')"
  shows "i \<notin> taken \<and> taken' = insert i taken"
  using assms by (auto simp: identifier_of_def Let_def split: option.splits if_splits)

lemma identifier_none:
  assumes "identifier_of file taken notes = (None, taken', notes')"
  shows "taken' = taken"
  using assms by (auto simp: identifier_of_def Let_def split: option.splits if_splits)

text \<open>An estimate an entry carries is no input of the one its files give.\<close>

lemma derive_estimate [simp]: "derive fs root (e\<lparr>e_memory_estimate_mib := n\<rparr>) = derive fs root e"
proof -
  let ?e = "e\<lparr>e_memory_estimate_mib := n\<rparr>"
  have parts: "e_path ?e = e_path e" "e_flags ?e = e_flags e" "e_context_size ?e = e_context_size e"
    "draft_weights fs root ?e = draft_weights fs root e"
    "projector_weights fs root ?e = projector_weights fs root e"
    "draft_cache fs root ?e = draft_cache fs root e"
    by (auto simp: draft_weights_def projector_weights_def draft_cache_def
        split: option.split sum.split)
  show ?thesis unfolding derive_def parts ..
qed

definition as_derived :: "disk \<Rightarrow> string \<Rightarrow> entry \<Rightarrow> bool" where
  "as_derived d root e =
     (case derive (dk_files d) root e of
        Inl _ \<Rightarrow> False | Inr dv \<Rightarrow> e_memory_estimate_mib e = d_mib dv)"

lemma discover_one_entry:
  assumes "discover_one d root i location df notes = (Some e, notes')"
  shows "e_id e = i \<and> e_path e = location \<and> e_residency e = OnDemand \<and> e_draft_path e = None \<and>
    e_projector_path e = None \<and> e_runtime e = None \<and> as_derived d root e"
proof -
  let ?e = "discovered_entry d root i location df"
  obtain dv where "derive (dk_files d) root ?e = Inr dv" "e = ?e\<lparr>e_memory_estimate_mib := d_mib dv\<rparr>"
    using assms by (auto simp: discover_one_def Let_def split: sum.splits)
  then show ?thesis by (simp add: as_derived_def) (simp add: discovered_entry_def)
qed

text \<open>Found entries have names of their own, and files no declared entry names.\<close>

definition found_ok :: "disk \<Rightarrow> string \<Rightarrow> (bool \<times> string list) set \<Rightarrow> entry \<Rightarrow> bool" where
  "found_ok d root referenced e =
     (e_residency e = OnDemand \<and> e_draft_path e = None \<and> e_projector_path e = None \<and>
      e_runtime e = None \<and> as_derived d root e \<and>
      (\<exists>file \<in> set (walk d root). path_key file \<notin> referenced \<and> relative_to root file = Some (e_path e)))"

definition search_ok :: "disk \<Rightarrow> string \<Rightarrow> (bool \<times> string list) set \<Rightarrow> string set \<Rightarrow> search \<Rightarrow> bool" where
  "search_ok d root referenced base s =
     (distinct (map e_id (se_found s)) \<and> set (map e_id (se_found s)) \<subseteq> se_taken s \<and>
      base \<subseteq> se_taken s \<and> set (map e_id (se_found s)) \<inter> base = {} \<and>
      (\<forall>e \<in> set (se_found s). found_ok d root referenced e))"

lemma discover_step_ok:
  assumes "search_ok d root referenced base s" and "file \<in> set (walk d root)"
  shows "search_ok d root referenced base (discover_step d root df referenced s file)"
proof (cases "path_key file \<in> referenced \<or> relative_to root file = None")
  case True
  then show ?thesis using assms(1)
    by (cases "path_key file \<in> referenced") (simp_all add: discover_step_def search_ok_def)
next
  case False
  then obtain location where loc: "relative_to root file = Some location" "path_key file \<notin> referenced"
    by auto
  obtain oi taken ns where i: "identifier_of file (se_taken s) (se_notes s) = (oi, taken, ns)"
    by (metis prod_cases3)
  show ?thesis
  proof (cases oi)
    case None
    with i loc identifier_none [of "file" "se_taken s" "se_notes s" "taken" "ns"] assms(1)
    show ?thesis by (simp add: discover_step_def search_ok_def)
  next
    case (Some j)
    with i have new: "j \<notin> se_taken s" "taken = insert j (se_taken s)"
      using identifier_new by blast+
    obtain oe ns' where e: "discover_one d root j location df ns = (oe, ns')"
      by (cases "discover_one d root j location df ns")
    show ?thesis
    proof (cases oe)
      case None
      with e i Some loc new assms(1) show ?thesis by (auto simp: discover_step_def search_ok_def)
    next
      case (Some x)
      with e have x: "e_id x = j" "found_ok d root referenced x"
        using discover_one_entry [of d root j location df ns x ns'] loc assms(2)
        by (auto simp: found_ok_def)
      have step: "discover_step d root df referenced s file =
          \<lparr>se_found = se_found s @ [x], se_taken = taken, se_notes = ns'\<rparr>"
        using i \<open>oi = Some j\<close> e Some loc by (simp add: discover_step_def)
      show ?thesis using assms(1) x new unfolding step search_ok_def by auto
    qed
  qed
qed

lemma discover_fold_ok:
  assumes "search_ok d root referenced base s" and "set files \<subseteq> set (walk d root)"
  shows "search_ok d root referenced base (foldl (discover_step d root df referenced) s files)"
  using assms by (induction files arbitrary: s) (simp_all add: discover_step_ok)

lemma discover_under_ok:
  "search_ok d root (referenced_keys root es) (set (map e_id es) \<union> set RESERVED)
     (discover_under d root es df notes)"
  unfolding discover_under_def by (rule discover_fold_ok) (simp_all add: search_ok_def)

section \<open>Settling\<close>

definition settled_entry :: "disk \<Rightarrow> string \<Rightarrow> string list \<Rightarrow> entry \<Rightarrow> entry" where
  "settled_entry d root undeclared e =
     (if e_id e \<in> set undeclared then
        (case derive (dk_files d) root e of
           Inr dv \<Rightarrow> e\<lparr>e_memory_estimate_mib := d_mib dv\<rparr> | Inl _ \<Rightarrow> e)
      else e)"

lemma settle_fold:
  assumes "st_problems (foldl (settle d root undeclared) l es) = []"
  shows "st_problems l = [] \<and>
    st_entries (foldl (settle d root undeclared) l es) =
      st_entries l @ map (settled_entry d root undeclared) es \<and>
    st_derived (foldl (settle d root undeclared) l es) =
      st_derived l \<union> {i \<in> set (map e_id es). i \<in> set undeclared} \<and>
    (\<forall>e \<in> set es. e_id e \<in> set undeclared \<longrightarrow> as_derived d root (settled_entry d root undeclared e))"
  using assms
proof (induction es arbitrary: l)
  case Nil
  then show ?case by simp
next
  case (Cons e es)
  from Cons.IH [of "settle d root undeclared l e"] Cons.prems
  have ih: "st_problems (settle d root undeclared l e) = []"
    "st_entries (foldl (settle d root undeclared) l (e # es)) =
      st_entries (settle d root undeclared l e) @ map (settled_entry d root undeclared) es"
    "st_derived (foldl (settle d root undeclared) l (e # es)) =
      st_derived (settle d root undeclared l e) \<union> {i \<in> set (map e_id es). i \<in> set undeclared}"
    "\<forall>e' \<in> set es. e_id e' \<in> set undeclared \<longrightarrow> as_derived d root (settled_entry d root undeclared e')"
    by simp_all
  have "st_problems l = [] \<and>
      st_entries (settle d root undeclared l e) = st_entries l @ [settled_entry d root undeclared e] \<and>
      st_derived (settle d root undeclared l e) =
        st_derived l \<union> (if e_id e \<in> set undeclared then {e_id e} else {}) \<and>
      (e_id e \<in> set undeclared \<longrightarrow> as_derived d root (settled_entry d root undeclared e))"
    using ih(1)
    by (auto simp: settle_def settled_entry_def as_derived_def Let_def split: sum.splits if_splits)
  with ih show ?case by auto
qed

lemma settled_entry_id [simp]: "e_id (settled_entry d root u e) = e_id e"
  by (simp add: settled_entry_def split: sum.split)

lemma settled_entry_same: "e_id e \<notin> set u \<Longrightarrow> settled_entry d root u e = e"
  by (simp add: settled_entry_def)

lemma settle_declared:
  "st_problems (foldl (settle d root []) l es) = st_problems l"
  by (induction es arbitrary: l) (simp_all add: settle_def Let_def)

section \<open>Reading\<close>

lemma read_success:
  assumes "catalog_read toml d root text = Inr r"
  obtains ds s ns where "drafts_of toml text = Inr ds" and "ds_problems ds = []"
    and "s = discover_under d root (map (settled_entry d root (ds_undeclared ds)) (ds_entries ds))
      (ds_defaults ds) ns"
    and "rd_catalog r = \<lparr>c_version = (case ds_version ds of None \<Rightarrow> 0 | Some v \<Rightarrow> v),
      c_entries = sort_key e_id (map (settled_entry d root (ds_undeclared ds)) (ds_entries ds) @ se_found s),
      c_derived = {i \<in> set (map e_id (ds_entries ds)). i \<in> set (ds_undeclared ds)} \<union>
        set (map e_id (se_found s)),
      c_discovered = set (map e_id (se_found s))\<rparr>"
    and "rd_declared r = length (ds_entries ds)" and "rd_root r = root"
    and "\<And>e. e \<in> set (ds_entries ds) \<Longrightarrow> e_id e \<in> set (ds_undeclared ds) \<Longrightarrow>
      as_derived d root (settled_entry d root (ds_undeclared ds) e)"
proof -
  obtain ds where ds: "drafts_of toml text = Inr ds"
    using assms by (cases "drafts_of toml text") (simp_all add: catalog_read_def)
  let ?l = "foldl (settle d root (ds_undeclared ds))
    \<lparr>st_entries = [], st_notes = [], st_problems = ds_problems ds, st_derived = {}\<rparr> (ds_entries ds)"
  have ok: "st_problems ?l = []" using assms ds by (auto simp: catalog_read_def Let_def split: if_splits)
  note l = settle_fold [OF ok]
  show thesis
    using assms ds ok l
    by (intro that [OF ds, of "discover_under d root (st_entries ?l) (ds_defaults ds) (st_notes ?l)" "st_notes ?l"])
      (auto simp: catalog_read_def Let_def)
qed

lemma drafts_ids:
  assumes "drafts_of toml text = Inr ds" and "ds_problems ds = []"
  obtains tbl models where "toml text = Inr tbl" and "map_of tbl ''models'' = Some (TTable models)"
    and "map e_id (ds_entries ds) = map fst models" and "set (ds_undeclared ds) \<subseteq> fst ` set models"
  using assms
proof (rule drafts_success)
  fix tbl models
  assume s: "toml text = Inr tbl" "map_of tbl ''models'' = Some (TTable models)"
    and clean: "\<And>i w. (i, w) \<in> set models \<Longrightarrow> dr_problems (draft_of i w (fst (defaults_of tbl))) = []"
    and es: "ds_entries ds =
      List.map_filter (\<lambda>(i, w). dr_entry (draft_of i w (fst (defaults_of tbl)))) models"
    and un: "ds_undeclared ds =
      map fst (filter (\<lambda>(i, w). dr_undeclared (draft_of i w (fst (defaults_of tbl)))) models)"
  let ?g = "\<lambda>x. the (dr_entry (draft_of (fst x) (snd x) (fst (defaults_of tbl))))"
  have g: "dr_entry (draft_of i w (fst (defaults_of tbl))) = Some (?g (i, w)) \<and> e_id (?g (i, w)) = i"
    if "(i, w) \<in> set models" for i w
    using clean [OF that] by (rule draft_clean) (simp add: settle_entry_def)
  have "ds_entries ds = map ?g models"
    unfolding es using g by (intro map_filter_all) (auto simp: case_prod_unfold)
  moreover have "e_id (?g x) = fst x" if "x \<in> set models" for x
    using g [of "fst x" "snd x"] that by simp
  ultimately have "map e_id (ds_entries ds) = map fst models" by simp
  with s show thesis by (rule that) (auto simp: un)
qed

lemma filter_none: "(\<And>x. x \<in> set xs \<Longrightarrow> \<not> P x) \<Longrightarrow> filter P xs = []"
  by (simp add: filter_empty_conv)

section \<open>Where an estimate comes from\<close>

text \<open>The estimate the text gives a model, its own or the default.\<close>

definition declared_estimate :: "table \<Rightarrow> table \<Rightarrow> string \<Rightarrow> u32 option" where
  "declared_estimate tbl models i =
     (case map_of models i of
        Some (TTable t) \<Rightarrow>
          effective t ''memory_estimate_mib'' as_positive (df_memory_estimate_mib (fst (defaults_of tbl)))
      | _ \<Rightarrow> None)"

lemma declared_estimate_positive: "declared_estimate tbl models i = Some m \<Longrightarrow> 0 < m"
  by (auto simp: declared_estimate_def dest!: effective_cases dest: positive_value defaults_positive
      split: option.splits toml.splits)

lemma drafts_estimates:
  assumes "drafts_of toml text = Inr ds" and "ds_problems ds = []" and "toml text = Inr tbl"
    and "map_of tbl ''models'' = Some (TTable models)" and "distinct (map fst models)"
    and "e \<in> set (ds_entries ds)"
  shows "declared_estimate tbl models (e_id e) =
    (if e_id e \<in> set (ds_undeclared ds) then None else Some (e_memory_estimate_mib e))"
  using assms(1,2)
proof (rule drafts_success)
  fix tbl' models'
  let ?df = "fst (defaults_of tbl')"
  assume s: "toml text = Inr tbl'" "map_of tbl' ''models'' = Some (TTable models')"
    and clean: "\<And>i w. (i, w) \<in> set models' \<Longrightarrow> dr_problems (draft_of i w ?df) = []"
    and es: "ds_entries ds = List.map_filter (\<lambda>(i, w). dr_entry (draft_of i w ?df)) models'"
    and un: "ds_undeclared ds = map fst (filter (\<lambda>(i, w). dr_undeclared (draft_of i w ?df)) models')"
  have eq: "tbl' = tbl" "models' = models" using s assms(3,4) by auto
  obtain i w where m: "(i, w) \<in> set models" "dr_entry (draft_of i w ?df) = Some e"
    using assms(6) by (auto simp: es eq List.map_filter_def)
  have map: "map_of models i = Some w" using assms(5) m(1) by simp
  have only: "w' = w" if "(i, w') \<in> set models" for w'
    using map_of_is_SomeI [OF assms(5) that] map by simp
  obtain t p n where t: "w = TTable t" "dr_entry (draft_of i w ?df) = Some (settle_entry i t ?df p n)"
    using clean m(1) eq draft_clean by metis
  then have e: "e = settle_entry i t ?df p n" using m(2) by simp
  have "i \<in> set (ds_undeclared ds) \<longleftrightarrow>
      (\<exists>w'. (i, w') \<in> set models \<and> dr_undeclared (draft_of i w' ?df))"
    by (auto simp: un eq image_iff)
  then have "i \<in> set (ds_undeclared ds) \<longleftrightarrow> dr_undeclared (draft_of i w ?df)"
    using m(1) only by blast
  moreover have "dr_undeclared (draft_of i w ?df) \<longleftrightarrow>
      effective t ''memory_estimate_mib'' as_positive (df_memory_estimate_mib ?df) = None"
    by (simp add: t(1) draft_undeclared)
  ultimately show ?thesis
    by (auto simp: e settle_entry_def declared_estimate_def map t(1) eq)
qed

lemma as_derived_exact:
  "as_derived d root e \<longleftrightarrow> (\<exists>dv. derive (dk_files d) root e = Inr dv \<and> e_memory_estimate_mib e = d_mib dv)"
  by (simp add: as_derived_def split: sum.split)

section \<open>Properties\<close>

text \<open>C32: A catalog read against a models root is in strictly ascending order of identifier:
  it carries every model of the text and, apart from them, one entry for each file it
  discovered. Every entry carries its estimate: the one the text gives it, which is above zero,
  and otherwise exactly the figure derived from its files, which then could be derived; and an
  estimate is reported as derived in the second case alone. A discovered entry is on demand, has
  a name no declared model, no path of the proxy and no other file has, no draft and no
  projector, and a file that no declared model names.\<close>

theorem read_yields_a_well_formed_catalog:
  assumes "catalog_read toml d root text = Inr r" and "toml_reader_ok toml"
  shows "sorted_wrt (<) (ids_of (rd_catalog r)) \<and>
    (\<exists>tbl models. toml text = Inr tbl \<and> map_of tbl ''models'' = Some (TTable models) \<and>
      set (ids_of (rd_catalog r)) = fst ` set models \<union> c_discovered (rd_catalog r) \<and>
      fst ` set models \<inter> c_discovered (rd_catalog r) = {} \<and>
      (\<forall>e \<in> set (c_entries (rd_catalog r)).
        case declared_estimate tbl models (e_id e) of
          Some m \<Rightarrow> e_memory_estimate_mib e = m \<and> 0 < m \<and> e_id e \<notin> c_derived (rd_catalog r)
        | None \<Rightarrow> e_id e \<in> c_derived (rd_catalog r) \<and>
            (\<exists>dv. derive (dk_files d) root e = Inr dv \<and> e_memory_estimate_mib e = d_mib dv))) \<and>
    c_discovered (rd_catalog r) \<inter> set RESERVED = {} \<and>
    c_discovered (rd_catalog r) \<subseteq> c_derived (rd_catalog r) \<and>
    reading_discovered r = card (c_discovered (rd_catalog r)) \<and>
    (\<forall>e \<in> set (c_entries (rd_catalog r)). e_id e \<in> c_discovered (rd_catalog r) \<longrightarrow>
      e_residency e = OnDemand \<and> e_draft_path e = None \<and> e_projector_path e = None \<and>
      (\<exists>file \<in> set (walk d root). relative_to root file = Some (e_path e) \<and>
        (\<forall>e' \<in> set (c_entries (rd_catalog r)). e_id e' \<notin> c_discovered (rd_catalog r) \<longrightarrow>
          (\<forall>p \<in> set (entry_locations e'). path_key (resolve p root) \<noteq> path_key file))))"
proof -
  obtain ds s ns where ds: "drafts_of toml text = Inr ds" "ds_problems ds = []"
    and s: "s = discover_under d root (map (settled_entry d root (ds_undeclared ds)) (ds_entries ds))
      (ds_defaults ds) ns"
    and cat: "rd_catalog r = \<lparr>c_version = (case ds_version ds of None \<Rightarrow> 0 | Some v \<Rightarrow> v),
      c_entries = sort_key e_id (map (settled_entry d root (ds_undeclared ds)) (ds_entries ds) @ se_found s),
      c_derived = {i \<in> set (map e_id (ds_entries ds)). i \<in> set (ds_undeclared ds)} \<union>
        set (map e_id (se_found s)),
      c_discovered = set (map e_id (se_found s))\<rparr>"
    and n: "rd_declared r = length (ds_entries ds)"
    and der: "\<And>e. e \<in> set (ds_entries ds) \<Longrightarrow> e_id e \<in> set (ds_undeclared ds) \<Longrightarrow>
      as_derived d root (settled_entry d root (ds_undeclared ds) e)"
    using assms(1) by (rule read_success) blast
  obtain tbl models where m: "toml text = Inr tbl" "map_of tbl ''models'' = Some (TTable models)"
    and ids: "map e_id (ds_entries ds) = map fst models"
    using ds by (rule drafts_ids)
  let ?es = "map (settled_entry d root (ds_undeclared ds)) (ds_entries ds)"
  have ok: "search_ok d root (referenced_keys root ?es) (set (map e_id ?es) \<union> set RESERVED) s"
    unfolding s by (rule discover_under_ok)
  have es_ids: "map e_id ?es = map fst models" by (simp add: o_def ids)
  have "toml_ok (TTable tbl)" using assms(2) m(1) by (simp add: toml_reader_ok_def)
  then have "tree_ok models" using toml_ok_inner [OF _ m(2)] by simp
  then have "distinct (map e_id ?es)" unfolding es_ids by (rule tree_ok_distinct)
  then have dist: "distinct (map e_id (?es @ se_found s))"
    using ok by (auto simp: search_ok_def)
  have "sorted (ids_of (rd_catalog r))" by (simp add: cat)
  moreover have "distinct (ids_of (rd_catalog r))"
    using dist by (simp only: cat catalog.simps distinct_map distinct_sort set_sort)
  ultimately have sorted: "sorted_wrt (<) (ids_of (rd_catalog r))" by (simp add: strict_sorted_iff)
  have disc: "c_discovered (rd_catalog r) = set (map e_id (se_found s))" by (simp add: cat)
  have apart: "set (map e_id ?es) \<inter> set (map e_id (se_found s)) = {}"
    using ok by (auto simp: search_ok_def)
  have set_ids: "set (ids_of (rd_catalog r)) = fst ` set models \<union> c_discovered (rd_catalog r)"
    using arg_cong [OF es_ids, of set] by (simp add: cat image_Un image_image)
  have "reading_discovered r = length (se_found s)" by (simp add: reading_discovered_def cat n)
  then have count': "reading_discovered r = card (c_discovered (rd_catalog r))"
    using distinct_card [of "map e_id (se_found s)"] ok unfolding disc search_ok_def by simp
  have found: "e \<in> set (se_found s)" if "e \<in> set (c_entries (rd_catalog r))"
      "e_id e \<in> c_discovered (rd_catalog r)" for e
    using that apart by (auto simp: cat)
  have declared: "e \<in> set ?es" if "e \<in> set (c_entries (rd_catalog r))"
      "e_id e \<notin> c_discovered (rd_catalog r)" for e
    using that by (auto simp: cat)
  have locations: "path_key (resolve p root) \<in> referenced_keys root ?es"
    if "e' \<in> set ?es" "p \<in> set (entry_locations e')" for e' p
    using that by (force simp: referenced_keys_def)
  have each: "e_residency e = OnDemand \<and> e_draft_path e = None \<and> e_projector_path e = None \<and>
      (\<exists>file \<in> set (walk d root). relative_to root file = Some (e_path e) \<and>
        (\<forall>e' \<in> set (c_entries (rd_catalog r)). e_id e' \<notin> c_discovered (rd_catalog r) \<longrightarrow>
          (\<forall>p \<in> set (entry_locations e'). path_key (resolve p root) \<noteq> path_key file)))"
    if e: "e \<in> set (c_entries (rd_catalog r))" "e_id e \<in> c_discovered (rd_catalog r)" for e
  proof -
    have "found_ok d root (referenced_keys root ?es) e"
      using found [OF e] ok by (simp add: search_ok_def)
    then show ?thesis using declared locations unfolding found_ok_def by metis
  qed
  have dm: "distinct (map fst models)" using \<open>tree_ok models\<close> by (rule tree_ok_distinct)
  have estimates: "case declared_estimate tbl models (e_id e) of
          Some m \<Rightarrow> e_memory_estimate_mib e = m \<and> 0 < m \<and> e_id e \<notin> c_derived (rd_catalog r)
        | None \<Rightarrow> e_id e \<in> c_derived (rd_catalog r) \<and>
            (\<exists>dv. derive (dk_files d) root e = Inr dv \<and> e_memory_estimate_mib e = d_mib dv)"
    if e: "e \<in> set (c_entries (rd_catalog r))" for e
  proof (cases "e_id e \<in> c_discovered (rd_catalog r)")
    case True
    then have "as_derived d root e" using found [OF e] ok by (auto simp: search_ok_def found_ok_def)
    moreover have "map_of models (e_id e) = None"
      using True apart arg_cong [OF es_ids, of set] unfolding disc by (auto simp: map_of_eq_None_iff)
    ultimately show ?thesis
      using True by (simp add: as_derived_exact declared_estimate_def cat)
  next
    case False
    then obtain e0 where e0: "e0 \<in> set (ds_entries ds)" "e = settled_entry d root (ds_undeclared ds) e0"
      using declared [OF e] by auto
    note est = drafts_estimates [OF ds m dm e0(1)]
    show ?thesis
    proof (cases "e_id e0 \<in> set (ds_undeclared ds)")
      case True
      then show ?thesis using der [OF e0(1)] est e0 by (auto simp: as_derived_exact cat)
    next
      case undecl: False
      then have "e_id e0 \<notin> c_derived (rd_catalog r)" using False e0(2) by (simp add: cat)
      then show ?thesis
        using est undecl e0(2) declared_estimate_positive [of tbl models "e_id e0"]
        by (simp add: settled_entry_same)
    qed
  qed
  have reserved: "c_discovered (rd_catalog r) \<inter> set RESERVED = {}"
    using ok by (auto simp: search_ok_def cat)
  have derived: "c_discovered (rd_catalog r) \<subseteq> c_derived (rd_catalog r)" by (simp add: cat)
  have others: "fst ` set models \<inter> c_discovered (rd_catalog r) = {}"
    using apart arg_cong [OF es_ids, of set] unfolding disc by simp
  note each' = each [THEN conjunct1] each [THEN conjunct2, THEN conjunct1]
    each [THEN conjunct2, THEN conjunct2, THEN conjunct1]
    each [THEN conjunct2, THEN conjunct2, THEN conjunct2]
  show ?thesis
    by (intro conjI exI [of _ tbl] exI [of _ models] sorted m set_ids others count' reserved derived
        ballI impI estimates each') assumption+
qed

lemma read_of_parse:
  assumes "catalog_parse toml text = Inr c"
  obtains r s ns df where "catalog_read toml d root text = Inr r"
    and "s = discover_under d root (c_entries c) df ns"
    and "rd_catalog r = \<lparr>c_version = c_version c, c_entries = sort_key e_id (c_entries c @ se_found s),
      c_derived = set (map e_id (se_found s)), c_discovered = set (map e_id (se_found s))\<rparr>"
proof -
  obtain ds where ds: "drafts_of toml text = Inr ds" "ds_problems ds = []" "ds_undeclared ds = []"
    and c: "c = \<lparr>c_version = (case ds_version ds of None \<Rightarrow> 0 | Some v \<Rightarrow> v), c_entries = ds_entries ds,
         c_derived = {}, c_discovered = {}\<rparr>"
    using assms unfolding parse_drafts by blast
  let ?l = "foldl (settle d root [])
    \<lparr>st_entries = [], st_notes = [], st_problems = [], st_derived = {}\<rparr> (ds_entries ds)"
  have ok: "st_problems ?l = []" by (simp add: settle_declared)
  have "st_entries ?l = ds_entries ds" "st_derived ?l = {}"
    using settle_fold [OF ok] by (simp_all add: settled_entry_def map_idI)
  then show thesis
    using ds ok c
    by (intro that [of _ "discover_under d root (c_entries c) (ds_defaults ds) (st_notes ?l)"])
      (auto simp: catalog_read_def Let_def)
qed

text \<open>A disk with one model the catalog names, one it does not, and a projector.\<close>

definition one_more :: disk where
  "one_more =
     \<lparr>dk_files = (\<lambda>_. Some ''not a model''),
      dk_listing = (\<lambda>p. if p = ''r'' then Some [''chat.gguf'', ''New.gguf'', ''mmproj.gguf''] else None),
      dk_is_dir = (\<lambda>_. False)\<rparr>"

theorem read_yields_a_well_formed_catalog_witness:
  "\<exists>r. catalog_read (\<lambda>_. Inr two_models) one_more ''r'' [] = Inr r \<and>
     sorted_wrt (<) (ids_of (rd_catalog r)) \<and> c_discovered (rd_catalog r) \<inter> set RESERVED = {}"
proof -
  obtain c where "catalog_parse (\<lambda>_. Inr two_models) [] = Inr c" using two_models_read by blast
  then obtain r where r: "catalog_read (\<lambda>_. Inr two_models) one_more ''r'' [] = Inr r"
    by (rule read_of_parse)
  with read_yields_a_well_formed_catalog [OF r two_models_ok] show ?thesis by blast
qed

text \<open>Reading a catalog against a models root agrees with reading its text alone: whatever
  text alone accepts is accepted, and apart from the files it discovers it serves the same
  entries in the same order with the same settings, every one of their estimates declared.\<close>

lemma read_agrees_with_parse:
  assumes "catalog_parse toml text = Inr c" and "toml_reader_ok toml"
  shows "\<exists>r. catalog_read toml d root text = Inr r \<and> c_version (rd_catalog r) = c_version c \<and>
    filter (\<lambda>e. e_id e \<notin> c_discovered (rd_catalog r)) (c_entries (rd_catalog r)) = c_entries c \<and>
    (\<forall>e \<in> set (c_entries c). estimate_source_of (rd_catalog r) (e_id e) = Some Declared)"
proof -
  obtain r s ns df where r: "catalog_read toml d root text = Inr r"
    and s: "s = discover_under d root (c_entries c) df ns"
    and cat: "rd_catalog r = \<lparr>c_version = c_version c, c_entries = sort_key e_id (c_entries c @ se_found s),
      c_derived = set (map e_id (se_found s)), c_discovered = set (map e_id (se_found s))\<rparr>"
    using assms(1) by (rule read_of_parse)
  have "search_ok d root (referenced_keys root (c_entries c)) (set (map e_id (c_entries c)) \<union> set RESERVED) s"
    unfolding s by (rule discover_under_ok)
  then have apart: "e_id e \<notin> e_id ` set (se_found s)" if "e \<in> set (c_entries c)" for e
    using that by (auto simp: search_ok_def)
  have "map fst models = ids_of c \<Longrightarrow> tree_ok models \<Longrightarrow> sorted (ids_of c)" for models :: table
    by (metis tree_ok_def strict_sorted_iff)
  moreover obtain tbl models g where m: "toml text = Inr tbl" "map_of tbl ''models'' = Some (TTable models)"
    and ids: "ids_of c = map fst models"
    using assms(1) by (rule parse_entries)
  moreover have "toml_ok (TTable tbl)" using assms(2) m(1) by (simp add: toml_reader_ok_def)
  then have "tree_ok models" using toml_ok_inner [OF _ m(2)] by simp
  ultimately have "sorted (ids_of c)" by metis
  then have "sort_key e_id (c_entries c) = c_entries c" by (rule sort_key_id_if_sorted)
  moreover have "filter (\<lambda>e. e_id e \<notin> e_id ` set (se_found s)) (c_entries c @ se_found s) = c_entries c"
    using apart by (simp add: filter_id_conv filter_empty_conv)
  ultimately have "filter (\<lambda>e. e_id e \<notin> c_discovered (rd_catalog r)) (c_entries (rd_catalog r)) = c_entries c"
    by (simp add: cat filter_sort del: filter_append)
  moreover have "estimate_source_of (rd_catalog r) (e_id e) = Some Declared" if "e \<in> set (c_entries c)" for e
  proof -
    have "catalog_entry (rd_catalog r) (e_id e) \<noteq> None" using that by (simp add: catalog_entry_None cat)
    then show ?thesis using apart [OF that] by (auto simp: estimate_source_of_def cat)
  qed
  ultimately show ?thesis using r by (auto simp: cat)
qed

lemma read_agrees_with_parse_witness:
  "\<exists>c r. catalog_parse (\<lambda>_. Inr two_models) [] = Inr c \<and>
     catalog_read (\<lambda>_. Inr two_models) one_more ''r'' [] = Inr r \<and>
     c_version (rd_catalog r) = c_version c"
proof -
  obtain c where c: "catalog_parse (\<lambda>_. Inr two_models) [] = Inr c" using two_models_read by blast
  from read_agrees_with_parse [OF c two_models_ok, of one_more "''r''"] c show ?thesis by blast
qed

end
