(* ===== verification/Router_Claims.thy ===== *)
theory Router_Claims
  imports Answer_Claims
begin

text \<open>
  The properties of what runs beside the requests: the catalog a request admits under while a
  reload changes it, the residents loaded at startup, the reaper, and the connections answered
  at once.
\<close>

section \<open>A catalog read before a reload\<close>

definition old_catalog :: catalog where
  "old_catalog = \<lparr>c_version = 1, c_entries = [plain_entry ''n'' 9 OnDemand], c_derived = {}, c_discovered = {}\<rparr>"

definition new_catalog :: catalog where
  "new_catalog = \<lparr>c_version = 1, c_entries = [plain_entry ''m'' 9 OnDemand, plain_entry ''n'' 9 OnDemand],
     c_derived = {}, c_discovered = {}\<rparr>"

text \<open>
  A request for \<open>n\<close> reads the catalog and, before it has the admission lock, a reload adds \<open>m\<close>
  and another request loads it.
\<close>

definition other_load :: "slots \<Rightarrow> slots" where
  "other_load s =
     fst (insert_child ''m'' demo_child (on_heap (arc_new 7) (resync new_catalog s)))"

definition late_calling :: calling where
  "late_calling = demo_calling\<lparr>cl_race := other_load,
     cl_turns := [\<lparr>t_now = 4, t_device = None, t_race = (\<lambda>s. s), t_after = 4, t_sleep = (\<lambda>s. s)\<rparr>],
     cl_loading := demo_load\<lparr>ld_server := Inr \<lparr>ch_id = ''n'', ch_port = 9, ch_pid = 8\<rparr>\<rparr>,
     cl_served := (\<lambda>_. new_catalog)\<rparr>"

definition old_router :: router where
  "old_router = router_new old_catalog ''catalog.toml'' ''r''
     (limits_new (budget_new (Some 10)) (IdleWindow None) (Wait 0))"

lemma old_slots: "rt_slots old_router = slots_new old_catalog (budget_new (Some 10)) (Wait 0)"
  by (simp add: old_router_def router_new_def limits_new_def)

lemma held_in_new [simp]: "held_in (slots_new c b w) i = None"
  by (auto simp: held_in_def slots_new_def split: option.splits dest: map_of_SomeD)

lemma held_in_other_load [simp]:
  "held_in (other_load s) i = (if i = ''m'' then Some demo_child else held_in s i)"
  by (simp add: other_load_def held_in_insert)

lemma map_filter_same:
  "(\<And>x. x \<in> set xs \<Longrightarrow> f x = g x) \<Longrightarrow> List.map_filter f xs = List.map_filter g xs"
  by (induction xs) (auto simp: List.map_filter_simps split: option.split)

lemma decide_blind:
  "decide c e device s =
     decide c e device (s\<lparr>by_id := (\<lambda>i. if i \<in> set (ids_of c) then by_id s i else None)\<rparr>)"
proof -
  let ?s = "s\<lparr>by_id := (\<lambda>i. if i \<in> set (ids_of c) then by_id s i else None)\<rparr>"
  have "held_in ?s (e_id x) = held_in s (e_id x)" if "x \<in> set (c_entries c)" for x
    using that by (simp add: held_in_def)
  then have "snapshot c f ?s = snapshot c f s" for f :: "entry \<Rightarrow> slot_loaded \<Rightarrow> loaded \<times> string option"
    unfolding snapshot_def by (intro map_filter_same) simp
  moreover have "as_held ?s = as_held s" by (simp add: as_held_def fun_eq_iff)
  ultimately have "held_and_guests c ?s = held_and_guests c s"
    by (simp only: held_and_guests_def)
  then show ?thesis by (simp add: decide_def)
qed

lemma late_fits: "admit_with_guests (budget_new (Some 10)) [] [] (wanted_of (plain_entry ''n'' 9 OnDemand)) None = Fits"
  by (simp add: admit_with_guests_def budget_new_def budget_with_probe_def wanted_of_def
      plain_entry_def room_short_def room_of_def freed_default_def sat_sub_def widen_def Let_def)

lemma other_load_frames [simp]:
  "slots_budget (other_load s) = slots_budget s" "slots_wait (other_load s) = slots_wait s"
  by (simp_all add: other_load_def insert_frames)
    (simp add: insert_child_def Let_def split: option.split)

abbreviation late_turn :: turn where
  "late_turn \<equiv> \<lparr>t_now = 4, t_device = None, t_race = (\<lambda>s. s), t_after = 4, t_sleep = (\<lambda>s. s)\<rparr>"

text \<open>Where nothing of the old catalog runs, the request has its room at its first turn.\<close>

lemma late_room:
  assumes "slots_budget s = budget_new (Some 10)" and "held_in s ''n'' = None"
  shows "room_for (\<lambda>_. True, None) old_catalog \<lparr>a_entry = plain_entry ''n'' 9 OnDemand, a_room = Any\<rparr>
    root now [late_turn] s = Some (leave_line None s, Inr None)"
proof -
  let ?e = "plain_entry ''n'' 9 OnDemand"
  have i: "e_id ?e = ''n''" by (simp add: plain_entry_def)
  have "held_and_guests old_catalog s = ([], [])"
    using assms(2) by (simp add: held_and_guests_def snapshot_def old_catalog_def i List.map_filter_simps)
  then have fits: "decide old_catalog ?e None s = Fits"
    using late_fits assms(1) by (simp add: decide_def)
  have "running ?e 4 s = (s, None)" by (rule running_empty) (simp add: i assms(2))
  then show ?thesis
    using fits by (simp add: room_for_def turn_step_def Let_def model_file_def look_def asked_refusal_def)
qed

lemma late_start:
  "\<exists>s2 new. slots_start a (cl_loading late_calling) s = (s2, Inr new) \<and> s_child new = 8 \<and>
     (\<forall>j. held_in s2 j = held_in s j)"
  by (simp add: slots_start_def Let_def late_calling_def demo_load_def)

lemma late_admitted:
  "\<exists>r'. shared_child (\<lambda>_. True, None) \<lparr>a_entry = plain_entry ''n'' 9 OnDemand, a_room = Any\<rparr>
       late_calling old_router = Some (r', Inr 8) \<and>
     rt_catalog r' = new_catalog \<and> (\<forall>i. held_in (rt_slots r') i \<noteq> None \<longleftrightarrow> i \<in> {''m'', ''n''})"
proof -
  let ?e = "plain_entry ''n'' 9 OnDemand"
  let ?a = "\<lparr>a_entry = ?e, a_room = Any\<rparr>"
  define s0 where "s0 = rt_slots old_router"
  define s1 where "s1 = other_load s0"
  have i: "e_id ?e = ''n''" by (simp add: plain_entry_def)
  have none: "held_in s0 j = None" for j by (simp add: s0_def old_slots)
  have slot: "by_id s1 ''n'' = Some None"
    using none [of "''n''"]
    by (simp add: s1_def other_load_def insert_child_def Let_def by_id_resync held_in_def
        new_catalog_def plain_entry_def split: option.splits)
  have "slots_budget s0 = budget_new (Some 10)" by (simp add: s0_def old_slots slots_new_def)
  then have room: "room_for (\<lambda>_. True, None) old_catalog ?a root now [late_turn] s1 =
      Some (leave_line None s1, Inr None)" for root now
    using none by (intro late_room) (simp_all add: s1_def)
  obtain s2 new where start: "slots_start ?a (cl_loading late_calling) (leave_line None s1) = (s2, Inr new)"
    "s_child new = 8" and same: "\<And>j. held_in s2 j = held_in s1 j"
    using late_start [of ?a "leave_line None s1"] by auto
  have run: "running ?e 3 s0 = (s0, None)" by (rule running_empty) (rule none)
  have k: "cl_between late_calling = (\<lambda>r. r)" "cl_now late_calling = 3" "cl_race late_calling = other_load"
    "cl_turns late_calling = [late_turn]" "cl_served late_calling = (\<lambda>_. new_catalog)"
    by (simp_all add: late_calling_def demo_calling_def)
  have c: "rt_catalog old_router = old_catalog" by (simp add: old_router_def router_new_def)
  obtain s3 where new: "insert_child ''n'' new s2 = (s3, 8)" and held: "\<And>j. held_in s3 j \<noteq> None \<longleftrightarrow> j = ''n'' \<or> held_in s2 j \<noteq> None"
    using start(2) held_in_insert [of "''n''" new s2] by (simp add: insert_child_def Let_def)
  have "shared_child (\<lambda>_. True, None) ?a late_calling old_router =
      Some (old_router\<lparr>rt_slots := s3, rt_catalog := new_catalog\<rparr>, Inr 8)"
    using run room slot start new
    by (simp add: shared_child_def child_for_def admit_entry_def k c i Let_def flip: s0_def s1_def)
  then show ?thesis using held same none by (auto simp: s1_def)
qed

text \<open>Admission sees only what its own catalog lists, and a request keeps the catalog it
  read before it had the admission lock: when a reload adds a model meanwhile and the model is
  loaded, the request is admitted beside it, and the two together exceed the budget.\<close>

lemma stale_catalog_overcommits:
  "decide c e device s =
     decide c e device (s\<lparr>by_id := (\<lambda>i. if i \<in> set (ids_of c) then by_id s i else None)\<rparr>) \<and>
   (\<exists>r k fs a r' child. slots_ok (rt_slots r) \<and> limit_mib (slots_budget (rt_slots r)) = Some 10 \<and>
      shared_child fs a k r = Some (r', Inr child) \<and> estimated (rt_catalog r') (rt_slots r') = 18)"
proof (rule conjI [OF decide_blind])
  obtain r' where r': "shared_child (\<lambda>_. True, None) \<lparr>a_entry = plain_entry ''n'' 9 OnDemand, a_room = Any\<rparr>
       late_calling old_router = Some (r', Inr 8)"
    "rt_catalog r' = new_catalog" "\<forall>i. held_in (rt_slots r') i \<noteq> None \<longleftrightarrow> i \<in> {''m'', ''n''}"
    using late_admitted by blast
  then have "held_in (rt_slots r') ''m'' \<noteq> None" "held_in (rt_slots r') ''n'' \<noteq> None" by simp_all
  then obtain x y where "held_in (rt_slots r') ''m'' = Some x" "held_in (rt_slots r') ''n'' = Some y"
    by (elim not_None_eq [THEN iffD1, THEN exE])
  with r'(2) have "estimated (rt_catalog r') (rt_slots r') = 18"
    by (simp add: estimated_def new_catalog_def plain_entry_def)
  moreover have "limit_mib (slots_budget (rt_slots old_router)) = Some 10"
    by (simp add: old_slots) (simp add: slots_new_def budget_new_def budget_with_probe_def)
  moreover have "slots_ok (rt_slots old_router)" by (simp add: old_slots)
  ultimately show "\<exists>r k fs a r' child. slots_ok (rt_slots r) \<and> limit_mib (slots_budget (rt_slots r)) = Some 10 \<and>
      shared_child fs a k r = Some (r', Inr child) \<and> estimated (rt_catalog r') (rt_slots r') = 18"
    using r'(1)
    by (intro exI [of _ old_router] exI [of _ late_calling] exI [of _ "(\<lambda>_. True, None)"]
        exI [of _ "\<lparr>a_entry = plain_entry ''n'' 9 OnDemand, a_room = Any\<rparr>"] exI [of _ r'] exI [of _ 8]) simp
qed

section \<open>The residents\<close>

text \<open>
  The failures recorded are the residents that could not be loaded, in catalog order, each with
  what its own load came to; one failure does not keep the next from being tried.
\<close>

lemma residents_loop_failures:
  assumes "residents_loop fs es ks r = Some r'"
    and "\<forall>(k, took) \<in> set ks. \<forall>r. rt_failures (cl_between k r) = rt_failures r"
  shows "\<exists>failed. rt_failures r' = rt_failures r @ map (\<lambda>(e, f). e_id e @ '': '' @ failure_text f) failed \<and>
    subseq (map fst failed) es"
  using assms
proof (induction fs es ks r rule: residents_loop.induct)
  case (3 fs e es k took ks r)
  obtain r1 x where c: "shared_child fs \<lparr>a_entry = e, a_room = Any\<rparr> k r = Some (r1, x)"
    using 3(3) by (auto split: option.splits)
  then have same: "rt_failures r1 = rt_failures r"
    using 3(4) by (auto simp: shared_child_def Let_def split: option.splits)
  show ?case
  proof (cases x)
    case (Inl f)
    with 3(1) [OF c refl Inl refl refl] 3(3,4) c same obtain failed where
      "rt_failures r' = rt_failures r @ map (\<lambda>(e, f). e_id e @ '': '' @ failure_text f) ((e, f) # failed)"
      "subseq (map fst failed) es"
      by (auto simp: Let_def)
    then show ?thesis by (intro exI [of _ "(e, f) # failed"]) simp
  next
    case (Inr ch)
    with 3(2) [OF c refl Inr] 3(3,4) c same show ?thesis by (auto intro: list_emb_Cons)
  qed
qed (auto intro: exI [of _ "[]"])

section \<open>The reaper\<close>

lemma reaper_sweep_quietly:
  assumes "slots_ok (rt_slots r)"
  shows "quietly (rt_slots r) (rt_slots (reaper_sweep now r))"
proof -
  let ?s = "sweep_exited (rt_catalog r) (rt_slots r)"
  have q: "quietly (rt_slots r) ?s" using assms by (rule quietly_exits)
  have q2: "quietly (rt_slots r) (fst (sweep_idle (rt_catalog r) (rt_window r) now ?s))"
    using quietly_trans [OF q quietly_idles [OF quietly_ok [OF q]]] .
  show ?thesis
    using quietly_trans [OF q2 quietly_says [OF quietly_ok [OF q2]], of idle_text]
    by (simp add: reaper_sweep_def case_prod_beta)
qed

lemma reaper_step:
  assumes "window_duration (rt_window r) = Some w" and "n < length (snd (reaper_run deadline (t # ts) r))"
    and "\<forall>r. rt_window (tk_sleep t r) = rt_window r"
  defines "later \<equiv> reaper_sweep (tk_wake t) (tk_sleep t r)"
  shows "snd (reaper_run deadline (t # ts) r) = next_sweep deadline w (tk_begin t) #
      snd (reaper_run (Some (next_sweep deadline w (tk_begin t))) ts later)"
    and "window_duration (rt_window later) = Some w"
  using assms by (auto simp: Let_def reaper_sweep_def split: if_splits prod.splits)

lemma reaper_deadlines:
  assumes "\<forall>t \<in> set ts. \<forall>r. rt_window (tk_sleep t r) = rt_window r"
    and "window_duration (rt_window r) = Some w" and "n < length (snd (reaper_run (Some p) ts r))"
  shows "snd (reaper_run (Some p) ts r) ! n = p + Suc n * max (w div 2) MIN_INTERVAL"
  using assms
proof (induction ts arbitrary: p r n)
  case Nil
  then show ?case by simp
next
  case (Cons t ts)
  let ?r = "reaper_sweep (tk_wake t) (tk_sleep t r)"
  have keeps: "\<forall>r. rt_window (tk_sleep t r) = rt_window r" using Cons.prems(1) by simp
  note run = reaper_step [OF Cons.prems(2,3) keeps]
  show ?case
  proof (cases n)
    case 0
    then show ?thesis unfolding run(1) by (simp add: next_sweep_def)
  next
    case (Suc m)
    then have "m < length (snd (reaper_run (Some (next_sweep (Some p) w (tk_begin t))) ts ?r))"
      using Cons.prems(3) unfolding run(1) by simp
    from Cons.IH [OF _ run(2) this] Cons.prems(1) Suc show ?thesis
      unfolding run(1) by (simp add: next_sweep_def algebra_simps)
  qed
qed

text \<open>The reaper keeps its schedule: its sleeps end half a window apart, or a tenth of a
  second when that is longer, counted from its first tick whatever the sweeps between take; and
  a sweep leaves the slots well formed with every lease as it was.\<close>

lemma reaper_keeps_its_schedule:
  assumes "\<forall>t \<in> set (t0 # ts). \<forall>r. rt_window (tk_sleep t r) = rt_window r"
    and "window_duration (rt_window r) = Some w" and "n < length (snd (reaper_run None (t0 # ts) r))"
    and "slots_ok (rt_slots r)"
  shows "snd (reaper_run None (t0 # ts) r) ! n = tk_begin t0 + Suc n * max (w div 2) (millis 100) \<and>
    slots_ok (rt_slots (reaper_sweep now r)) \<and> leases (rt_slots (reaper_sweep now r)) = leases (rt_slots r)"
proof -
  have keeps: "\<forall>r. rt_window (tk_sleep t0 r) = rt_window r" using assms(1) by simp
  note run = reaper_step [OF assms(2,3) keeps]
  have "snd (reaper_run None (t0 # ts) r) ! n = tk_begin t0 + Suc n * max (w div 2) (millis 100)"
  proof (cases n)
    case 0
    then show ?thesis unfolding run(1) by (simp add: next_sweep_def MIN_INTERVAL_def)
  next
    case (Suc m)
    then have "m < length (snd (reaper_run (Some (next_sweep None w (tk_begin t0))) ts
        (reaper_sweep (tk_wake t0) (tk_sleep t0 r))))"
      using assms(3) unfolding run(1) by simp
    from reaper_deadlines [OF _ run(2) this] assms(1) Suc show ?thesis
      unfolding run(1) by (simp add: next_sweep_def MIN_INTERVAL_def algebra_simps)
  qed
  with reaper_sweep_quietly [OF assms(4), of now] show ?thesis by (simp add: quietly_def)
qed

definition demo_tick :: "instant \<Rightarrow> tick" where
  "demo_tick now = \<lparr>tk_alive = True, tk_begin = now, tk_sleep = (\<lambda>r. r), tk_wake = now\<rparr>"

lemma reaper_keeps_its_schedule_witness:
  "snd (reaper_run None [demo_tick 5, demo_tick (seconds 3)] (demo_router\<lparr>rt_window := IdleWindow (Some (seconds 2))\<rparr>)) ! 1 =
     5 + 2 * seconds 1"
proof -
  let ?r = "demo_router\<lparr>rt_window := IdleWindow (Some (seconds 2))\<rparr>"
  have "rt_stopped demo_router = False" by (simp add: demo_router_def router_new_def)
  then have len: "1 < length (snd (reaper_run None [demo_tick 5, demo_tick (seconds 3)] ?r))"
    by (simp add: demo_tick_def Let_def case_prod_beta reaper_sweep_def)
  have "slots_ok demo_loaded" using reachable_steady [OF demo_reached] by (simp add: steady_def)
  then have ok: "slots_ok (rt_slots ?r)" by (simp add: demo_router_def)
  from reaper_keeps_its_schedule [OF _ _ len ok, of "seconds 2" 0] show ?thesis
    by (simp add: demo_tick_def seconds_def millis_def)
qed

section \<open>Connections\<close>

lemma door_step:
  assumes "accept_step listeners d d'"
    and "dr_free d + dr_accepting d + dr_answering d = limit" and "dr_accepting d \<le> listeners"
  shows "dr_free d' + dr_accepting d' + dr_answering d' = limit \<and> dr_accepting d' \<le> listeners"
  using assms
  by (induction rule: accept_step.induct)
    (auto simp: permit_take_def permit_give_def split: if_splits)

text \<open>Every listener has one accept loop, and a reaper runs exactly when there is a window.\<close>

lemma serve_workers_each_once:
  "distinct (serve_workers n r) \<and>
   (AcceptWorker i \<in> set (serve_workers n r) \<longleftrightarrow> i < n) \<and>
   (ReaperWorker \<in> set (serve_workers n r) \<longleftrightarrow> window_duration (rt_window r) \<noteq> None)"
  by (cases n) (auto simp: serve_workers_def accept_workers_def distinct_map inj_on_def less_Suc_eq)

text \<open>C37: Connections are bounded and never starved: however the accept loops, the failed
  accepts and the answered connections interleave, the turns free, the ones held by a listener
  waiting for a connection and the connections being answered add up to the limit -- at least
  one -- no listener waits with two, and while fewer than the limit are answered some listener
  is waiting for one or can take a turn to.\<close>

theorem connections_are_bounded:
  assumes "(accept_step listeners)\<^sup>*\<^sup>* (door_new limit) d" and "0 < listeners"
  shows "dr_free d + dr_accepting d + dr_answering d = max limit 1 \<and> dr_accepting d \<le> listeners \<and>
    (dr_answering d < max limit 1 \<longrightarrow>
      0 < dr_accepting d \<or> (\<exists>d'. accept_step listeners d d' \<and> dr_accepting d' = 1))"
proof -
  from assms(1) have inv: "dr_free d + dr_accepting d + dr_answering d = max limit 1 \<and> dr_accepting d \<le> listeners"
    by (induction rule: rtranclp_induct) (simp add: door_new_def permits_new_def, metis door_step)
  have "\<exists>d'. accept_step listeners d d' \<and> dr_accepting d' = 1"
    if "dr_answering d < max limit 1" "dr_accepting d = 0"
  proof -
    have "permit_take (dr_free d) = Some (dr_free d - 1)" using inv that by (simp add: permit_take_def)
    then have "accept_step listeners d (d\<lparr>dr_free := dr_free d - 1, dr_accepting := dr_accepting d + 1\<rparr>)"
      using assms(2) that by (intro accept_step.takes) simp_all
    then show ?thesis using that by (intro exI conjI) auto
  qed
  with inv show ?thesis by auto
qed

theorem connections_are_bounded_witness:
  "\<exists>d. dr_answering d = 1 \<and> (accept_step 1)\<^sup>*\<^sup>* (door_new 0) d \<and> dr_free d + dr_accepting d = 0"
proof -
  let ?d1 = "\<lparr>dr_free = 0, dr_accepting = 1, dr_answering = 0\<rparr>"
  let ?d2 = "\<lparr>dr_free = 0, dr_accepting = 0, dr_answering = 1\<rparr>"
  have "accept_step 1 (door_new 0) ?d1"
    using accept_step.takes [of "door_new 0" 1 0] by (simp add: door_new_def permits_new_def permit_take_def)
  moreover have "accept_step 1 ?d1 ?d2" using accept_step.accepts [of ?d1 1] by simp
  ultimately have r: "(accept_step 1)\<^sup>*\<^sup>* (door_new 0) ?d2" by (meson converse_rtranclp_into_rtranclp rtranclp.rtrancl_refl)
  from connections_are_bounded [OF r] have "dr_free ?d2 + dr_accepting ?d2 + dr_answering ?d2 = 1" by simp
  with r show ?thesis by (intro exI [of _ ?d2]) simp
qed

end
