(* ===== verification/Command_Line.thy ===== *)
theory Command_Line
  imports Router_State Catalog_Resolve Bench
begin

text \<open>
  The \<open>model-router\<close> binary: the argument table of \<open>arguments.rs\<close>, the commands of
  \<open>check.rs\<close>, \<open>launching.rs\<close> and \<open>serving.rs\<close>, the lines of \<open>startup.rs\<close>, and the wait for
  the end of the process. What the machine and the environment answer is one record.
\<close>

section \<open>The environment\<close>

record process_env =
  pe_read :: "string \<Rightarrow> string + string"
  pe_toml :: "string \<Rightarrow> string + table"
  pe_root_variable :: "string option"
  pe_home :: "string option"
  pe_disk :: disk
  pe_files :: files
  pe_probe :: probe
  pe_budget :: "string option"
  pe_idle :: "string option"
  pe_wait :: "string option"
  pe_key :: "string option"
  pe_origins :: "string option"
  pe_address :: "string \<Rightarrow> string + address"

definition models_root :: "process_env \<Rightarrow> failure + string" where
  "models_root en = models_root_from (pe_root_variable en) (pe_home en)"

text \<open>What a command says on standard output and standard error, and whether it succeeded.\<close>

record command_outcome =
  oc_out :: "string list"
  oc_err :: "string list"
  oc_success :: bool

section \<open>Startup lines\<close>

definition budget_line :: "u32 option \<Rightarrow> string \<Rightarrow> string" where
  "budget_line limit source =
     (case limit of
        Some l \<Rightarrow> ''memory budget: '' @ dec (unat l) @ '' MiB '' @ source
          @ '', so models are unloaded to make room''
      | None \<Rightarrow> ''memory budget: none set, so nothing is ever unloaded (set MAESTRO_MEMORY_BUDGET_MIB)'')"

definition idle_window_line :: "nat option \<Rightarrow> string" where
  "idle_window_line secs =
     (case secs of
        Some s \<Rightarrow> ''idle window: '' @ dec s
          @ '' seconds, so an unused on-demand model is unloaded after that long''
      | None \<Rightarrow> ''idle window: none set, so nothing is ever unloaded for sitting idle (set MAESTRO_IDLE_UNLOAD_SECONDS)'')"

definition reservation_line :: "u32 option \<Rightarrow> u64 \<Rightarrow> string" where
  "reservation_line limit reserved =
     (case limit of
        None \<Rightarrow> ''residents reserve '' @ dec64 reserved @ '' MiB, against no budget''
      | Some l \<Rightarrow>
          (if reserved \<le> widen l then
             ''residents reserve '' @ dec64 reserved @ '' MiB of '' @ dec64 (widen l)
             @ '' MiB, leaving '' @ dec64 (widen l - reserved) @ '' MiB for everything else''
           else
             ''residents reserve '' @ dec64 reserved @ '' MiB, more than the '' @ dec64 (widen l)
             @ '' MiB budget: what does not fit is refused''))"

definition admission_wait_line :: "bool \<Rightarrow> string" where
  "admission_wait_line does =
     (if does then ''a request whose room is held by a busy model waits for it rather than being refused''
      else ''a request whose room is held is refused at once (set MAESTRO_ADMISSION_WAIT_SECONDS to wait for it)'')"

section \<open>Reading the catalog\<close>

definition command_read :: "process_env \<Rightarrow> string \<Rightarrow> string + catalog" where
  "command_read en path =
     (case pe_read en path of
        Inl e \<Rightarrow> Inl (''cannot read '' @ path @ '': '' @ e)
      | Inr contents \<Rightarrow>
          (case catalog_parse (pe_toml en) contents of
             Inl problems \<Rightarrow> Inl (path @ '' is not usable:'' @ lf @ report_text problems)
           | Inr c \<Rightarrow> Inr c))"

definition complain_of :: "string \<Rightarrow> string list \<Rightarrow> command_outcome" where
  "complain_of path problems =
     \<lparr>oc_out = [], oc_err = (path @ '' is not usable:'') # map (\<lambda>p. ''  '' @ p) problems,
      oc_success = False\<rparr>"

text \<open>The root a catalog is checked against: one that is set, and is a directory.\<close>

definition check_root :: "process_env \<Rightarrow> string option" where
  "check_root en =
     (case models_root en of
        Inl _ \<Rightarrow> None
      | Inr root \<Rightarrow> if dk_is_dir (pe_disk en) root then Some root else None)"

definition check_command :: "process_env \<Rightarrow> string \<Rightarrow> command_outcome" where
  "check_command en path =
     (case pe_read en path of
        Inl e \<Rightarrow> \<lparr>oc_out = [], oc_err = [''cannot read '' @ path @ '': '' @ e], oc_success = False\<rparr>
      | Inr contents \<Rightarrow>
          (case check_root en of
             Some root \<Rightarrow>
               (case catalog_read (pe_toml en) (pe_disk en) root contents of
                  Inr r \<Rightarrow>
                    \<lparr>oc_out = (path @ '' is valid: '' @ dec (length (c_entries (rd_catalog r)))
                        @ '' models, '' @ dec (rd_declared r) @ '' declared and ''
                        @ dec (reading_discovered r) @ '' found under the root'')
                        # map (\<lambda>n. ''  '' @ n) (rd_notes r),
                     oc_err = [], oc_success = True\<rparr>
                | Inl problems \<Rightarrow> complain_of path problems)
           | None \<Rightarrow>
               (case catalog_parse (pe_toml en) contents of
                  Inr c \<Rightarrow>
                    \<lparr>oc_out = [path @ '' is valid: '' @ dec (length (c_entries c))
                        @ '' models (shape only -- no models root on this machine, so nothing was ''
                        @ ''checked against its files)''],
                     oc_err = [], oc_success = True\<rparr>
                | Inl problems \<Rightarrow> complain_of path problems)))"

section \<open>The launch command\<close>

text \<open>\<open>took\<close> prints the seconds the start took; the child is stopped before the command ends.\<close>

definition launch_command ::
    "process_env \<Rightarrow> string \<Rightarrow> string \<Rightarrow> system \<Rightarrow> system \<Rightarrow> string \<Rightarrow> nat set \<Rightarrow>
     ((string + string list) \<times> nat set) option" where
  "launch_command en path i y y' took procs =
     (case command_read en path of
        Inl e \<Rightarrow> Some (Inl e, procs)
      | Inr parsed \<Rightarrow>
          (case catalog_entry parsed i of
             None \<Rightarrow> Some (Inl (path @ '' carries no model called '' @ quoted i), procs)
           | Some e \<Rightarrow>
               (case models_root en of
                  Inl f \<Rightarrow> Some (Inl (failure_text f), procs)
                | Inr root \<Rightarrow>
                    (case located (fst (pe_files en)) (snd (pe_files en)) None of
                       Inl f \<Rightarrow> Some (Inl (failure_text f), procs)
                     | Inr binary \<Rightarrow>
                         (case start (pe_files en) binary e root y y' procs of
                            None \<Rightarrow> None
                          | Some (Inl f, procs') \<Rightarrow> Some (Inl (failure_text f), procs')
                          | Some (Inr ch, procs') \<Rightarrow>
                              Some (Inr [i @ '' is ready at http://127.0.0.1:'' @ dec (unat (ch_port ch))
                                  @ '' after '' @ took @ '' seconds'', i @ '' stopped''],
                                procs' - {ch_pid ch}))))))"

section \<open>The serve command\<close>

definition DEFAULT_ADDRESS :: string where "DEFAULT_ADDRESS = ''127.0.0.1:8080''"

definition addresses :: "process_env \<Rightarrow> string \<Rightarrow> string + address list" where
  "addresses en operand =
     collect (\<lambda>piece. case pe_address en piece of
           Inl e \<Rightarrow> Inl (quoted piece @ '' is not an address to bind: '' @ e)
         | Inr ad \<Rightarrow> Inr ad)
       (filter (\<lambda>piece. piece \<noteq> []) (map trim (split_on (CHR '','') operand)))"

definition configured :: "process_env \<Rightarrow> string + budget \<times> idle_window \<times> wait" where
  "configured en =
     (case budget_from_variable (pe_budget en) (pe_probe en) of
        Inl e \<Rightarrow> Inl e
      | Inr b \<Rightarrow>
          (case idle_from_variable (pe_idle en) of
             Inl e \<Rightarrow> Inl e
           | Inr i \<Rightarrow>
               (case wait_from_variable (pe_wait en) of
                  Inl e \<Rightarrow> Inl e
                | Inr w \<Rightarrow> Inr (b, i, w))))"

definition startup_lines :: "string list \<Rightarrow> string \<Rightarrow> limits \<Rightarrow> u64 \<Rightarrow> string \<Rightarrow> string list" where
  "startup_lines bound first l reserved build =
     map (\<lambda>ad. ''serving on http://'' @ ad) bound
     @ [''  http://'' @ first @ ''/models/<model>/v1/chat/completions'',
        ''  http://'' @ first @ ''/v1/chat/completions   (routed by the body'' @ quote1 @ ''s model)'',
        ''  POST http://'' @ first @ ''/reload                (re-reads the catalog)'',
        access_described (lm_access l),
        budget_line (limit_mib (lm_budget l)) (budget_source (lm_budget l)),
        admission_wait_line (waits (lm_wait l))]
     @ (if 0 < reserved then [reservation_line (limit_mib (lm_budget l)) reserved] else [])
     @ [idle_window_line (window_seconds (lm_idle_window l)),
        ''a streamed reply is passed through as it arrives'', build]"

text \<open>
  Up to the router that is served, with the notices on standard error and the lines on standard
  output. \<open>tries\<close> are the tries of each address while it waits to be assigned.
\<close>

definition serve_setup ::
    "process_env \<Rightarrow> string \<Rightarrow> string option \<Rightarrow> (address \<Rightarrow> (bind_try \<times> instant) list) \<Rightarrow> instant \<Rightarrow>
     (address \<Rightarrow> string + 'l) \<Rightarrow> ('l \<Rightarrow> string + string) \<Rightarrow> string \<Rightarrow>
     (string + router \<times> string list \<times> string list) option" where
  "serve_setup en path operand tries now bind local build =
     (case command_read en path of
        Inl e \<Rightarrow> Some (Inl e)
      | Inr parsed \<Rightarrow>
     (case models_root en of
        Inl f \<Rightarrow> Some (Inl (failure_text f))
      | Inr root \<Rightarrow>
     (case located (fst (pe_files en)) (snd (pe_files en)) None of
        Inl f \<Rightarrow> Some (Inl (failure_text f))
      | Inr _ \<Rightarrow>
     (case addresses en (case operand of None \<Rightarrow> DEFAULT_ADDRESS | Some a \<Rightarrow> a) of
        Inl e \<Rightarrow> Some (Inl e)
      | Inr wanted \<Rightarrow>
     (case configured en of
        Inl e \<Rightarrow> Some (Inl e)
      | Inr (b, i, w) \<Rightarrow>
          (let l = with_access (access_from_variables (pe_key en) (pe_origins en)) (limits_new b i w) in
     (case await_assigned (now + ASSIGNED_WITHIN) (map (\<lambda>ad. (ad, tries ad)) wanted) of
        None \<Rightarrow> None
      | Some notices \<Rightarrow>
     (case router_bind bind local wanted parsed path root l of
        Inl f \<Rightarrow> Some (Inl (failure_text f))
      | Inr (first, bound, r) \<Rightarrow>
          Some (Inr (r, notices,
            startup_lines bound first l (resident_reservation_mib parsed) build))))))))))"

section \<open>The end of the process\<close>

datatype ending = Signalled | Stopped | ServedEnd

definition children_text :: "nat \<Rightarrow> string" where
  "children_text n = (if n = 1 then ''1 child'' else dec n @ '' children'')"

text \<open>
  What the waiting thread hears, one message after another (\<open>None\<close> when every sender is gone),
  and what the stop a first signal starts does on its own thread to the router as it finds it.
  The result is the ending or the complaint, with how many stops were started; it is \<open>None\<close>
  while the thread still waits.
\<close>

fun wait_for_the_end :: "bool \<Rightarrow> ending option list \<Rightarrow> ((string + ending) \<times> nat) option" where
  "wait_for_the_end signalled [] = None"
| "wait_for_the_end signalled (m # ms) =
     (case m of
        Some Signalled \<Rightarrow>
          (if signalled then
             Some (Inl ''signalled again: exiting without waiting for the children'', 0)
           else map_option (\<lambda>(r, stops). (r, stops + 1)) (wait_for_the_end True ms))
      | Some Stopped \<Rightarrow> Some (Inr Stopped, 0)
      | Some ServedEnd \<Rightarrow> Some (Inr ServedEnd, 0)
      | None \<Rightarrow> Some (Inr ServedEnd, 0))"

definition stop_thread :: "string list \<Rightarrow> router \<Rightarrow> router \<times> string" where
  "stop_thread order r =
     (router_stop order r, ''stopping: ended '' @ children_text (length (router_loaded r)))"

text \<open>
  Waiting for the end: why no handler of signals could be set or no thread spawned, if so, what the
  waiting thread then hears, and whether the serving thread panicked. A serving thread that
  panicked panics here too.
\<close>

datatype process_end = Complains string | Returns | Panics

definition until_ended ::
    "string option \<Rightarrow> string option \<Rightarrow> ending option list \<Rightarrow> bool \<Rightarrow> process_end option" where
  "until_ended unhandled unspawned ms panicked =
     (case unhandled of
        Some e \<Rightarrow> Some (Complains (''cannot handle termination signals: '' @ e))
      | None \<Rightarrow>
          (case unspawned of
             Some e \<Rightarrow> Some (Complains (''cannot start serving: '' @ e))
           | None \<Rightarrow>
               (case wait_for_the_end False ms of
                  None \<Rightarrow> None
                | Some (Inl why, _) \<Rightarrow> Some (Complains why)
                | Some (Inr e, _) \<Rightarrow> Some (if e = ServedEnd \<and> panicked then Panics else Returns))))"

section \<open>The argument table\<close>

definition USAGE :: string where
  "USAGE = ''usage: model-router check <catalog>'' @ lf
     @ ''       model-router bench <catalog> [model]'' @ lf
     @ ''       model-router launch <catalog> <model>'' @ lf
     @ ''       model-router serve <catalog> [address[,address...]]'' @ lf
     @ ''       model-router --version''"

datatype invocation =
    Version
  | Check string
  | BenchAll string
  | BenchOne string string
  | LaunchOne string string
  | Serve string "string option"
  | Usage

definition invocation_named :: "string list \<Rightarrow> invocation" where
  "invocation_named args =
     (case args of
        [flag] \<Rightarrow> if flag = ''--version'' \<or> flag = ''-V'' then Version else Usage
      | [command, path] \<Rightarrow>
          (if command = ''check'' then Check path
           else if command = ''bench'' then BenchAll path
           else if command = ''serve'' then Serve path None
           else Usage)
      | [command, path, operand] \<Rightarrow>
          (if command = ''bench'' then BenchOne path operand
           else if command = ''launch'' then LaunchOne path operand
           else if command = ''serve'' then Serve path (Some operand)
           else Usage)
      | _ \<Rightarrow> Usage)"

definition report_outcome :: "string + unit \<Rightarrow> command_outcome" where
  "report_outcome x =
     (case x of
        Inr _ \<Rightarrow> \<lparr>oc_out = [], oc_err = [], oc_success = True\<rparr>
      | Inl complaint \<Rightarrow> \<lparr>oc_out = [], oc_err = [complaint], oc_success = False\<rparr>)"

end
