(* ===== verification/Command_Claims.thy ===== *)
theory Command_Claims
  imports Command_Line Resolve_Facts Router_Claims
begin

text \<open>
  The properties of the commands: what \<open>check\<close> accepts beside what \<open>serve\<close> does, what \<open>launch\<close>
  leaves behind, and what a signal ends.
\<close>

section \<open>Which catalogs are settled\<close>

lemma settle_problems:
  "st_problems (foldl (settle d root u) l es) = [] \<longleftrightarrow>
     st_problems l = [] \<and> filter (\<lambda>e. e_id e \<in> set u \<and> isl (derive (dk_files d) root e)) es = []"
proof (induction es arbitrary: l)
  case Nil
  then show ?case by simp
next
  case (Cons e es)
  have "st_problems (settle d root u l e) = [] \<longleftrightarrow>
      st_problems l = [] \<and> \<not> (e_id e \<in> set u \<and> isl (derive (dk_files d) root e))"
    by (auto simp: settle_def Let_def split: sum.split)
  with Cons [of "settle d root u l e"] show ?case by auto
qed

text \<open>What is left to a root: the estimates nobody declared, when they are all that is missing.\<close>

definition derivable :: "disk \<Rightarrow> string \<Rightarrow> drafts \<Rightarrow> bool" where
  "derivable d root ds \<longleftrightarrow>
     ds_problems ds = [] \<and>
     filter (\<lambda>e. e_id e \<in> set (ds_undeclared ds) \<and> isl (derive (dk_files d) root e)) (ds_entries ds) = []"

lemma read_accepts:
  "(\<exists>r. catalog_read toml d root contents = Inr r) \<longleftrightarrow>
     (\<exists>ds. drafts_of toml contents = Inr ds \<and> derivable d root ds)"
proof (cases "drafts_of toml contents")
  case (Inr ds)
  then show ?thesis
    using settle_problems [of d root "ds_undeclared ds"
        "\<lparr>st_entries = [], st_notes = [], st_problems = ds_problems ds, st_derived = {}\<rparr>" "ds_entries ds"]
    by (auto simp: catalog_read_def derivable_def Let_def)
qed (simp add: catalog_read_def)

lemma parse_accepts:
  "(\<exists>c. catalog_parse toml contents = Inr c) \<longleftrightarrow>
     (\<exists>ds. drafts_of toml contents = Inr ds \<and> ds_problems ds = [] \<and> ds_undeclared ds = [])"
  by (auto simp: catalog_parse_def Let_def split: sum.splits)

lemma check_success:
  "oc_success (check_command en path) \<longleftrightarrow>
     (\<exists>contents. pe_read en path = Inr contents \<and>
        (case check_root en of
           Some root \<Rightarrow> \<exists>r. catalog_read (pe_toml en) (pe_disk en) root contents = Inr r
         | None \<Rightarrow> \<exists>c. catalog_parse (pe_toml en) contents = Inr c))"
  by (auto simp: check_command_def complain_of_def split: sum.splits option.splits)

lemma command_reads:
  "(\<exists>c. command_read en path = Inr c) \<longleftrightarrow>
     (\<exists>contents c. pe_read en path = Inr contents \<and> catalog_parse (pe_toml en) contents = Inr c)"
  by (auto simp: command_read_def split: sum.splits)

text \<open>An environment with a root, and a catalog of one model whose estimate nobody declared.\<close>

definition undeclared_model :: table where
  "undeclared_model =
     [(''models'', TTable [(''chat'', TTable [(''context_size'', TInt 4096), (''path'', TStr ''chat.gguf'')])]),
      (''version'', TInt 1)]"

definition rooted :: process_env where
  "rooted =
     \<lparr>pe_read = (\<lambda>_. Inr []), pe_toml = (\<lambda>_. Inr undeclared_model), pe_root_variable = Some ''r'',
      pe_home = None, pe_disk = one_more\<lparr>dk_is_dir := (\<lambda>p. p = ''r'')\<rparr>, pe_files = (\<lambda>_. True, None),
      pe_probe = probe_none, pe_budget = None, pe_idle = None, pe_wait = None, pe_key = None,
      pe_origins = None, pe_address = Inl\<rparr>"

lemma derive_of_size:
  assumes "fs (resolve (e_path e) root) = Some c" and "isl (metadata_read (Some c))"
    and "file_name (resolve (e_path e) root) = Some n" and "shard_of n = None"
  shows "\<not> isl (derive fs root e)"
proof -
  have "\<exists>w. weights_of fs (resolve (e_path e) root) None = Inr w"
    using assms by (simp add: weights_of_def size_of_def Let_def)
  moreover have "result_option (metadata_read (fs (resolve (e_path e) root))) = None"
    using assms(1,2) by (cases "metadata_read (Some c)") (simp_all add: result_option_def)
  ultimately show ?thesis by (auto simp: derive_def Let_def)
qed

lemma rooted_drafts:
  "\<exists>ds. drafts_of (pe_toml rooted) [] = Inr ds \<and> ds_problems ds = [] \<and> ds_undeclared ds = [''chat''] \<and>
     map (\<lambda>e. as_str (e_path e)) (ds_entries ds) = [''chat.gguf'']"
proof -
  have "case drafts_of (\<lambda>_. Inr undeclared_model) [] of
      Inl _ \<Rightarrow> False
    | Inr ds \<Rightarrow> ds_problems ds = [] \<and> ds_undeclared ds = [''chat''] \<and>
        map (\<lambda>e. as_str (e_path e)) (ds_entries ds) = [''chat.gguf'']"
    by code_simp
  then show ?thesis by (simp add: rooted_def split: sum.splits)
qed

lemma rooted_derivable:
  "\<exists>ds. drafts_of (pe_toml rooted) [] = Inr ds \<and> derivable (pe_disk rooted) ''r'' ds \<and> ds_undeclared ds \<noteq> []"
proof -
  obtain ds where ds: "drafts_of (pe_toml rooted) [] = Inr ds" "ds_problems ds = []"
    "ds_undeclared ds = [''chat'']" "map (\<lambda>e. as_str (e_path e)) (ds_entries ds) = [''chat.gguf'']"
    using rooted_drafts by (elim exE conjE) (rule that)
  obtain e where e: "ds_entries ds = [e]" "as_str (e_path e) = ''chat.gguf''"
    using ds(4) by (auto simp: map_eq_Cons_conv)
  have model: "resolve (e_path e) ''r'' = ''r/chat.gguf''"
    by (simp add: resolve_def e(2) path_join_def starts_with_def)
  have name: "file_name ''r/chat.gguf'' = Some ''chat.gguf''" "shard_of ''chat.gguf'' = None"
    by code_simp+
  have "isl (metadata_read (Some ''not a model''))"
    by (simp add: metadata_read_def fill_def read_exact_def)
  then have "\<not> isl (derive (dk_files (pe_disk rooted)) ''r'' e)"
    using name by (intro derive_of_size [where c = "''not a model''" and n = "''chat.gguf''"])
      (simp_all add: model rooted_def one_more_def)
  with ds e(1) show ?thesis by (simp add: derivable_def)
qed

section \<open>Properties of the commands\<close>

text \<open>C34: \<open>check\<close> calls a catalog valid exactly when \<open>serve\<close> and \<open>launch\<close> can read it, or when it
  has a models root, all that is missing is estimates nobody declared, and every one of them can
  be derived from its files; that last case arises, so a catalog can be valid and not served.\<close>

theorem check_accepts_more_than_serve:
  "(oc_success (check_command en path) \<longleftrightarrow>
      (\<exists>c. command_read en path = Inr c) \<or>
      (\<exists>root contents ds. check_root en = Some root \<and> pe_read en path = Inr contents \<and>
         drafts_of (pe_toml en) contents = Inr ds \<and> ds_undeclared ds \<noteq> [] \<and>
         derivable (pe_disk en) root ds)) \<and>
   (\<exists>en path e. oc_success (check_command en path) \<and> command_read en path = Inl e)"
proof (rule conjI)
  have plain: "ds_problems ds = [] \<and> ds_undeclared ds = [] \<Longrightarrow> derivable d root ds" for ds d root
    by (simp add: derivable_def)
  show "oc_success (check_command en path) \<longleftrightarrow>
      (\<exists>c. command_read en path = Inr c) \<or>
      (\<exists>root contents ds. check_root en = Some root \<and> pe_read en path = Inr contents \<and>
         drafts_of (pe_toml en) contents = Inr ds \<and> ds_undeclared ds \<noteq> [] \<and>
         derivable (pe_disk en) root ds)"
  proof (cases "check_root en")
    case None
    then show ?thesis unfolding check_success command_reads by simp
  next
    case (Some root)
    then show ?thesis
      unfolding check_success command_reads read_accepts using plain [of _ "pe_disk en" root]
      by (auto simp: parse_accepts [unfolded ex_simps] derivable_def)
  qed
next
  obtain ds where ds: "drafts_of (pe_toml rooted) [] = Inr ds" "derivable (pe_disk rooted) ''r'' ds"
    "ds_undeclared ds \<noteq> []"
    using rooted_derivable by (elim exE conjE) (rule that)
  have root: "check_root rooted = Some ''r''" "pe_read rooted ''c'' = Inr []"
    by (simp_all add: check_root_def models_root_def models_root_from_def rooted_def)
  have "\<exists>r. catalog_read (pe_toml rooted) (pe_disk rooted) ''r'' [] = Inr r"
    using ds by (auto simp: read_accepts)
  then have "oc_success (check_command rooted ''c'')" using root by (simp add: check_success)
  moreover have "\<nexists>c. command_read rooted ''c'' = Inr c"
    using ds root parse_accepts [of "pe_toml rooted" "[]"] by (auto simp: command_reads)
  then obtain e where "command_read rooted ''c'' = Inl e" by (cases "command_read rooted ''c''") auto
  ultimately show "\<exists>en path e. oc_success (check_command en path) \<and> command_read en path = Inl e"
    by (intro exI [of _ rooted] exI [of _ "''c''"] exI [of _ e] conjI)
qed

text \<open>A launch proves a child starts and leaves the processes there were.\<close>

lemma launch_leaves_nothing_running:
  assumes "launch_command en path i y y' took procs = Some (r, procs')"
    and "\<And>pid. y_spawn y = Inr pid \<or> y_spawn y' = Inr pid \<Longrightarrow> pid \<notin> procs"
  shows "procs' = procs"
proof -
  have ended: "procs1 - {ch_pid ch} = procs"
    if "start (pe_files en) b e root y y' procs = Some (Inr ch, procs1)" for b e root ch procs1
    using start_processes [OF that assms(2)] start_spawned [OF that] assms(2) by auto
  have failed: "procs1 = procs"
    if "start (pe_files en) b e root y y' procs = Some (Inl f, procs1)" for b e root f procs1
    using start_processes [OF that assms(2)] by simp
  show ?thesis
    using assms(1)
    by (auto simp only: launch_command_def split: sum.splits option.splits prod.splits)
      (auto dest: failed ended)
qed

text \<open>A measurement leaves the processes there were, whether the entry started or not, so no
  entry is measured beside another; the command ends with none of its children running.\<close>

lemma bench_leaves_nothing_running:
  assumes "bench_command toml path src root fs only how now procs = Some (r, procs')"
    and "\<And>e y pid. y \<in> {mg_first (how e), mg_second (how e)} \<Longrightarrow> y_spawn y = Inr pid \<Longrightarrow> pid \<notin> procs"
  shows "procs' = procs \<and>
    (\<forall>binary models es rows measured after.
       table_rows fs binary models (map (\<lambda>e. (e, how e)) es) procs = Some (rows, measured, after) \<longrightarrow>
       after = replicate (length es) procs)"
proof -
  have fresh: "y_spawn y = Inr pid \<Longrightarrow> pid \<notin> procs"
    if "y \<in> {mg_first (how e), mg_second (how e)}" for e y pid using assms(2) that by blast
  have rows: "after = replicate (length es) procs"
    if "table_rows fs binary models (map (\<lambda>e. (e, how e)) es) procs = Some (rows, measured, after)"
    for binary models es rows measured after
    using table_rows_processes [OF that] fresh by auto
  from assms(1) have "procs' = procs"
    by (auto simp: bench_command_def Let_def split: sum.splits option.splits if_splits dest!: rows)
  with rows show ?thesis by blast
qed

text \<open>Two models, neither of which finds a port.\<close>

definition never_starts :: measuring where
  "never_starts =
     (let fails = \<lparr>y_port = Inl ''none'', y_spawn = Inl ''none'', y_polls = []\<rparr> in
      \<lparr>mg_before = None, mg_first = fails, mg_second = fails, mg_load = [], mg_process = None,
       mg_after = None, mg_rate = None\<rparr>)"

lemma never_measured:
  "\<exists>f. measure_entry (\<lambda>_. True, path) binary e root never_starts procs = Some (Inl f, procs)"
  by (simp add: measure_entry_def start_def attempt_def spawn_def model_file_def never_starts_def Let_def)

lemma never_rows:
  "\<exists>rows. table_rows (\<lambda>_. True, path) binary root (map (\<lambda>e. (e, never_starts)) es) procs =
     Some (rows, [], replicate (length es) procs)"
proof (induction es)
  case (Cons e es)
  obtain f where "measure_entry (\<lambda>_. True, path) binary e root never_starts procs = Some (Inl f, procs)"
    using never_measured by blast
  with Cons show ?case by auto
qed simp

lemma bench_leaves_nothing_running_witness:
  "\<exists>r. bench_command (\<lambda>_. Inr two_models) ''c'' (Inr []) (Inr ''r'') (\<lambda>_. True, Some [''b'']) None
     (\<lambda>_. never_starts) 0 {7} = Some (Inr r, {7})"
proof -
  obtain c where c: "catalog_parse (\<lambda>_. Inr two_models) [] = Inr c" using two_models_read by (elim exE)
  have "case catalog_parse (\<lambda>_. Inr two_models) [] of Inl _ \<Rightarrow> False | Inr c \<Rightarrow> c_entries c \<noteq> []"
    by code_simp
  with c have "c_entries c \<noteq> []" by simp
  then have wanted: "bench_wanted c None \<noteq> []" by (simp add: bench_wanted_def)
  have at: "located (\<lambda>_. True) (Some [''b'']) None = Inr (path_join ''b'' ''llama-server'')"
    by (simp add: located_def on_search_path_def)
  obtain r procs' where run: "bench_command (\<lambda>_. Inr two_models) ''c'' (Inr []) (Inr ''r'')
      (\<lambda>_. True, Some [''b'']) None (\<lambda>_. never_starts) 0 {7} = Some (Inr r, procs')"
    using never_rows [of "Some [''b'']" "path_join ''b'' ''llama-server''" "''r''" "bench_wanted c None" "{7}"]
      wanted c at by (auto simp: bench_command_def Let_def)
  have "procs' = {7} \<and> (\<forall>binary models es rows measured after.
       table_rows (\<lambda>_. True, Some [''b'']) binary models (map (\<lambda>e. (e, never_starts)) es) {7} =
         Some (rows, measured, after) \<longrightarrow> after = replicate (length es) {7})"
    by (rule bench_leaves_nothing_running [OF run]) (auto simp: never_starts_def Let_def)
  with run show ?thesis by auto
qed

section \<open>The end of the process\<close>

text \<open>At most one stop is started, by the first signal, and a second signal does not wait for it.\<close>

lemma ends_at_the_second_signal:
  "wait_for_the_end True ms = Some (x, n) \<Longrightarrow> n = 0"
  by (induction ms) (auto split: option.splits ending.splits)

lemma one_stop_at_most:
  assumes "wait_for_the_end False ms = Some (x, n)"
  shows "n = (if \<exists>rest. ms = Some Signalled # rest then 1 else 0)"
  using assms ends_at_the_second_signal
  by (cases ms) (auto split: option.splits ending.splits)

text \<open>The process panics only for its serving thread, and a stop that came first ends it in order.\<close>

lemma until_ended_panics:
  "until_ended h s ms p = Some Panics \<longleftrightarrow>
     h = None \<and> s = None \<and> p \<and> (\<exists>n. wait_for_the_end False ms = Some (Inr ServedEnd, n))"
  by (auto simp: until_ended_def split: option.split sum.split)

lemma until_ended_after_stop:
  "wait_for_the_end False ms = Some (Inr Stopped, n) \<Longrightarrow> until_ended None None ms p = Some Returns"
  by (simp add: until_ended_def)

lemma second_signal_is_a_complaint:
  "wait_for_the_end False (Some Signalled # Some Signalled # ms) =
     Some (Inl ''signalled again: exiting without waiting for the children'', 1)"
  by simp

lemma clear_empties: "i \<in> set order \<or> by_id s i = None \<Longrightarrow> held_in (clear order s) i = None"
  by (auto simp: clear_def held_in_def Let_def split: option.split)

lemma stop_is_clear:
  "rt_slots (fst (stop_thread order r)) = clear order (rt_slots r)" "rt_stopped (fst (stop_thread order r))"
  by (simp_all add: stop_thread_def router_stop_def on_slots_def)

text \<open>
  A load in progress when a stop runs: while \<open>Server::start\<close> waits for the child to be ready,
  the thread of the stop empties the slots.
\<close>

definition stopped_meanwhile :: "string list \<Rightarrow> router \<Rightarrow> loading \<Rightarrow> bool" where
  "stopped_meanwhile order r ld =
     (ld_race ld = (\<lambda>s. rt_slots (fst (stop_thread order (r\<lparr>rt_slots := s\<rparr>)))))"

lemma load_outlives_the_stop:
  assumes "set order = dom (by_id (rt_slots r))" and "stopped_meanwhile order r ld"
    and "ld_server ld = Inr ch" and "slots_start a ld (rt_slots r) = (s2, started)"
  shows "\<exists>new s3. started = Inr new \<and> s_child new = ch_pid ch \<and>
    insert_child i new s2 = (s3, ch_pid ch) \<and> held_in s3 i = Some new \<and>
    ch_pid ch \<in># leases s3 \<and> heap_of s3 (ch_pid ch) \<noteq> None"
proof -
  let ?say = "say (e_id (a_entry a) @ '': loading, estimated at ''
    @ dec (unat (e_memory_estimate_mib (a_entry a))) @ '' MiB'') (rt_slots r)"
  have race: "ld_race ld ?say = clear order ?say"
    using assms(2) by (simp add: stopped_meanwhile_def stop_is_clear)
  have none: "held_in (clear order ?say) j = None" for j
    by (rule clear_empties) (use assms(1) in \<open>auto simp: say_def\<close>)
  obtain m l where m: "started = Inr \<lparr>s_child = ch_pid ch, s_last_used = ld_now ld, s_measured = m,
        s_guest = (a_room a = Free)\<rparr>"
      and s2: "s2 = on_heap (arc_new (ch_pid ch)) (say l (clear order ?say))"
    using assms(3,4) race by (auto simp: slots_start_def Let_def)
  have "held_in s2 j = None" for j using none by (simp add: s2)
  moreover have "heap_of s2 (ch_pid ch) \<noteq> None" by (simp add: s2 on_heap_def arc_new_def)
  ultimately show ?thesis
    by (intro exI [of _ "\<lparr>s_child = ch_pid ch, s_last_used = ld_now ld, s_measured = m,
        s_guest = (a_room a = Free)\<rparr>"])
      (simp add: m insert_child_def Let_def lease_new_def put_slot_def on_heap_def held_in_def
        arc_clone_def split: option.split)
qed

text \<open>C18: The stop a signal starts empties every slot and gives up the router's hold on every
  child: what is left running of the children the slots held is exactly what a request still
  reads, and the router is stopped. The stop does not reach a load in progress: whatever is being
  loaded, a child that \<open>Server::start\<close> returns after that same stop is put in its emptied slot,
  leased by the request it was loaded for and running. \<open>README.md:550\<close> says that the router ends
  every child it started; this is where it does not.\<close>

theorem stop_ends_what_nobody_reads:
  assumes "slots_ok (rt_slots r)" and "distinct order" and "set order = dom (by_id (rt_slots r))"
    and "stop_thread order r = (r', l)"
  shows "(\<forall>i. held_in (rt_slots r') i = None) \<and> leases (rt_slots r') = leases (rt_slots r) \<and>
    (\<forall>c. heap_of (rt_slots r') c \<noteq> None \<longleftrightarrow> c \<in># leases (rt_slots r)) \<and>
    rt_stopped r' \<and>
    (stopped_meanwhile order r ld \<and> ld_server ld = Inr ch \<and>
       slots_start a ld (rt_slots r) = (s2, started) \<longrightarrow>
     (\<exists>new s3. started = Inr new \<and> s_child new = ch_pid ch \<and>
        insert_child i new s2 = (s3, ch_pid ch) \<and> held_in s3 i = Some new \<and>
        ch_pid ch \<in># leases s3 \<and> heap_of s3 (ch_pid ch) \<noteq> None))"
proof -
  have r': "rt_slots r' = clear order (rt_slots r)" "rt_stopped r'"
    using assms(4) stop_is_clear [of order r] by simp_all
  have empty: "held_in (rt_slots r') i = None" for i
    unfolding r' by (rule clear_empties) (use assms(3) in auto)
  have gone: "removed_from (rt_slots r) (rt_slots r')"
    unfolding r' using assms(1,2) by (intro removed_clear)
  then have same: "leases (rt_slots r') = leases (rt_slots r)" by (simp add: removed_from_def)
  have alive: "heap_of (rt_slots r') c \<noteq> None \<longleftrightarrow> c \<in># leases (rt_slots r)" for c
    using ok_alive [OF removed_ok [OF gone], of c] empty same by (simp add: in_slot_def)
  show ?thesis
    using empty same alive r'(2) load_outlives_the_stop [OF assms(3), of ld ch a s2 started i] by blast
qed

text \<open>A router with one empty slot is stopped while the model of that slot is being loaded.\<close>

definition stopped_load :: loading where
  "stopped_load = demo_load\<lparr>
     ld_race := (\<lambda>s. rt_slots (fst (stop_thread [''n''] (old_router\<lparr>rt_slots := s\<rparr>)))),
     ld_server := Inr \<lparr>ch_id = ''n'', ch_port = 9, ch_pid = 8\<rparr>\<rparr>"

theorem stop_ends_what_nobody_reads_witness:
  "rt_stopped (fst (stop_thread [''n''] old_router)) \<and>
   held_in (rt_slots (fst (stop_thread [''n''] old_router))) ''n'' = None \<and>
   (\<exists>s2 new s3. slots_start \<lparr>a_entry = plain_entry ''n'' 9 OnDemand, a_room = Any\<rparr> stopped_load
        (rt_slots old_router) = (s2, Inr new) \<and>
      insert_child ''n'' new s2 = (s3, 8) \<and> held_in s3 ''n'' = Some new)"
proof -
  let ?a = "\<lparr>a_entry = plain_entry ''n'' 9 OnDemand, a_room = Any\<rparr>"
  obtain r' l where stop: "stop_thread [''n''] old_router = (r', l)" by (cases "stop_thread [''n''] old_router")
  obtain s2 started where start: "slots_start ?a stopped_load (rt_slots old_router) = (s2, started)"
    by (cases "slots_start ?a stopped_load (rt_slots old_router)")
  have "slots_ok (rt_slots old_router)" by (simp add: old_slots)
  moreover have "set [''n''] = dom (by_id (rt_slots old_router))"
    by (auto simp: old_slots slots_new_def old_catalog_def plain_entry_def split: if_splits)
  moreover have "stopped_meanwhile [''n''] old_router stopped_load"
    "ld_server stopped_load = Inr \<lparr>ch_id = ''n'', ch_port = 9, ch_pid = 8\<rparr>"
    by (simp_all add: stopped_meanwhile_def stopped_load_def)
  ultimately have "rt_stopped r' \<and> held_in (rt_slots r') ''n'' = None \<and>
      (\<exists>new s3. started = Inr new \<and> insert_child ''n'' new s2 = (s3, 8) \<and> held_in s3 ''n'' = Some new)"
    using stop_ends_what_nobody_reads [OF _ _ _ stop, of stopped_load
        "\<lparr>ch_id = ''n'', ch_port = 9, ch_pid = 8\<rparr>" ?a s2 started "''n''"] start
    by (simp del: One_nat_def) blast
  then show ?thesis unfolding stop fst_conv using start by (elim conjE exE) (intro conjI exI; simp)
qed

end
