(* ===== verification/Repository_Cases.thy ===== *)
theory Repository_Cases
  imports Admission_Policy Windows Http_Request Catalog_Resolve
begin

text \<open>
  The repository's own unit tests, as evaluations of the model: the cases of
  \<open>admission/decision.rs\<close>, \<open>admission/guests.rs\<close>, \<open>idle.rs\<close>, \<open>queue.rs\<close>, \<open>proxy/endpoint.rs\<close>,
  \<open>proxy/head/parsed.rs\<close> and \<open>catalog/discover/name.rs\<close> that need no file and no clock but the
  one they set, each under its name there, with the test's own arguments. They hold the model
  against what the code was tested to do.
\<close>

section \<open>Admission\<close>

text \<open>A test states ages in seconds; the clock stands at one thousand.\<close>

definition held_case :: "string \<Rightarrow> nat \<Rightarrow> residency \<Rightarrow> bool \<Rightarrow> nat \<Rightarrow> loaded" where
  "held_case i mib res reading age =
     \<lparr>l_id = i, cost_mib = of_nat mib, device_mib = of_nat mib, l_residency = res, l_busy = reading,
      last_used = 1000 - age\<rparr>"

definition idle_case :: "string \<Rightarrow> nat \<Rightarrow> nat \<Rightarrow> loaded" where
  "idle_case i mib age = held_case i mib OnDemand False age"

definition wanted_case :: "string \<Rightarrow> nat \<Rightarrow> wanted" where
  "wanted_case i mib = \<lparr>w_id = i, w_cost_mib = of_nat mib, w_device_mib = of_nat mib\<rparr>"

lemmas admission_case =
  admit_def admit_with_guests_def Let_def budget_new_def budget_with_probe_def room_of_def
  room_short_def sat_sub_def freed_default_def free_one_def candidates_def candidate_def
  frees_itself_def rank_def held_case_def idle_case_def wanted_case_def widen_def

lemma without_a_limit_anything_fits_and_nothing_is_unloaded:
  "admit (budget_new None) [idle_case ''a'' 900000 10, idle_case ''b'' 900000 5]
     (wanted_case ''c'' 900000) None = Fits"
  by (simp add: admission_case)

lemma with_room_to_spare_a_wanted_entry_fits:
  "admit (budget_new (Some 10000)) [idle_case ''a'' 2000 10] (wanted_case ''b'' 3000) None = Fits"
  by (simp add: admission_case)

lemma a_wanted_entry_that_does_not_fit_unloads_the_coldest_candidate:
  "admit (budget_new (Some 10000)) [idle_case ''a'' 4000 30, idle_case ''b'' 4000 1]
     (wanted_case ''c'' 5000) None = Unload [''a'']"
  by (simp add: admission_case)

lemma only_as_many_candidates_as_are_needed_are_unloaded:
  "admit (budget_new (Some 10000))
     [idle_case ''a'' 3000 30, idle_case ''b'' 3000 20, idle_case ''c'' 3000 10]
     (wanted_case ''d'' 5000) None = Unload [''a'', ''b'']"
  by (simp add: admission_case)

lemma a_resident_entry_is_never_unloaded:
  "admit (budget_new (Some 10000)) [held_case ''pinned'' 6000 Resident False 100, idle_case ''idle'' 2000 1]
     (wanted_case ''wanted'' 3000) None = Unload [''idle'']"
  by (simp add: admission_case)

lemma a_busy_entry_is_never_unloaded:
  "admit (budget_new (Some 10000)) [held_case ''reading'' 6000 OnDemand True 100, idle_case ''idle'' 2000 1]
     (wanted_case ''wanted'' 3000) None = Unload [''idle'']"
  by (simp add: admission_case)

text \<open>A message is what \<open>refusal\<close> words for the room that is short, and names who holds it.\<close>

lemmas message_case =
  refusal_def reserved_mib_def residents_of_def holders_def holder_text_def never_text_def
  too_large_text_def sum_u64_def

lemma when_the_room_is_held_by_something_busy_the_decision_blocks_and_says_why:
  "admit (budget_new (Some 10000))
     [held_case ''busy'' 8000 OnDemand True 100, held_case ''pinned'' 1000 Resident False 50]
     (wanted_case ''wanted'' 5000) None =
   Blocked (quoted ''wanted'' @ '' needs '' @ dec64 5000 @ '' MiB and the budget of '' @ dec64 10000
     @ '' MiB is held by: busy ('' @ dec64 8000 @ '' MiB, busy), pinned ('' @ dec64 1000 @ '' MiB, resident)'')"
  by (simp add: admission_case message_case)

lemma when_a_resident_holds_the_room_the_decision_refuses_because_waiting_cannot_help:
  "\<exists>m. admit (budget_new (Some 10000))
     [held_case ''pinned'' 8000 Resident False 100, held_case ''also-pinned'' 1000 Resident False 50]
     (wanted_case ''wanted'' 5000) None = Refuse m"
  by (simp add: admission_case)

lemma a_refusal_a_resident_makes_permanent_says_so_instead_of_naming_the_moment:
  "admit (budget_new (Some 10000))
     [held_case ''steward'' 1000 Resident False 100, idle_case ''big'' 6000 50]
     (wanted_case ''flagship'' 9500) None =
   Refuse (never_text (wanted_case ''flagship'' 9500) 10000
     [held_case ''steward'' 1000 Resident False 100, idle_case ''big'' 6000 50])"
  by (simp add: admission_case message_case)

lemma an_entry_that_fits_exactly_beside_the_residents_is_not_told_it_never_will:
  "\<exists>m. admit (budget_new (Some 10000))
     [held_case ''steward'' 1000 Resident False 100, held_case ''reading'' 6000 OnDemand True 50]
     (wanted_case ''exact'' 9000) None =
   Blocked (quoted ''exact'' @ '' needs '' @ m)"
  by (simp add: admission_case message_case)

lemma an_entry_already_loaded_fits_even_when_the_budget_is_exhausted:
  "admit (budget_new (Some 10000)) [held_case ''wanted'' 9999 OnDemand True 1]
     (wanted_case ''wanted'' 9999) None = Fits"
  by (simp add: admission_case)

lemma an_entry_larger_than_the_whole_budget_refuses_immediately:
  "admit (budget_new (Some 4000)) [idle_case ''a'' 1000 10] (wanted_case ''huge'' 8000) None =
     Refuse (too_large_text (wanted_case ''huge'' 8000) 4000)"
  by (simp add: admission_case)

lemma a_device_short_of_room_unloads_a_candidate_the_ledger_would_have_kept:
  "admit (budget_new None) [idle_case ''idle'' 512 10] (wanted_case ''wanted'' 512) (Some 100) =
     Unload [''idle'']"
  by (simp add: admission_case)

lemma a_device_short_of_room_with_nothing_to_unload_refuses_naming_needed_and_free:
  "\<exists>m. admit (budget_new None) [] (wanted_case ''wanted'' 512) (Some 100) =
     Refuse (quoted ''wanted'' @ '' needs '' @ dec64 512 @ '' MiB on the device, which has '' @ dec64 100 @ m)"
  by (simp add: admission_case message_case)

lemma an_entry_that_puts_nothing_on_the_device_is_not_held_to_the_devices_room:
  "admit (budget_new None) [] \<lparr>w_id = ''processor-bound'', w_cost_mib = 4096, w_device_mib = 0\<rparr> (Some 0) =
     Fits"
  by (simp add: admission_case)

lemma an_entry_of_exactly_the_whole_budget_fits_when_nothing_else_is_loaded:
  "admit (budget_new (Some 4000)) [] (wanted_case ''whole'' 4000) None = Fits"
  by (simp add: admission_case)

text \<open>The guests' cases.\<close>

abbreviation guests_held :: "loaded list" where
  "guests_held \<equiv> [idle_case ''warm-guest'' 500 1, idle_case ''chat'' 2000 30, idle_case ''cold-guest'' 500 10]"

lemma an_idle_guest_goes_before_any_other_model_the_coldest_guest_first:
  "admit_with_guests (budget_new (Some 4096)) guests_held [''warm-guest'', ''cold-guest'']
     (wanted_case ''other-chat'' 1500) None = Unload [''cold-guest'']"
  "admit_with_guests (budget_new (Some 4096)) guests_held [''warm-guest'', ''cold-guest'']
     (wanted_case ''bigger-chat'' 1900) None = Unload [''cold-guest'', ''warm-guest'']"
  by (simp_all add: admission_case)

lemma a_busy_guest_is_never_unloaded_so_the_idle_model_goes_instead:
  "admit_with_guests (budget_new (Some 10000))
     [held_case ''searching'' 6000 OnDemand True 100, idle_case ''idle'' 2000 1] [''searching'']
     (wanted_case ''wanted'' 3000) None = Unload [''idle'']"
  by (simp add: admission_case)

section \<open>Windows\<close>

lemmas window_case = expired_def idle_window_new_def seconds_def millis_def as_secs_def held_case_def idle_case_def

lemma an_on_demand_entry_older_than_the_window_is_named_beside_a_younger_one:
  "expired (IdleWindow (Some 60)) [idle_case ''old'' 0 120, idle_case ''young'' 0 10] 1000 = [''old'']"
  by (simp add: window_case)

lemma a_resident_older_than_the_window_is_not_named_beside_an_on_demand_one:
  "expired (IdleWindow (Some 60)) [held_case ''pinned'' 0 Resident False 120, idle_case ''stale'' 0 120] 1000 =
     [''stale'']"
  by (simp add: window_case)

lemma a_busy_entry_older_than_the_window_is_not_named_beside_an_idle_one:
  "expired (IdleWindow (Some 60)) [held_case ''reading'' 0 OnDemand True 120, idle_case ''stale'' 0 120] 1000 =
     [''stale'']"
  by (simp add: window_case)

lemma a_zero_window_names_nothing_whatever_the_ages_are:
  "expired (idle_window_new 0) [idle_case ''just-finished'' 0 0, idle_case ''ancient'' 0 1000000] 2000000 = []"
  "window_duration (idle_window_new 0) = None"
  by (simp_all add: window_case)

lemma several_expired_entries_come_back_coldest_first:
  "expired (IdleWindow (Some 60))
     [idle_case ''newer'' 0 90, idle_case ''oldest'' 0 300, idle_case ''newest'' 0 61] 1000 =
     [''oldest'', ''newer'', ''newest'']"
  by (simp add: window_case)

lemma an_unset_or_empty_wait_is_the_sixty_second_default:
  "wait_from_variable None = Inr (Wait (seconds 60))" "wait_from_variable (Some []) = Inr (Wait (seconds 60))"
  by (simp_all add: wait_from_variable_def DEFAULT_WAIT_def)

lemma a_numeric_wait_is_used_as_given_and_zero_refuses_at_once:
  "wait_from_variable (Some ''120'') = Inr (Wait (seconds 120))"
  "wait_from_variable (Some '' 0 '') = Inr (Wait 0)" "\<not> waits (Wait 0)"
proof -
  have "trim ''120'' = ''120''" "trim '' 0 '' = ''0''" by code_simp+
  moreover have "parse_unsigned (2 ^ 64) ''120'' = Some 120" "parse_unsigned (2 ^ 64) ''0'' = Some 0"
    by (simp_all add: is_digit_def parse_unsigned_def digits_val_def digit_val_def)
  moreover have "utf8_lossy ''120'' = ''120''" "utf8_lossy '' 0 '' = '' 0 ''"
    by (simp_all add: utf8_lossy_valid utf8_valid_ascii)
  ultimately show "wait_from_variable (Some ''120'') = Inr (Wait (seconds 120))"
      "wait_from_variable (Some '' 0 '') = Inr (Wait 0)"
    by (simp_all add: wait_from_variable_def seconds_def)
  show "\<not> waits (Wait 0)" by (simp add: waits_def)
qed

lemma a_mistyped_wait_is_refused_naming_the_variable_and_the_value:
  "\<exists>m. wait_from_variable (Some ''a while'') = Inl (WAIT_VARIABLE @ '' carries '' @ quoted ''a while'' @ m)"
proof -
  have "trim ''a while'' = ''a while''" by code_simp
  then have "parse_unsigned (2 ^ 64) (trim ''a while'') = None"
    by (simp add: is_digit_def parse_unsigned_def)
  moreover have "utf8_lossy ''a while'' = ''a while''" by (simp add: utf8_lossy_valid utf8_valid_ascii)
  ultimately show ?thesis by (simp add: wait_from_variable_def)
qed

section \<open>Endpoints\<close>

lemma a_models_path_names_the_model_and_what_follows_it:
  "endpoint_of ''/models/gemma3/v1/chat/completions'' = Inr (Dedicated ''gemma3'' ''/v1/chat/completions'')"
  by code_simp

lemma a_v1_path_is_generic_and_keeps_the_whole_path:
  "endpoint_of ''/v1/chat/completions'' = Inr (Generic ''/v1/chat/completions'')"
  by code_simp

lemma the_models_listing_is_answered_by_the_router_itself:
  "endpoint_of ''/v1/models'' = Inr Listing" "endpoint_of ''/v1/models/'' = Inr Listing"
  "endpoint_of ''/v1/models?limit=100'' = Inr Listing"
  by code_simp+

lemma a_query_stays_on_a_path_a_child_answers:
  "map_sum id suffix_of (endpoint_of ''/models/gemma3/v1/chat/completions?x=1'') =
     Inr ''/v1/chat/completions?x=1''"
  by code_simp

lemma only_the_methods_a_model_can_be_asked_with_are_allowed:
  "filter (allows (Dedicated ''gemma3'' ''/v1/chat/completions'')) [''POST'', ''GET'', ''DELETE'', ''HEAD''] =
     [''POST'', ''GET'']"
  "filter (allows Listing) [''HEAD'', ''POST''] = [''HEAD'']"
  by code_simp+

lemma a_models_path_with_nothing_after_the_identifier_is_refused:
  "list_all (\<lambda>path. case endpoint_of path of
     Inl r \<Rightarrow> contains_text ''gemma3'' (rf_message r) | Inr _ \<Rightarrow> False) [''/models/gemma3'', ''/models/gemma3/'']"
  by code_simp

lemma a_path_that_is_neither_shape_is_refused_naming_both:
  "case endpoint_of ''/health'' of
     Inl r \<Rightarrow> contains_text ''/models/'' (rf_message r) \<and> contains_text ''/v1/'' (rf_message r) | Inr _ \<Rightarrow> False"
  by code_simp

section \<open>Heads\<close>

text \<open>What a head that parses says of one field.\<close>

definition said_of :: "(head \<Rightarrow> 'a) \<Rightarrow> string list \<Rightarrow> 'a option" where
  "said_of field ls = (case head_parse ls of Inl _ \<Rightarrow> None | Inr h \<Rightarrow> Some (field h))"

abbreviation completions :: string where
  "completions \<equiv> ''POST /models/gemma3/v1/chat/completions HTTP/1.1''"

abbreviation echoing :: "string list" where
  "echoing \<equiv> [''POST /models/gemma3/v1/echo HTTP/1.1'', ''Host: 127.0.0.1:8080'']"

abbreviation child_address :: string where "child_address \<equiv> ''127.0.0.1:41234''"

lemma an_empty_head_is_refused_rather_than_assumed: "head_parse [] = Inl (refusal_new MalformedRequest ''a request with no request line'')"
  by (simp add: head_parse_def)

lemma a_head_without_a_length_says_so_rather_than_declaring_nothing:
  "said_of h_length echoing = Some Absent"
  by code_simp

lemma chunked_transfer_encoding_is_detected:
  "said_of h_chunked [completions, ''Transfer-Encoding: chunked''] = Some True"
  "said_of h_chunked echoing = Some False"
  by code_simp+

lemma only_a_transfer_encoding_naming_chunked_announces_chunked_framing:
  "said_of h_chunked [completions, ''Transfer-Encoding: gzip'', ''X-Framing: chunked''] = Some False"
  by code_simp

lemma an_expectation_is_read_here_and_does_not_travel_on:
  "said_of h_expects_continue [completions, ''Expect: 100-Continue''] = Some True"
  "said_of h_expects_continue echoing = Some False"
  by code_simp+

lemma only_an_expect_header_asking_to_continue_holds_the_body_back:
  "said_of h_expects_continue [completions, ''Expect: something-else'', ''X-Asked: 100-continue''] = Some False"
  by code_simp

lemma the_room_header_is_read_whatever_the_case_of_its_name:
  "said_of h_room [completions, ''X-Model-Router-Room: free''] = Some (Inr Free)"
  "said_of h_room [completions, ''x-model-router-room: free''] = Some (Inr Free)"
  "said_of h_room echoing = Some (Inr Any)"
  by code_simp+

section \<open>Names under the models root\<close>

lemma an_identifier_is_the_stem_lowercased_and_hyphenated:
  "sanitised ''Qwen3.8-27B-UD-Q6_K'' = ''qwen3-8-27b-ud-q6-k''" "sanitised ''--Odd__Name--'' = ''odd-name''"
  "sanitised ''...'' = []"
  by code_simp+

end
