(* ===== verification/Spec2Isabelle.thy ===== *)
theory Spec2Isabelle
  imports Admission_Policy Windows Waiting_Line Launch_Facts Slot_Claims Wait_Claims
    Serving_Claims Bell Relay_Threads Bench_Rate Request_Claims
    Catalog_Claims Gguf_Facts Estimate_Facts
    Resolve_Facts Router_Claims Command_Claims Repository_Cases
begin

text \<open>
  The model router: one address that serves many local language models by starting and
  stopping one child process per model within a memory budget.

  \<^bold>\<open>The program.\<close> A catalog (a TOML file, \<open>src/catalog\<close>) declares the models: where the file
  is, how much memory it is estimated to take, whether it is a resident or loaded on demand. An
  estimate nobody wrote is derived from the model's own GGUF metadata (\<open>src/gguf\<close>,
  \<open>src/catalog/estimate\<close>), and models nobody wrote are found under the models root
  (\<open>src/catalog/discover\<close>). A connection is read for one request (\<open>src/proxy/head\<close>,
  \<open>src/proxy/endpoint.rs\<close>), answered by the router itself or handed to the child serving the
  model it names (\<open>src/proxy/answer\<close>, \<open>src/proxy/relay.rs\<close>). Every model has one slot
  (\<open>src/proxy/loaded.rs\<close>, \<open>src/proxy/slots\<close>), which holds a child and counts who reads it. A
  request for a model that is not loaded takes the admission lock, asks the policy what must be
  unloaded (\<open>src/admission\<close>), waits in line for room when only time can help
  (\<open>src/proxy/slots/queue.rs\<close>), and starts a child (\<open>src/launch\<close>). Beside the requests a reaper
  takes back idle and exited children (\<open>src/proxy/reaper.rs\<close>), residents are loaded at startup
  (\<open>src/proxy/residents.rs\<close>), and a reload replaces the catalog (\<open>src/proxy/shared.rs\<close>).

  \<^bold>\<open>The theories\<close>, in the order they build on each other:

  \<^item> \<open>Router_Prelude\<close>: machine integers, strings as their UTF-8 bytes, ordered maps, the sums and
    list lemmas everything else uses. \<open>Utf8\<close>: valid UTF-8 and its lossy reading. \<open>Turn_Loop\<close>:
    the contract the waiting loops share, and how one that has an answer came to it.
  \<^item> \<open>Admission\<close> (\<open>src/admission\<close>): the budget, the subjects, the room, and
    \<open>admit_with_guests\<close>. \<open>Admission_Policy\<close>: its specification over natural numbers, what its
    documentation promises and the one case in which the two part, the refinement, and the
    interface \<open>admission_policy\<close> the slots rely on.
  \<^item> \<open>Windows\<close> (\<open>src/idle.rs\<close>, \<open>src/queue.rs\<close>, the interval of \<open>src/proxy/reaper.rs\<close>);
    \<open>Waiting_Line\<close> (\<open>src/proxy/slots/queue.rs\<close>): tickets, turns, and who may take the room.
  \<^item> \<open>Launch\<close>, \<open>Launch_Facts\<close> (\<open>src/launch\<close>): the command line, the two attempts to bind a
    port, the probe and readiness within its budget, the two output streams, the failures.
  \<^item> \<open>Memory_Figures\<close>, \<open>Memory_Tools\<close> (\<open>src/memory\<close>): the figures read out of the platform's text,
    the budget derived from them, and the bounded runs of the tools that print it.
  \<^item> \<open>Gguf\<close>, \<open>Gguf_Facts\<close> (\<open>src/gguf\<close>): the metadata reader with each of its bounds, and the round
    trip against an encoder.
  \<^item> \<open>Catalog_Entry\<close>, \<open>Catalog_Read\<close>, \<open>Catalog_Facts\<close>, \<open>Catalog_Claims\<close> (\<open>src/catalog\<close>): entries,
    paths, and the reading of a catalog's text with its report.
  \<^item> \<open>Estimate\<close>, \<open>Estimate_Facts\<close> (\<open>src/catalog/estimate\<close>): shards, flags, the key-value cache and
    the sum of the terms.
  \<^item> \<open>Catalog_Resolve\<close>, \<open>Resolve_Facts\<close> (\<open>src/catalog/resolve.rs\<close>, \<open>src/catalog/discover\<close>): the
    walk, the discovered entries, the settled estimates.
  \<^item> \<open>Slot_Cell\<close>, \<open>Slot_Table\<close>, \<open>Slot_Room\<close> (\<open>src/proxy/loaded.rs\<close>, \<open>src/proxy/slots\<close>): the
    slots, leases, sweeps, unloading, starting, and the wait for room. \<open>Slot_Facts\<close> and
    \<open>Slot_Keepers\<close> prove their invariant operation by operation through the interface
    \<open>slot_keeper\<close>; \<open>Slot_Waits\<close> the wait; \<open>Slot_Leases\<close> what each call hands out.
  \<^item> \<open>Interleaving\<close>, \<open>Ledger\<close>: the slots under every interleaving of the threads, a step for each
    hold of a slot's lock, and the invariant that keeps the budget. \<open>Slot_Claims\<close> and
    \<open>Wait_Claims\<close> state the properties of the slots under one catalog; \<open>Serving_Steps\<close> and
    \<open>Serving_Claims\<close> add the reloads, with requests that still work under the catalog they read,
    and, as a relation of its own beside every other step, the stop that drains the whole table.
    \<open>Bell\<close> is the order in which a waiter hears, looks and waits and a lease drops its handle and
    rings, each a step among all the others. \<open>Custody\<close> is the abstract machine the slots implement -- which child
    each slot holds and which are read from, no handles and no counts -- with the simulation of
    every step by one of its calls, and \<open>Custody_Runs\<close> the same for the calls as the code writes
    them, up to \<open>answer_to\<close>.
  \<^item> \<open>Http_Request\<close>, \<open>Http_Reply\<close>, \<open>Http_Relay\<close>, \<open>Http_Answer\<close> (\<open>src/proxy/endpoint.rs\<close>,
    \<open>refusal.rs\<close>, \<open>head\<close>, \<open>access.rs\<close>, \<open>reply.rs\<close>, \<open>metrics.rs\<close>, \<open>body.rs\<close>, \<open>relay.rs\<close>,
    \<open>answer\<close>): a connection is the bytes it delivers and how it ends, and \<open>answer_to\<close> answers it
    from its first byte to the child let go of. \<open>Relay_Threads\<close> is the response under every
    interleaving of the thread that copies it and the one that watches the caller, on a platform
    whose shutdown wakes a blocked read and on one whose shutdown does not. The connection to a
    child may be refused, or break after any number of bytes. \<open>Head_Facts\<close>, \<open>Head_Claims\<close>,
    \<open>Answer_Facts\<close>, \<open>Answer_Claims\<close> prove what is read and sent on, and \<open>Accounts\<close> keeps the account
    of the leases a request takes and gives back, whatever others do in between.
  \<^item> \<open>Router_State\<close>, \<open>Router_Claims\<close> (\<open>src/proxy/shared.rs\<close>, \<open>router.rs\<close>, \<open>residents.rs\<close>,
    \<open>reaper.rs\<close>, \<open>permits.rs\<close>, \<open>listen.rs\<close>): the state every connection shares.
  \<^item> \<open>Stub_Server\<close>, \<open>Stub_Facts\<close>, \<open>Stub_Claims\<close> (\<open>src/bin/stub_llama_server\<close>): the stand-in for a
    child that the repository's tests run against, and what of the router's writing -- command
    line, probe, relayed request -- arrives at it. \<open>Request_Claims\<close> follows a request through the
    whole of \<open>answer_to\<close> to the child of the model it names.
  \<^item> \<open>Bench\<close>, \<open>Bench_Rate\<close> (\<open>src/bench\<close>), \<open>Command_Line\<close>, \<open>Command_Claims\<close> (\<open>src/arguments.rs\<close>, \<open>check.rs\<close>,
    \<open>launching.rs\<close>, \<open>serving.rs\<close>, \<open>startup.rs\<close>): the commands over the parts above, and what a
    signal ends.
  \<^item> \<open>Repository_Cases\<close>: the repository's own unit tests of the policy, the windows, the
    endpoints and the head, as evaluations of the model.

  \<^bold>\<open>What is shown.\<close> However requests, sweeps, loads, reloads and stops
  interleave, no child is stopped while a request reads it and only the router's stop empties
  its slot, and as long as no reload adds a model or raises an estimate the estimates of those
  loaded models that the catalog lists stay within the budget; a race with a reload that
  exceeds it is exhibited. The counted handles implement plain custody of the
  children, step by step and call by call. Admission decides exactly what its specification
  says, and what its documentation says but for shortages it waits for in vain, protects residents and busy models, unloads no more than it needs and in the stated
  order. The wait for room ends, in the order of arrival, and no wake-up is lost. Only a request
  that was let in, framed and screened changes anything, it reaches the child in the slot of the
  model it names, and it gives back every lease it took. A start that fails leaves no process. A
  head is read within its bounds, what is sent on is one request with one host and one
  connection line, and a child reads back exactly the caller's headers and body from it when
  all of it arrives and its length is said at most once, and serves where the router probes it. What a caller is given is the beginning of what the child
  said, and a caller that leaves ends its relay. A catalog that reads is well formed and a
  report names every fault; metadata round trips; estimates are their sums. A tool the machine
  is asked through runs for five seconds at most unless something it left behind holds its
  output, and a stop ends every child that nobody reads and no load is still starting. The
  places where the code and its own documentation part are lemmas of their own.

  \<^bold>\<open>Conventions.\<close> A Rust integer is a word of its width and wraps as a
  release build does, or a natural number with its bound where it is only compared. A
  \<open>String\<close> is the list of its bytes. A fallible function returns a sum, the error
  on the left. A loop that other threads end, the wait for room, runs over the list of turns it
  is woken for, each with its time and what others did to the slots meanwhile;
  \<open>None\<close> says that the list ended with the request still waiting, and
  \<open>wait_for_room_ends\<close> shows that a turn past the deadline is enough. The readiness
  loop, the reaper, the run of a tool and the reads after a refusal run over lists of ticks in
  the same way. What happens between two steps of one call is a function argument of it, and its
  lemmas hold for every such function that keeps the slots well formed; in
  \<open>Custody_Runs\<close> it is anything the custody machine allows, which other requests
  and the sweeps are. Handles are reference-counted as \<open>Arc\<close> counts them: a child
  is idle when its count is one. The bounds of the source (64 KiB and 100 lines of head, 8 MiB
  of buffered body, the figures of the GGUF reader) are constants of the model with the source's
  names.

  \<^bold>\<open>Parameters.\<close> The TOML and JSON libraries, the file system (a map from paths to contents, and a
  listing), the child's process calls, the clock, the sockets' timing, and the device's
  figures are arguments of the definitions that use them.

  \<^bold>\<open>Not modelled.\<close> \<open>src/main.rs\<close> and the stub's \<open>main.rs\<close> hand their arguments over. The
  callbacks a voice is made of are the binary's; the lines are in the slots' state, each on its
  side. Sockets, processes and threads are what they deliver: bytes and an end, a status, an
  order of steps. The benchmark's writer takes every line, its floating point numbers are an
  argument, and the router's own answers are read in one state. The tests, the examples and the
  build script are not part of the program.
\<close>

end
